(* ===== verification/Dytan_Prelude.thy ===== *)
theory Dytan_Prelude
  imports Main "HOL-Library.Word"
begin

text \<open>
  Shared base of the development: the error values of the model and the
  sequencing of fallible operations, the C integer conversions and loop shapes that
  the sources use (\<open>while (i--)\<close>, \<open>for (unsigned i = 0; i < n; i++)\<close>,
  \<open>for (addr = start; addr < start + size; addr++)\<close>), and the collections of
  rewrite rules that the component theories extend.
\<close>

unbundle bit_operations_syntax

named_theorems res_simps
  \<open>rewrite rules for sequencing of fallible operations\<close>
named_theorems map_simps
  \<open>lookup after an update of a finite map\<close>
named_theorems bitset_simps
  \<open>functional behaviour of the bitset operations on well-formed sets\<close>
named_theorems engine_simps
  \<open>effect of the run-time routines on well-formed states\<close>
named_theorems handler_defs
  \<open>definitions of the instrumentation handlers\<close>

section \<open>Machine types of the intel64 Linux build\<close>

type_synonym addrint = "64 word"
type_synonym size_t = "64 word"

section \<open>Errors and sequencing\<close>

text \<open>
  Every way in which the C++ code stops instead of returning is a value: a failed
  \<open>assert\<close>, a call of \<open>abort()\<close>, a call of \<open>exit\<close>, and the undefined behaviours a
  path of the code can reach (an access outside an array, signed overflow, a read of an
  uninitialised or null pointer, an exception that leaves the tool, a \<open>map\<close> whose comparison
  is not an order).
\<close>

datatype error =
    Assertion_Failed
  | Abort_Called
  | Exit_Called
  | Out_Of_Bounds
  | Signed_Overflow
  | Division_By_Zero
  | Uninitialised_Read
  | Null_Dereference
  | Uncaught_Exception
  | Undefined_Order

type_synonym 'a result = "error + 'a"

fun and_then :: "'a result \<Rightarrow> ('a \<Rightarrow> 'b result) \<Rightarrow> 'b result" where
  "and_then (Inl e) f = Inl e"
| "and_then (Inr x) f = f x"

fun fold_res :: "('a \<Rightarrow> 's \<Rightarrow> 's result) \<Rightarrow> 'a list \<Rightarrow> 's \<Rightarrow> 's result" where
  "fold_res f [] s = Inr s"
| "fold_res f (x # xs) s = and_then (f x s) (fold_res f xs)"

lemma and_then_Inr_iff [res_simps]:
  "and_then m f = Inr y \<longleftrightarrow> (\<exists>x. m = Inr x \<and> f x = Inr y)"
  by (cases m) auto

lemma and_then_Inl_iff:
  "and_then m f = Inl e \<longleftrightarrow> m = Inl e \<or> (\<exists>x. m = Inr x \<and> f x = Inl e)"
  by (cases m) auto

lemma and_then_assoc [res_simps]:
  "and_then (and_then m f) g = and_then m (\<lambda>x. and_then (f x) g)"
  by (cases m) auto

lemma and_then_Inr_right [res_simps]: "and_then m Inr = m"
  by (cases m) auto

lemma fold_res_append [res_simps]:
  "fold_res f (xs @ ys) s = and_then (fold_res f xs s) (fold_res f ys)"
proof (induction xs arbitrary: s)
  case (Cons x xs)
  then show ?case by (cases "f x s") auto
qed simp

lemma fold_res_single: "fold_res f [x] = f x"
proof
  fix s
  show "fold_res f [x] s = f x s" by (cases "f x s") simp_all
qed

text \<open>A loop whose body succeeds under an invariant computes the fold of the body's value.\<close>

lemma fold_res_Inr:
  assumes "I s"
    and "\<And>x s. x \<in> set xs \<Longrightarrow> I s \<Longrightarrow> f x s = Inr (g x s) \<and> I (g x s)"
  shows "fold_res f xs s = Inr (fold g xs s) \<and> I (fold g xs s)"
  using assms by (induction xs arbitrary: s) auto

lemma fold_res_invariant:
  assumes "I s"
    and "\<And>x s. x \<in> set xs \<Longrightarrow> I s \<Longrightarrow> \<exists>s'. f x s = Inr s' \<and> I s'"
  shows "\<exists>s'. fold_res f xs s = Inr s' \<and> I s'"
  using assms
proof (induction xs arbitrary: s)
  case Nil
  then show ?case by simp
next
  case (Cons x xs)
  from Cons.prems obtain s1 where s1: "f x s = Inr s1" "I s1"
    by (metis list.set_intros(1))
  have "\<exists>s'. fold_res f xs s1 = Inr s' \<and> I s'"
    using s1(2) Cons.prems(2) by (intro Cons.IH) auto
  then show ?case using s1 by simp
qed

section \<open>C conversions\<close>

text \<open>\<open>(int) w\<close>: the low 32 bits read as two's complement.\<close>

definition c_int :: "'a::len word \<Rightarrow> int" where
  "c_int w = sint (ucast w :: 32 word)"

lemma c_int_small: "unat w < 2 ^ 31 \<Longrightarrow> c_int w = int (unat w)"
proof -
  assume a: "unat w < 2 ^ 31"
  have "c_int w = signed_take_bit 31 (int (unat w))"
    by (simp add: c_int_def sint_uint unsigned_ucast_eq signed_take_bit_take_bit)
  also have "\<dots> = int (unat w)"
  proof (rule signed_take_bit_int_eq_self)
    show "- (2 ^ 31) \<le> int (unat w)" by (rule order_trans [of _ 0]) simp_all
    show "int (unat w) < 2 ^ 31" using a by (simp del: of_nat_unat)
  qed
  finally show ?thesis .
qed

section \<open>Loop shapes\<close>

text \<open>
  \<open>int i = n; while (i--) body(i);\<close> runs the body at \<open>n - 1, \<dots>, 0\<close>. With a negative start
  the first access of the body is at a negative index.
\<close>

fun down_loop :: "(nat \<Rightarrow> 's \<Rightarrow> 's result) \<Rightarrow> nat \<Rightarrow> 's \<Rightarrow> 's result" where
  "down_loop f 0 s = Inr s"
| "down_loop f (Suc i) s = and_then (f i s) (down_loop f i)"

definition while_dec :: "(nat \<Rightarrow> 's \<Rightarrow> 's result) \<Rightarrow> int \<Rightarrow> 's \<Rightarrow> 's result" where
  "while_dec f i s = (if i < 0 then Inl Out_Of_Bounds else down_loop f (nat i) s)"

text \<open>
  \<open>int i = n; while (i-- && cond(i));\<close> leaves \<open>i = -1\<close> when every test succeeded, and the
  index of the first failing test (from the top) otherwise.
\<close>

fun down_scan :: "(nat \<Rightarrow> bool result) \<Rightarrow> nat \<Rightarrow> int result" where
  "down_scan c 0 = Inr (-1)"
| "down_scan c (Suc i) =
     and_then (c i) (\<lambda>b. if b then down_scan c i else Inr (int i))"

definition while_dec_and :: "(nat \<Rightarrow> bool result) \<Rightarrow> int \<Rightarrow> int result" where
  "while_dec_and c i = (if i < 0 then Inl Out_Of_Bounds else down_scan c (nat i))"

lemma down_scan_all:
  assumes "\<And>i. i < n \<Longrightarrow> c i = Inr (p i)"
  shows "\<exists>k. down_scan c n = Inr k \<and> (k = -1 \<longleftrightarrow> (\<forall>i<n. p i))"
  using assms by (induction n) (auto simp: less_Suc_eq)

text \<open>
  \<open>for (unsigned int i = 0; i < n; i++) body(i);\<close> with a 64-bit bound: the comparison is at
  64 bits, the increment wraps at 32 bits, so the loop need not end.
\<close>

partial_function (option) for_uint ::
  "size_t \<Rightarrow> (32 word \<Rightarrow> 's \<Rightarrow> 's result) \<Rightarrow> 32 word \<Rightarrow> 's \<Rightarrow> 's result option" where
  "for_uint n f i s =
     (if (ucast i :: size_t) < n
      then (case f i s of Inl e \<Rightarrow> Some (Inl e) | Inr s' \<Rightarrow> for_uint n f (i + 1) s')
      else Some (Inr s))"

lemma for_uint_from:
  assumes "unat n < 2 ^ 32" "k \<le> unat n"
  shows "for_uint n f (of_nat k) s =
    Some (fold_res (\<lambda>i. f (of_nat i)) [k..<unat n] s)"
  using assms(2)
proof (induction "unat n - k" arbitrary: k s)
  case 0
  then have k: "k = unat n" by simp
  have "\<not> (ucast (of_nat k :: 32 word) :: size_t) < n"
    using assms(1)
    by (simp add: k word_less_nat_alt unsigned_ucast_eq take_bit_nat_eq_self unsigned_of_nat
        del: of_nat_unat ucast_eq)
  then show ?case by (simp add: for_uint.simps k)
next
  case (Suc d)
  then have k: "k < unat n" by simp
  then have "unat (ucast (of_nat k :: 32 word) :: size_t) = k"
    using assms(1) by (simp add: unat_of_nat unsigned_ucast_eq take_bit_eq_mod)
  then have lt: "(ucast (of_nat k :: 32 word) :: size_t) < n"
    using k by (simp add: word_less_nat_alt)
  have step: "(of_nat k :: 32 word) + 1 = of_nat (Suc k)" by simp
  have IH: "for_uint n f (of_nat (Suc k)) s' =
      Some (fold_res (\<lambda>i. f (of_nat i)) [Suc k..<unat n] s')" for s'
    using Suc k by (intro Suc.hyps(1)) auto
  show ?case
    using k by (subst for_uint.simps)
      (simp only: lt step IH upt_conv_Cons fold_res.simps if_True split: sum.split, auto)
qed

lemma for_uint_total:
  "unat n < 2 ^ 32 \<Longrightarrow> for_uint n f 0 s = Some (fold_res (\<lambda>i. f (of_nat i)) [0..<unat n] s)"
  using for_uint_from [of n 0 f s] by simp

text \<open>
  \<open>for (ADDRINT addr = start; addr < stop; addr++)\<close>: the addresses visited. Both the bound
  \<open>start + size\<close> and the increment are at 64 bits, so a range that wraps is empty.
\<close>

function addr_loop :: "addrint \<Rightarrow> addrint \<Rightarrow> addrint list" where
  "addr_loop addr stop = (if addr < stop then addr # addr_loop (addr + 1) stop else [])"
  by pat_completeness auto
termination
proof (relation "measure (\<lambda>(addr, stop). unat (stop - addr))", goal_cases)
  case 1
  show ?case by simp
next
  case (2 addr stop)
  then have "unat addr < unat stop" by (simp add: word_less_nat_alt)
  moreover have "unat stop < 2 ^ 64"
    using unsigned_less [of stop] by simp
  moreover from calculation have "unat (addr + 1) = unat addr + 1"
    by (simp add: unat_word_ariths)
  ultimately show ?case by (simp add: unat_sub word_le_nat_alt)
qed

declare addr_loop.simps [simp del]

definition addr_range :: "addrint \<Rightarrow> addrint \<Rightarrow> addrint list" where
  "addr_range start sz = addr_loop start (start + sz)"

lemma plus_one_le_iff: "(a::'a::len word) < b \<Longrightarrow> a + 1 \<le> x \<longleftrightarrow> a < x"
proof -
  assume "a < b"
  then have "Suc (unat a) \<le> unat b"
    by (simp add: word_less_nat_alt)
  also have "unat b < 2 ^ LENGTH('a)"
    by (rule unsigned_less)
  finally have "unat (a + 1) = unat a + 1"
    by (simp add: unat_word_ariths)
  then show ?thesis by (auto simp: word_le_nat_alt word_less_nat_alt)
qed

lemma addr_loop_less: "a < b \<Longrightarrow> addr_loop a b = a # addr_loop (a + 1) b"
  by (simp add: addr_loop.simps [of a b])

lemma addr_loop_ge: "\<not> a < b \<Longrightarrow> addr_loop a b = []"
  by (simp add: addr_loop.simps [of a b])

lemma set_addr_loop: "set (addr_loop a b) = {x. a \<le> x \<and> x < b}"
proof (induction a b rule: addr_loop.induct)
  case (1 a b)
  show ?case
  proof (cases "a < b")
    case True
    have "set (addr_loop a b) = insert a {x. a + 1 \<le> x \<and> x < b}"
      by (simp only: addr_loop_less [OF True] list.set 1 [OF True])
    also have "\<dots> = {x. a \<le> x \<and> x < b}"
      unfolding plus_one_le_iff [OF True] using True by auto
    finally show ?thesis .
  qed (auto simp: addr_loop_ge)
qed

lemma set_addr_range: "set (addr_range a n) = {x. a \<le> x \<and> x < a + n}"
  by (simp add: addr_range_def set_addr_loop)

lemma addr_loop_sorted: "sorted (addr_loop a b) \<and> distinct (addr_loop a b)"
proof (induction a b rule: addr_loop.induct)
  case (1 a b)
  show ?case
  proof (cases "a < b")
    case True
    then show ?thesis
      using 1 [OF True]
      by (simp add: addr_loop_less [OF True] set_addr_loop plus_one_le_iff [OF True] less_imp_le)
  qed (simp add: addr_loop_ge)
qed

end
