(* ===== verification/Bitset.thy ===== *)
theory Bitset
  imports Dytan_Prelude
begin

text \<open>
  The bit vectors that hold a set of taint marks: \<open>src/bitset.cpp\<close> and
  \<open>src/include/bitset.h\<close>. A bitset is the record of the C struct; \<open>bits\<close> is the array
  it points to. An operation that fails an \<open>assert\<close> or touches the array outside its
  length is an error value. Every pointer in the tool's tables owns its own array
  (\<open>bitset_copy\<close> or \<open>bitset_init\<close> made it), so a bitset is a value here.

  \<open>bitset_ok\<close> is the representation invariant, \<open>marks\<close> the set of marks a bitset
  stands for; the operations are shown to be the set operations on \<open>marks\<close>.
\<close>

section \<open>Data and operations\<close>

record bitset =
  bits :: "size_t list"
  nbits :: size_t

definition BITSET_MASK :: "size_t \<Rightarrow> size_t" where
  "BITSET_MASK pos = push_bit (unat (pos mod 64)) 1"

definition BITSET_USED :: "size_t \<Rightarrow> size_t" where
  "BITSET_USED n = (n + (64 - 1)) div 64"

definition load_word :: "bitset \<Rightarrow> nat \<Rightarrow> size_t result" where
  "load_word s i = (if i < length (bits s) then Inr (bits s ! i) else Inl Out_Of_Bounds)"

definition store_word :: "bitset \<Rightarrow> nat \<Rightarrow> size_t \<Rightarrow> bitset result" where
  "store_word s i w =
     (if i < length (bits s) then Inr (s\<lparr>bits := (bits s)[i := w]\<rparr>) else Inl Out_Of_Bounds)"

text \<open>\<open>BITSET_WORD(set, pos)\<close> as a value and as the target of an assignment.\<close>

definition BITSET_WORD :: "bitset \<Rightarrow> size_t \<Rightarrow> size_t result" where
  "BITSET_WORD s pos = load_word s (unat (pos div 64))"

definition set_BITSET_WORD :: "bitset \<Rightarrow> size_t \<Rightarrow> size_t \<Rightarrow> bitset result" where
  "set_BITSET_WORD s pos w = store_word s (unat (pos div 64)) w"

text \<open>\<open>memcpy(dest->bits, src->bits, n * sizeof(*src->bits))\<close>\<close>

definition memcpy_words :: "bitset \<Rightarrow> bitset \<Rightarrow> nat \<Rightarrow> bitset result" where
  "memcpy_words dest src n =
     (if n \<le> length (bits dest) \<and> n \<le> length (bits src)
      then Inr (dest\<lparr>bits := take n (bits src) @ drop n (bits dest)\<rparr>)
      else Inl Out_Of_Bounds)"

definition bitset_init :: "size_t \<Rightarrow> bitset" where
  "bitset_init n = \<lparr>bits = replicate (unat (BITSET_USED n)) 0, nbits = n\<rparr>"

definition bitset_copy :: "bitset \<Rightarrow> bitset result" where
  "bitset_copy s =
     (let clone = bitset_init (nbits s) in
      memcpy_words clone s (unat (BITSET_USED (nbits s))))"

definition bitset_reset :: "bitset \<Rightarrow> bitset result" where
  "bitset_reset s =
     (let n = unat (BITSET_USED (nbits s)) in
      if n \<le> length (bits s)
      then Inr (s\<lparr>bits := replicate n 0 @ drop n (bits s)\<rparr>)
      else Inl Out_Of_Bounds)"

definition bitset_size :: "bitset \<Rightarrow> size_t" where
  "bitset_size s = nbits s"

definition bitset_clear_bit :: "bitset \<Rightarrow> size_t \<Rightarrow> bitset result" where
  "bitset_clear_bit s pos =
     (if pos < nbits s
      then and_then (BITSET_WORD s pos) (\<lambda>w.
             set_BITSET_WORD s pos (w AND NOT (BITSET_MASK pos)))
      else Inl Assertion_Failed)"

definition bitset_set_bit :: "bitset \<Rightarrow> size_t \<Rightarrow> bitset result" where
  "bitset_set_bit s pos =
     (if pos < nbits s
      then and_then (BITSET_WORD s pos) (\<lambda>w.
             set_BITSET_WORD s pos (w OR BITSET_MASK pos))
      else Inl Assertion_Failed)"

definition bitset_set_bits :: "bitset \<Rightarrow> bitset \<Rightarrow> bitset result" where
  "bitset_set_bits dest src =
     (if nbits dest \<ge> nbits src
      then memcpy_words dest src (unat (BITSET_USED (nbits src)))
      else Inl Assertion_Failed)"

definition bitset_test_bit :: "bitset \<Rightarrow> size_t \<Rightarrow> bool result" where
  "bitset_test_bit s pos =
     (if pos < nbits s
      then and_then (BITSET_WORD s pos) (\<lambda>w. Inr (w AND BITSET_MASK pos \<noteq> 0))
      else Inl Assertion_Failed)"

definition bitset_toggle_bit :: "bitset \<Rightarrow> size_t \<Rightarrow> bitset result" where
  "bitset_toggle_bit s pos =
     (if pos < nbits s
      then and_then (bitset_test_bit s pos) (\<lambda>b.
             if b then bitset_clear_bit s pos else bitset_set_bit s pos)
      else Inl Assertion_Failed)"

text \<open>\<open>dest->bits[i] op= src->bits[i]\<close> for \<open>i\<close> from \<open>BITSET_USED(dest->nbits) - 1\<close> down to 0\<close>

definition combine_words ::
  "(size_t \<Rightarrow> size_t \<Rightarrow> size_t) \<Rightarrow> bitset \<Rightarrow> bitset \<Rightarrow> bitset result" where
  "combine_words f dest src =
     while_dec (\<lambda>i d. and_then (load_word d i) (\<lambda>x.
                      and_then (load_word src i) (\<lambda>y. store_word d i (f x y))))
       (c_int (BITSET_USED (nbits dest))) dest"

definition bitset_union :: "bitset \<Rightarrow> bitset \<Rightarrow> bitset result" where
  "bitset_union dest src =
     (if nbits dest = nbits src then combine_words (\<lambda>x y. x OR y) dest src
      else Inl Assertion_Failed)"

definition bitset_union_n :: "bitset \<Rightarrow> bitset list \<Rightarrow> bitset result" where
  "bitset_union_n dest ap = fold_res (\<lambda>src d. bitset_union d src) ap dest"

definition bitset_intersection :: "bitset \<Rightarrow> bitset \<Rightarrow> bitset result" where
  "bitset_intersection dest src =
     (if nbits dest = nbits src then combine_words (\<lambda>x y. x AND y) dest src
      else Inl Assertion_Failed)"

definition bitset_difference :: "bitset \<Rightarrow> bitset \<Rightarrow> bitset result" where
  "bitset_difference dest src =
     (if nbits dest = nbits src then combine_words (\<lambda>x y. x AND NOT y) dest src
      else Inl Assertion_Failed)"

definition bitset_xor :: "bitset \<Rightarrow> bitset \<Rightarrow> bitset result" where
  "bitset_xor dest src =
     (if nbits dest = nbits src then combine_words (\<lambda>x y. x XOR y) dest src
      else Inl Assertion_Failed)"

definition bitset_equal :: "bitset \<Rightarrow> bitset \<Rightarrow> bool result" where
  "bitset_equal a b =
     (if nbits a \<noteq> nbits b then Inr False
      else and_then
        (while_dec_and (\<lambda>i. and_then (load_word a i) (\<lambda>x.
                            and_then (load_word b i) (\<lambda>y. Inr (x = y))))
          (c_int (BITSET_USED (nbits a))))
        (\<lambda>i. Inr (i = -1)))"

definition bitset_is_subset :: "bitset \<Rightarrow> bitset \<Rightarrow> bool result" where
  "bitset_is_subset a b =
     (if nbits a = nbits b
      then and_then
        (while_dec_and (\<lambda>i. and_then (load_word a i) (\<lambda>x.
                            and_then (load_word b i) (\<lambda>y. Inr (x OR y = x))))
          (c_int (BITSET_USED (nbits a))))
        (\<lambda>i. Inr (i = -1))
      else Inl Assertion_Failed)"

definition bitset_is_empty :: "bitset \<Rightarrow> bool result" where
  "bitset_is_empty s =
     and_then
       (while_dec_and (\<lambda>i. and_then (load_word s i) (\<lambda>x. Inr (x = 0)))
         (c_int (BITSET_USED (nbits s))))
       (\<lambda>i. Inr (i = -1))"

definition bitset_population :: "bitset \<Rightarrow> size_t result option" where
  "bitset_population s =
     for_uint (nbits s)
       (\<lambda>i total. and_then (bitset_test_bit s (ucast i)) (\<lambda>b.
          Inr (if b then total + 1 else total))) 0 0"

text \<open>The characters printed before the newline.\<close>

definition bitset_print :: "bitset \<Rightarrow> string result option" where
  "bitset_print s =
     for_uint (nbits s)
       (\<lambda>i out. and_then (bitset_test_bit s (ucast i)) (\<lambda>b.
          Inr (out @ (if b then ''1'' else ''0'')))) 0 ''''"

definition bitset_str :: "bitset \<Rightarrow> string result option" where
  "bitset_str s =
     for_uint (nbits s)
       (\<lambda>i buf. and_then (bitset_test_bit s (ucast i)) (\<lambda>b.
          if b then Inr (buf @ ''1'') else Inr (buf @ ''0''))) 0 ''''"

section \<open>Representation invariant and abstraction\<close>

text \<open>
  \<open>int i = BITSET_USED(nbits)\<close> and the \<open>unsigned int\<close> counters need \<open>nbits\<close> below
  \<open>2 ^ 31\<close>; the tool's number of marks is an \<open>int\<close>.
\<close>

definition bitset_ok :: "bitset \<Rightarrow> bool" where
  "bitset_ok s \<longleftrightarrow>
     unat (nbits s) < 2 ^ 31 \<and>
     length (bits s) = (unat (nbits s) + 63) div 64 \<and>
     (\<forall>i < 64 * length (bits s).
        bit (bits s ! (i div 64)) (i mod 64) \<longrightarrow> i < unat (nbits s))"

definition marks :: "bitset \<Rightarrow> nat set" where
  "marks s = {i. i < 64 * length (bits s) \<and> bit (bits s ! (i div 64)) (i mod 64)}"

lemma bitset_okD:
  assumes "bitset_ok s"
  shows "unat (nbits s) < 2 ^ 31"
    and "length (bits s) = (unat (nbits s) + 63) div 64"
    and "marks s \<subseteq> {..<unat (nbits s)}"
  using assms by (auto simp: bitset_ok_def marks_def)

lemma bitset_okI:
  assumes "unat (nbits s) < 2 ^ 31" "length (bits s) = (unat (nbits s) + 63) div 64"
    and "marks s \<subseteq> {..<unat (nbits s)}"
  shows "bitset_ok s"
  using assms by (auto simp: bitset_ok_def marks_def)

lemma marks_finite [simp]: "finite (marks s)"
  by (rule finite_subset [of _ "{..<64 * length (bits s)}"]) (auto simp: marks_def)

lemma mem_marks:
  "i \<in> marks s \<longleftrightarrow> i < 64 * length (bits s) \<and> bit (bits s ! (i div 64)) (i mod 64)"
  by (simp add: marks_def)

lemma word_of_marks:
  assumes "w < length (bits s)" "n < 64"
  shows "bit (bits s ! w) n \<longleftrightarrow> 64 * w + n \<in> marks s"
proof -
  have "(64 * w + n) div 64 = w" "(64 * w + n) mod 64 = n" "64 * w + n < 64 * length (bits s)"
    using assms by auto
  then show ?thesis by (simp add: mem_marks)
qed

lemma bitset_ext:
  fixes a b :: bitset
  assumes "bitset_ok a" "bitset_ok b" "nbits a = nbits b" "marks a = marks b"
  shows "a = b"
proof -
  have len: "length (bits a) = length (bits b)"
    using assms by (simp add: bitset_okD)
  have "bits a = bits b"
  proof (rule nth_equalityI [OF len])
    fix w assume w: "w < length (bits a)"
    show "bits a ! w = bits b ! w"
    proof (rule bit_word_eqI)
      fix n assume "n < LENGTH(64)"
      then show "bit (bits a ! w) n \<longleftrightarrow> bit (bits b ! w) n"
        using w len assms(4) by (simp add: word_of_marks)
    qed
  qed
  then show ?thesis using assms(3) by simp
qed

lemma unat_used: "unat n < 2 ^ 31 \<Longrightarrow> unat (BITSET_USED n) = (unat n + 63) div 64"
  by (simp add: BITSET_USED_def unat_div unat_word_ariths)

lemma used_ok [simp]: "bitset_ok s \<Longrightarrow> unat (BITSET_USED (nbits s)) = length (bits s)"
  using unat_used [OF bitset_okD(1)] by (simp add: bitset_okD(2))

lemma c_int_used [simp]:
  assumes "bitset_ok s"
  shows "c_int (BITSET_USED (nbits s)) = int (length (bits s))"
proof -
  have "unat (BITSET_USED (nbits s)) < 2 ^ 31"
    using bitset_okD(1) [OF assms] by (simp add: unat_used)
  then show ?thesis using assms by (simp add: c_int_small del: of_nat_unat)
qed

section \<open>Set operations\<close>

lemma load_word_ok [simp]: "i < length (bits s) \<Longrightarrow> load_word s i = Inr (bits s ! i)"
  by (simp add: load_word_def)

lemma store_word_ok [simp]:
  "i < length (bits s) \<Longrightarrow> store_word s i w = Inr (s\<lparr>bits := (bits s)[i := w]\<rparr>)"
  by (simp add: store_word_def)

lemma combine_down_loop:
  assumes "n \<le> length (bits d)" "n \<le> length (bits s)"
  shows "down_loop (\<lambda>i d. and_then (load_word d i) (\<lambda>x.
                      and_then (load_word s i) (\<lambda>y. store_word d i (f x y)))) n d =
    Inr (d\<lparr>bits := map2 f (take n (bits d)) (take n (bits s)) @ drop n (bits d)\<rparr>)"
  using assms
proof (induction n arbitrary: d)
  case (Suc n)
  let ?d = "d\<lparr>bits := (bits d)[n := f (bits d ! n) (bits s ! n)]\<rparr>"
  have len: "n < length (bits d)" "n < length (bits s)"
    using Suc.prems by auto
  show ?case
    using len Suc.IH [of ?d]
    by (simp add: take_Suc_conv_app_nth Cons_nth_drop_Suc [symmetric])
qed simp

lemma combine_words_ok:
  assumes "bitset_ok d" "bitset_ok s" "nbits d = nbits s"
  shows "combine_words f d s = Inr (d\<lparr>bits := map2 f (bits d) (bits s)\<rparr>)"
proof -
  have "length (bits s) = length (bits d)"
    using assms by (simp add: bitset_okD(2))
  then show ?thesis
    using assms combine_down_loop [of "length (bits d)" d s f]
    by (simp add: combine_words_def while_dec_def)
qed

lemma combine_words_marks:
  assumes "bitset_ok d" "bitset_ok s" "nbits d = nbits s"
    and f: "\<And>x y n. n < 64 \<Longrightarrow> bit (f x y) n \<longleftrightarrow> g (bit x n) (bit y n)" and g: "\<not> g False False"
  shows "\<exists>r. combine_words f d s = Inr r \<and> bitset_ok r \<and> nbits r = nbits d \<and>
    marks r = {i. g (i \<in> marks d) (i \<in> marks s)}"
proof -
  let ?r = "d\<lparr>bits := map2 f (bits d) (bits s)\<rparr>"
  have len: "length (bits s) = length (bits d)"
    using assms by (simp add: bitset_okD(2))
  have m: "i \<in> marks ?r \<longleftrightarrow> g (i \<in> marks d) (i \<in> marks s)" for i
  proof (cases "i < 64 * length (bits d)")
    case True
    then have "i div 64 < length (bits d)" by (simp add: div_less_iff_less_mult mult.commute)
    with True len show ?thesis by (simp add: mem_marks f)
  next
    case False
    with len g show ?thesis by (simp add: mem_marks)
  qed
  then have "marks ?r \<subseteq> marks d \<union> marks s" using g by auto (metis (full_types))
  then have "bitset_ok ?r"
    using assms(1-3) bitset_okD [OF assms(1)] bitset_okD(3) [OF assms(2)] len
    by (intro bitset_okI) auto
  with m combine_words_ok [OF assms(1-3), of f] show ?thesis by auto
qed

lemma bitset_union_ok:
  assumes "bitset_ok d" "bitset_ok s" "nbits d = nbits s"
  shows "\<exists>r. bitset_union d s = Inr r \<and> bitset_ok r \<and> nbits r = nbits d \<and>
    marks r = marks d \<union> marks s"
  using combine_words_marks [OF assms, of "(OR)" "(\<or>)"] assms(3)
  by (auto simp: bitset_union_def bit_or_iff)

lemma bitset_intersection_ok:
  assumes "bitset_ok d" "bitset_ok s" "nbits d = nbits s"
  shows "\<exists>r. bitset_intersection d s = Inr r \<and> bitset_ok r \<and> nbits r = nbits d \<and>
    marks r = marks d \<inter> marks s"
  using combine_words_marks [OF assms, of "(AND)" "(\<and>)"] assms(3)
  by (auto simp: bitset_intersection_def bit_and_iff)

lemma bitset_difference_ok:
  assumes "bitset_ok d" "bitset_ok s" "nbits d = nbits s"
  shows "\<exists>r. bitset_difference d s = Inr r \<and> bitset_ok r \<and> nbits r = nbits d \<and>
    marks r = marks d - marks s"
  using combine_words_marks [OF assms, of "\<lambda>x y. x AND NOT y" "\<lambda>p q. p \<and> \<not> q"] assms(3)
  by (auto simp: bitset_difference_def bit_and_iff bit_not_iff)

lemma bitset_xor_ok:
  assumes "bitset_ok d" "bitset_ok s" "nbits d = nbits s"
  shows "\<exists>r. bitset_xor d s = Inr r \<and> bitset_ok r \<and> nbits r = nbits d \<and>
    marks r = (marks d - marks s) \<union> (marks s - marks d)"
  using combine_words_marks [OF assms, of "(XOR)" "(\<noteq>)"] assms(3)
  by (auto simp: bitset_xor_def bit_xor_iff)

section \<open>Whole-set operations\<close>

lemma bitset_init_ok:
  assumes "unat n < 2 ^ 31"
  shows "bitset_ok (bitset_init n) \<and> nbits (bitset_init n) = n \<and> marks (bitset_init n) = {}"
proof -
  have e: "marks (bitset_init n) = {}"
    by (auto simp: mem_marks bitset_init_def div_less_iff_less_mult mult.commute)
  moreover have "bitset_ok (bitset_init n)"
    by (rule bitset_okI) (use assms e unat_used [OF assms] in \<open>simp_all add: bitset_init_def\<close>)
  ultimately show ?thesis by (simp add: bitset_init_def)
qed

lemma bitset_copy_ok [bitset_simps]:
  assumes "bitset_ok s"
  shows "bitset_copy s = Inr s"
  using assms by (simp add: bitset_copy_def bitset_init_def memcpy_words_def)

lemma bitset_set_bits_ok [bitset_simps]:
  assumes "bitset_ok d" "bitset_ok s" "nbits d = nbits s"
  shows "bitset_set_bits d s = Inr s"
proof -
  have "length (bits s) = length (bits d)"
    using assms by (simp add: bitset_okD(2))
  then show ?thesis
    using assms by (simp add: bitset_set_bits_def memcpy_words_def)
qed

lemma bitset_reset_ok [bitset_simps]:
  assumes "bitset_ok s"
  shows "bitset_reset s = Inr (bitset_init (nbits s))"
  using assms by (simp add: bitset_reset_def bitset_init_def)

lemma bitset_okD_init:
  assumes "bitset_ok s"
  shows "bitset_ok (bitset_init (nbits s)) \<and> nbits (bitset_init (nbits s)) = nbits s \<and>
    marks (bitset_init (nbits s)) = {}"
  using assms by (intro bitset_init_ok bitset_okD)

section \<open>Single bits\<close>

lemma bit_mask [simp]:
  "bit (BITSET_MASK pos) n \<longleftrightarrow> n = unat pos mod 64"
proof -
  have "unat pos mod 64 < 64" by simp
  then show ?thesis
    by (auto simp: BITSET_MASK_def unat_mod bit_exp_iff)
qed

lemma and_mask_zero: "w AND BITSET_MASK pos = 0 \<longleftrightarrow> \<not> bit w (unat pos mod 64)"
proof
  assume "w AND BITSET_MASK pos = 0"
  then have "\<not> bit (w AND BITSET_MASK pos) (unat pos mod 64)" by simp
  then show "\<not> bit w (unat pos mod 64)" by (simp add: bit_and_iff)
next
  assume "\<not> bit w (unat pos mod 64)"
  then show "w AND BITSET_MASK pos = 0"
    by (intro bit_word_eqI) (auto simp: bit_and_iff)
qed

lemma pos_in_range:
  assumes "bitset_ok s" "pos < nbits s"
  shows "unat pos div 64 < length (bits s)" "unat pos < 64 * length (bits s)"
  using assms bitset_okD(2) [OF assms(1)] by (auto simp: word_less_nat_alt)

lemma bitset_test_bit_ok [bitset_simps]:
  assumes "bitset_ok s" "pos < nbits s"
  shows "bitset_test_bit s pos = Inr (unat pos \<in> marks s)"
  using assms pos_in_range [OF assms]
  by (simp add: bitset_test_bit_def BITSET_WORD_def unat_div and_mask_zero mem_marks)

lemma update_bit:
  assumes "bitset_ok s" "pos < nbits s"
    and f: "\<And>w n. n < 64 \<Longrightarrow> bit (f w) n \<longleftrightarrow> (if n = unat pos mod 64 then b else bit w n)"
  shows "\<exists>r. and_then (BITSET_WORD s pos) (\<lambda>w. set_BITSET_WORD s pos (f w)) = Inr r \<and>
    bitset_ok r \<and> nbits r = nbits s \<and>
    marks r = (if b then insert (unat pos) (marks s) else marks s - {unat pos})"
proof -
  let ?p = "unat pos"
  let ?r = "s\<lparr>bits := (bits s)[?p div 64 := f (bits s ! (?p div 64))]\<rparr>"
  note p = pos_in_range [OF assms(1,2)]
  have m: "i \<in> marks ?r \<longleftrightarrow> (if i = ?p then b else i \<in> marks s)" for i
  proof (cases "i div 64 = ?p div 64")
    case True
    then have "i mod 64 = ?p mod 64 \<longleftrightarrow> i = ?p" by (metis div_mult_mod_eq)
    with True p show ?thesis by (auto simp: mem_marks f)
  next
    case False
    then show ?thesis by (auto simp: mem_marks)
  qed
  have "?p < unat (nbits s)" using assms(2) by (simp add: word_less_nat_alt)
  then have "marks ?r \<subseteq> {..<unat (nbits s)}"
    using m bitset_okD(3) [OF assms(1)] by (auto split: if_splits)
  then have "bitset_ok ?r"
    using bitset_okD [OF assms(1)] by (intro bitset_okI) auto
  moreover have "marks ?r = (if b then insert ?p (marks s) else marks s - {?p})"
    by (rule set_eqI) (simp only: m, cases b, auto)
  ultimately show ?thesis
    using p by (simp add: BITSET_WORD_def set_BITSET_WORD_def unat_div)
qed

lemma bitset_set_bit_ok:
  assumes "bitset_ok s" "pos < nbits s"
  shows "\<exists>r. bitset_set_bit s pos = Inr r \<and> bitset_ok r \<and> nbits r = nbits s \<and>
    marks r = insert (unat pos) (marks s)"
  using update_bit [OF assms, of "\<lambda>w. w OR BITSET_MASK pos" True] assms(2)
  by (auto simp: bitset_set_bit_def bit_or_iff)

lemma bitset_clear_bit_ok:
  assumes "bitset_ok s" "pos < nbits s"
  shows "\<exists>r. bitset_clear_bit s pos = Inr r \<and> bitset_ok r \<and> nbits r = nbits s \<and>
    marks r = marks s - {unat pos}"
  using update_bit [OF assms, of "\<lambda>w. w AND NOT (BITSET_MASK pos)" False] assms(2)
  by (auto simp: bitset_clear_bit_def bit_and_iff bit_not_iff)

lemma bitset_toggle_bit_ok:
  assumes "bitset_ok s" "pos < nbits s"
  shows "\<exists>r. bitset_toggle_bit s pos = Inr r \<and> bitset_ok r \<and> nbits r = nbits s \<and>
    marks r = (if unat pos \<in> marks s then marks s - {unat pos} else insert (unat pos) (marks s))"
  using bitset_set_bit_ok [OF assms] bitset_clear_bit_ok [OF assms] assms
  by (auto simp: bitset_toggle_bit_def bitset_test_bit_ok)

text \<open>A position at or past \<open>nbits\<close> is an assertion failure, in every bit operation.\<close>

lemma bit_op_out_of_range:
  assumes "\<not> pos < nbits s"
  shows "bitset_test_bit s pos = Inl Assertion_Failed" "bitset_set_bit s pos = Inl Assertion_Failed"
    "bitset_clear_bit s pos = Inl Assertion_Failed" "bitset_toggle_bit s pos = Inl Assertion_Failed"
  using assms
  by (simp_all add: bitset_test_bit_def bitset_set_bit_def bitset_clear_bit_def bitset_toggle_bit_def)

section \<open>Comparisons and counts\<close>

lemma scan_words:
  assumes "n \<le> length (bits a)" "n \<le> length (bits b)"
  shows "\<exists>k. down_scan (\<lambda>i. and_then (load_word a i) (\<lambda>x.
                            and_then (load_word b i) (\<lambda>y. Inr (p x y)))) n = Inr k \<and>
    (k = -1 \<longleftrightarrow> (\<forall>i<n. p (bits a ! i) (bits b ! i)))"
  using assms by (intro down_scan_all) auto

lemma bitset_equal_ok [bitset_simps]:
  assumes "bitset_ok a" "bitset_ok b"
  shows "bitset_equal a b = Inr (a = b)"
proof (cases "nbits a = nbits b")
  case True
  have len: "length (bits b) = length (bits a)"
    using assms True by (simp add: bitset_okD(2))
  obtain k where k: "down_scan (\<lambda>i. and_then (load_word a i) (\<lambda>x.
        and_then (load_word b i) (\<lambda>y. Inr (x = y)))) (length (bits a)) = Inr k"
      "k = -1 \<longleftrightarrow> (\<forall>i<length (bits a). bits a ! i = bits b ! i)"
    using scan_words [of "length (bits a)" a b "(=)"] len by auto
  have "(\<forall>i<length (bits a). bits a ! i = bits b ! i) \<longleftrightarrow> a = b"
    using len True by (auto simp: list_eq_iff_nth_eq)
  with k True c_int_used [OF assms(1)] show ?thesis
    by (simp only: bitset_equal_def while_dec_and_def) auto
qed (auto simp: bitset_equal_def)

lemma word_or_absorb: "x OR y = x \<longleftrightarrow> (\<forall>n<64. bit y n \<longrightarrow> bit x n)" for x y :: "64 word"
  by (auto simp: bit_eq_iff bit_or_iff dest: bit_imp_le_length)

lemma bitset_is_subset_ok [bitset_simps]:
  assumes "bitset_ok a" "bitset_ok b" "nbits a = nbits b"
  shows "bitset_is_subset a b = Inr (marks b \<subseteq> marks a)"
proof -
  have len: "length (bits b) = length (bits a)"
    using assms by (simp add: bitset_okD(2))
  obtain k where k: "down_scan (\<lambda>i. and_then (load_word a i) (\<lambda>x.
        and_then (load_word b i) (\<lambda>y. Inr (x OR y = x)))) (length (bits a)) = Inr k"
      "k = -1 \<longleftrightarrow> (\<forall>i<length (bits a). bits a ! i OR bits b ! i = bits a ! i)"
    using scan_words [of "length (bits a)" a b "\<lambda>x y. x OR y = x"] len by auto
  have "(\<forall>i<length (bits a). bits a ! i OR bits b ! i = bits a ! i) \<longleftrightarrow> marks b \<subseteq> marks a"
  proof
    assume *: "\<forall>i<length (bits a). bits a ! i OR bits b ! i = bits a ! i"
    show "marks b \<subseteq> marks a"
    proof
      fix i assume "i \<in> marks b"
      then have i: "i < 64 * length (bits a)" "bit (bits b ! (i div 64)) (i mod 64)"
        using len by (auto simp: mem_marks)
      then have "i div 64 < length (bits a)" by (simp add: div_less_iff_less_mult mult.commute)
      with * i show "i \<in> marks a" by (auto simp: mem_marks word_or_absorb)
    qed
  next
    assume *: "marks b \<subseteq> marks a"
    show "\<forall>i<length (bits a). bits a ! i OR bits b ! i = bits a ! i"
      using * len by (auto simp: word_or_absorb word_of_marks)
  qed
  with k assms(3) c_int_used [OF assms(1)] show ?thesis
    by (simp only: bitset_is_subset_def while_dec_and_def) auto
qed

lemma bitset_is_empty_ok [bitset_simps]:
  assumes "bitset_ok s"
  shows "bitset_is_empty s = Inr (marks s = {})"
proof -
  obtain k where k: "down_scan (\<lambda>i. and_then (load_word s i) (\<lambda>x. Inr (x = 0))) (length (bits s)) = Inr k"
      "k = -1 \<longleftrightarrow> (\<forall>i<length (bits s). bits s ! i = 0)"
    using down_scan_all [of "length (bits s)" "\<lambda>i. and_then (load_word s i) (\<lambda>x. Inr (x = 0))"
        "\<lambda>i. bits s ! i = 0"] by auto
  have "(\<forall>i<length (bits s). bits s ! i = 0) \<longleftrightarrow> marks s = {}"
  proof
    assume "\<forall>i<length (bits s). bits s ! i = 0"
    then show "marks s = {}"
      by (auto simp: mem_marks div_less_iff_less_mult mult.commute)
  next
    assume *: "marks s = {}"
    show "\<forall>i<length (bits s). bits s ! i = 0"
    proof (intro allI impI bit_word_eqI)
      fix i n assume "i < length (bits s)" "n < LENGTH(64)"
      then show "bit (bits s ! i) n \<longleftrightarrow> bit (0 :: size_t) n"
        using * word_of_marks [of i s n] by simp
    qed
  qed
  with k c_int_used [OF assms] show ?thesis
    by (simp only: bitset_is_empty_def while_dec_and_def) auto
qed

text \<open>The positions that the \<open>unsigned int\<close> loops visit, and the tests they make there.\<close>

lemma test_bit_loop:
  assumes "bitset_ok s"
  shows "for_uint (nbits s) (\<lambda>i x. and_then (bitset_test_bit s (ucast i)) (\<lambda>b. Inr (g b x))) 0 z =
    Some (Inr (fold (\<lambda>i. g (i \<in> marks s)) [0..<unat (nbits s)] z))"
proof -
  have n: "unat (nbits s) < 2 ^ 32"
    using bitset_okD(1) [OF assms] by simp
  have "fold_res (\<lambda>i x. and_then (bitset_test_bit s (ucast (of_nat i :: 32 word)))
        (\<lambda>b. Inr (g b x))) [0..<unat (nbits s)] z =
      Inr (fold (\<lambda>i. g (i \<in> marks s)) [0..<unat (nbits s)] z) \<and> True"
  proof (rule fold_res_Inr)
    fix i x assume "i \<in> set [0..<unat (nbits s)]"
    then have i: "i < unat (nbits s)" by simp
    then have u: "unat (ucast (of_nat i :: 32 word) :: size_t) = i"
      using n by (simp add: unat_of_nat unsigned_ucast_eq take_bit_eq_mod)
    with i have "(ucast (of_nat i :: 32 word) :: size_t) < nbits s"
      by (simp only: word_less_nat_alt)
    with u show "and_then (bitset_test_bit s (ucast (of_nat i :: 32 word))) (\<lambda>b. Inr (g b x)) =
        Inr (g (i \<in> marks s) x) \<and> True"
      by (simp only: bitset_test_bit_ok [OF assms] and_then.simps)
  qed simp
  then show ?thesis
    by (simp only: for_uint_total [OF n] simp_thms)
qed

lemma fold_count:
  "fold (\<lambda>i total. if P i then total + 1 else total) xs (z :: size_t) =
    z + of_nat (length (filter P xs))"
  by (induction xs arbitrary: z) auto

lemma bitset_population_ok:
  assumes "bitset_ok s"
  shows "bitset_population s = Some (Inr (of_nat (card (marks s))))"
proof -
  have "marks s = set (filter (\<lambda>i. i \<in> marks s) [0..<unat (nbits s)])"
    using bitset_okD(3) [OF assms] by auto
  then have "card (marks s) = length (filter (\<lambda>i. i \<in> marks s) [0..<unat (nbits s)])"
    by (metis distinct_card distinct_filter distinct_upt)
  then show ?thesis
    using test_bit_loop [OF assms, of "\<lambda>b total. if b then total + 1 else total" "0 :: size_t"]
      fold_count [of "\<lambda>i. i \<in> marks s" "[0..<unat (nbits s)]" 0]
    by (simp only: bitset_population_def) simp
qed

lemma fold_digits:
  "fold (\<lambda>i buf. buf @ (if P i then ''1'' else ''0'')) xs z =
    z @ map (\<lambda>i. if P i then CHR ''1'' else CHR ''0'') xs"
  by (induction xs arbitrary: z) auto

lemma bitset_str_print: "bitset_str s = bitset_print s"
proof -
  have "(if b then Inr (buf @ ''1'') else Inr (buf @ ''0'')) =
      (Inr (buf @ (if b then ''1'' else ''0'')) :: string result)" for b buf
    by simp
  then show ?thesis by (simp only: bitset_str_def bitset_print_def)
qed

lemma bitset_str_ok:
  assumes "bitset_ok s"
  shows "bitset_str s =
    Some (Inr (map (\<lambda>i. if i \<in> marks s then CHR ''1'' else CHR ''0'') [0..<unat (nbits s)]))"
  using test_bit_loop [OF assms, of "\<lambda>b buf. buf @ (if b then ''1'' else ''0'')" "''''"]
  by (simp only: bitset_str_print bitset_print_def fold_digits append_Nil)

section \<open>Sets of marks below a bound\<close>

text \<open>
  The bitsets that the tool keeps all have \<open>NUMBER_OF_TAINT_MARKS\<close> positions:
  \<open>wf_set n\<close> is that class.
\<close>

definition wf_set :: "size_t \<Rightarrow> bitset \<Rightarrow> bool" where
  "wf_set n s \<longleftrightarrow> bitset_ok s \<and> nbits s = n"

lemma wf_setI: "bitset_ok s \<Longrightarrow> nbits s = n \<Longrightarrow> wf_set n s"
  by (simp add: wf_set_def)

lemma wf_set_eq: "wf_set n a \<Longrightarrow> wf_set n b \<Longrightarrow> marks a = marks b \<Longrightarrow> a = b"
  using bitset_ext by (auto simp: wf_set_def)

lemma wf_set_init: "unat n < 2 ^ 31 \<Longrightarrow> wf_set n (bitset_init n) \<and> marks (bitset_init n) = {}"
  using bitset_init_ok by (auto simp: wf_set_def)

lemma wf_set_bound: "wf_set n s \<Longrightarrow> unat n < 2 ^ 31"
  using bitset_okD(1) by (auto simp: wf_set_def)

lemma wf_set_copy [bitset_simps]: "wf_set n s \<Longrightarrow> bitset_copy s = Inr s"
  by (simp add: wf_set_def bitset_copy_ok)

lemma wf_set_assign [bitset_simps]: "wf_set n d \<Longrightarrow> wf_set n s \<Longrightarrow> bitset_set_bits d s = Inr s"
  by (simp add: wf_set_def bitset_set_bits_ok)

lemma wf_set_reset [bitset_simps]: "wf_set n s \<Longrightarrow> bitset_reset s = Inr (bitset_init n)"
  using bitset_reset_ok [of s] by (simp add: wf_set_def)

lemma wf_set_union:
  "wf_set n d \<Longrightarrow> wf_set n s \<Longrightarrow>
    \<exists>r. bitset_union d s = Inr r \<and> wf_set n r \<and> marks r = marks d \<union> marks s"
  using bitset_union_ok [of d s] by (auto simp: wf_set_def)

section \<open>Properties\<close>

text \<open>
  C26: on bitsets of equal size, union, intersection, difference and exclusive or are the set
  operations on the marks and keep the representation invariant; on bitsets of different
  sizes each of them fails its assertion.
\<close>

theorem bitset_algebra:
  assumes "bitset_ok a" "bitset_ok b" "nbits a = nbits b" "nbits a \<noteq> nbits c"
  shows "(\<exists>u. bitset_union a b = Inr u \<and> bitset_ok u \<and> marks u = marks a \<union> marks b) \<and>
    (\<exists>i. bitset_intersection a b = Inr i \<and> bitset_ok i \<and> marks i = marks a \<inter> marks b) \<and>
    (\<exists>d. bitset_difference a b = Inr d \<and> bitset_ok d \<and> marks d = marks a - marks b) \<and>
    (\<exists>x. bitset_xor a b = Inr x \<and> bitset_ok x \<and>
       marks x = (marks a - marks b) \<union> (marks b - marks a)) \<and>
    bitset_union a c = Inl Assertion_Failed \<and> bitset_intersection a c = Inl Assertion_Failed \<and>
    bitset_difference a c = Inl Assertion_Failed \<and> bitset_xor a c = Inl Assertion_Failed"
proof (intro conjI)
  show "\<exists>u. bitset_union a b = Inr u \<and> bitset_ok u \<and> marks u = marks a \<union> marks b"
    using bitset_union_ok [OF assms(1-3)] by blast
  show "\<exists>i. bitset_intersection a b = Inr i \<and> bitset_ok i \<and> marks i = marks a \<inter> marks b"
    using bitset_intersection_ok [OF assms(1-3)] by blast
  show "\<exists>d. bitset_difference a b = Inr d \<and> bitset_ok d \<and> marks d = marks a - marks b"
    using bitset_difference_ok [OF assms(1-3)] by blast
  show "\<exists>x. bitset_xor a b = Inr x \<and> bitset_ok x \<and>
      marks x = (marks a - marks b) \<union> (marks b - marks a)"
    using bitset_xor_ok [OF assms(1-3)] by blast
qed (simp_all add: bitset_union_def bitset_intersection_def bitset_difference_def bitset_xor_def
    assms(4))

text \<open>A set of 100 positions with the marks 3 and 70, in its two words.\<close>

definition sample_set :: bitset where
  "sample_set = \<lparr>bits = [8, 64], nbits = 100\<rparr>"

lemma sample_set_marks: "marks sample_set = {3, 70}"
proof (rule set_eqI)
  fix i :: nat
  have b8: "bit (8 :: size_t) n \<longleftrightarrow> n = 3" for n
    using bit_exp_iff [of 3 n, where 'a = size_t] by auto
  have b64: "bit (64 :: size_t) n \<longleftrightarrow> n = 6" for n
    using bit_exp_iff [of 6 n, where 'a = size_t] by auto
  consider "i < 64" | "64 \<le> i" "i < 128" | "128 \<le> i" by linarith
  then show "i \<in> marks sample_set \<longleftrightarrow> i \<in> {3, 70}"
  proof cases
    case 1
    then show ?thesis using b8 [of i] by (simp add: mem_marks sample_set_def)
  next
    case 2
    then have "i div 64 = 1" "i mod 64 = i - 64" by (simp_all add: div_eq_dividend_iff mod_if le_div_geq)
    with 2 show ?thesis using b64 [of "i - 64"] by (auto simp: mem_marks sample_set_def)
  next
    case 3
    then show ?thesis by (simp add: mem_marks sample_set_def)
  qed
qed

lemma sample_set_ok: "bitset_ok sample_set"
proof (rule bitset_okI)
  show "marks sample_set \<subseteq> {..<unat (nbits sample_set)}"
    unfolding sample_set_marks by (simp add: sample_set_def)
qed (simp_all add: sample_set_def)

theorem bitset_algebra_witness:
  "(\<exists>u. bitset_union sample_set (bitset_init 100) = Inr u \<and> bitset_ok u \<and>
     marks u = marks sample_set \<union> marks (bitset_init 100)) \<and>
   bitset_union sample_set (bitset_init 99) = Inl Assertion_Failed"
  using bitset_algebra [of sample_set "bitset_init 100" "bitset_init 99"]
  by (simp add: sample_set_ok bitset_init_ok) (simp add: sample_set_def bitset_init_def)

text \<open>
  C27: for a position inside the set, testing, setting, clearing and toggling a bit are
  membership, insertion, removal and their choice by membership; a position at or past the
  size fails the assertion of each.
\<close>

theorem bitset_bits:
  assumes "bitset_ok s" "p < nbits s" "\<not> q < nbits s"
  shows "bitset_test_bit s p = Inr (unat p \<in> marks s) \<and>
    (\<exists>r. bitset_set_bit s p = Inr r \<and> bitset_ok r \<and> marks r = insert (unat p) (marks s)) \<and>
    (\<exists>r. bitset_clear_bit s p = Inr r \<and> bitset_ok r \<and> marks r = marks s - {unat p}) \<and>
    (\<exists>r. bitset_toggle_bit s p = Inr r \<and> bitset_ok r \<and>
       (unat p \<in> marks r \<longleftrightarrow> unat p \<notin> marks s) \<and> marks r - {unat p} = marks s - {unat p}) \<and>
    bitset_test_bit s q = Inl Assertion_Failed \<and> bitset_set_bit s q = Inl Assertion_Failed \<and>
    bitset_clear_bit s q = Inl Assertion_Failed \<and> bitset_toggle_bit s q = Inl Assertion_Failed"
proof (intro conjI)
  show "bitset_test_bit s p = Inr (unat p \<in> marks s)"
    by (rule bitset_test_bit_ok [OF assms(1,2)])
  show "\<exists>r. bitset_set_bit s p = Inr r \<and> bitset_ok r \<and> marks r = insert (unat p) (marks s)"
    using bitset_set_bit_ok [OF assms(1,2)] by blast
  show "\<exists>r. bitset_clear_bit s p = Inr r \<and> bitset_ok r \<and> marks r = marks s - {unat p}"
    using bitset_clear_bit_ok [OF assms(1,2)] by blast
  show "\<exists>r. bitset_toggle_bit s p = Inr r \<and> bitset_ok r \<and>
      (unat p \<in> marks r \<longleftrightarrow> unat p \<notin> marks s) \<and> marks r - {unat p} = marks s - {unat p}"
    using bitset_toggle_bit_ok [OF assms(1,2)] by (auto split: if_splits)
qed (rule bit_op_out_of_range [OF assms(3)])+

theorem bitset_bits_witness:
  "bitset_test_bit sample_set 70 = Inr True \<and> bitset_test_bit sample_set 100 = Inl Assertion_Failed"
  using bitset_bits [of sample_set 70 100] sample_set_ok sample_set_marks
  by (simp add: sample_set_def)

text \<open>
  The comparisons decide equality of the sets, inclusion of the second set in the first,
  and emptiness.
\<close>

theorem bitset_comparisons:
  assumes "bitset_ok a" "bitset_ok b" "nbits a = nbits b"
  shows "bitset_equal a b = Inr (marks a = marks b) \<and>
    bitset_is_subset a b = Inr (marks b \<subseteq> marks a) \<and>
    bitset_is_empty a = Inr (marks a = {})"
  using bitset_equal_ok [OF assms(1,2)] bitset_is_subset_ok [OF assms]
    bitset_is_empty_ok [OF assms(1)] bitset_ext [OF assms]
  by auto

theorem bitset_comparisons_witness:
  "bitset_equal sample_set (bitset_init 100) = Inr (marks sample_set = marks (bitset_init 100)) \<and>
   bitset_is_subset sample_set (bitset_init 100) =
     Inr (marks (bitset_init 100) \<subseteq> marks sample_set) \<and>
   bitset_is_empty sample_set = Inr (marks sample_set = {})"
  by (rule bitset_comparisons)
    (simp_all add: sample_set_ok bitset_init_ok, simp add: sample_set_def bitset_init_def)

text \<open>
  Counting and printing a set end for every size below \<open>2 ^ 31\<close>: the count is the number
  of marks, and the text has one digit per position, 1 exactly at the marks.
\<close>

theorem bitset_count_and_text:
  assumes "bitset_ok s"
  shows "bitset_population s = Some (Inr (of_nat (card (marks s)))) \<and>
    bitset_str s =
      Some (Inr (map (\<lambda>i. if i \<in> marks s then CHR ''1'' else CHR ''0'') [0..<unat (nbits s)])) \<and>
    bitset_print s = bitset_str s"
  using bitset_population_ok [OF assms] bitset_str_ok [OF assms] bitset_str_print [of s] by simp

theorem bitset_count_and_text_witness:
  "bitset_population sample_set = Some (Inr 2)"
  using bitset_count_and_text [OF sample_set_ok] by (simp add: sample_set_marks)

end
