(* ===== verification/Taint_Gen.thy ===== *)
theory Taint_Gen
  imports Dytan_Prelude "HOL-Library.Signed_Division"
begin

text \<open>
  The generators of taint marks: \<open>src/include/taint_generator.h\<close>. The class hierarchy is a
  datatype with one constructor per class, the virtual \<open>nextTaintMark\<close> a dispatch on it.
  \<open>int\<close> arithmetic that leaves the 32-bit range is an error value. The value that \<open>rand()\<close>
  returns is an argument: C promises that it is not negative.
\<close>

datatype taint_generator =
    TaintGenerator int int          \<comment> \<open>\<open>_current\<close>, \<open>_max\<close>\<close>
  | ConstantTaintGenerator int      \<comment> \<open>\<open>_seed\<close>\<close>
  | RandomSetTaintGenerator int int \<comment> \<open>\<open>_start\<close>, \<open>_num\<close>\<close>

definition INT_MAX :: int where
  "INT_MAX = 2 ^ 31 - 1"

definition int_add :: "int \<Rightarrow> int \<Rightarrow> int result" where
  "int_add x y =
     (if - (2 ^ 31) \<le> x + y \<and> x + y \<le> INT_MAX then Inr (x + y) else Inl Signed_Overflow)"

definition int_rem :: "int \<Rightarrow> int \<Rightarrow> int result" where
  "int_rem x y = (if y = 0 then Inl Division_By_Zero else Inr (x smod y))"

definition TaintGenerator_nextTaintMark :: "int \<Rightarrow> int \<Rightarrow> (int \<times> taint_generator) result" where
  "TaintGenerator_nextTaintMark cur mx =
     and_then (int_add cur 1) (\<lambda>cur'.
     and_then (int_rem cur' mx) (\<lambda>mark.
     Inr (mark, TaintGenerator cur' mx)))"

definition ConstantTaintGenerator_nextTaintMark :: "int \<Rightarrow> (int \<times> taint_generator) result" where
  "ConstantTaintGenerator_nextTaintMark seed = Inr (seed, ConstantTaintGenerator seed)"

definition RandomSetTaintGenerator_nextTaintMark ::
  "int \<Rightarrow> int \<Rightarrow> int \<Rightarrow> (int \<times> taint_generator) result" where
  "RandomSetTaintGenerator_nextTaintMark rnd start num =
     and_then (int_rem rnd num) (\<lambda>r.
     and_then (int_add r start) (\<lambda>mark.
     Inr (mark, RandomSetTaintGenerator start num)))"

fun nextTaintMark :: "int \<Rightarrow> taint_generator \<Rightarrow> (int \<times> taint_generator) result" where
  "nextTaintMark rnd (TaintGenerator c m) = TaintGenerator_nextTaintMark c m"
| "nextTaintMark rnd (ConstantTaintGenerator s) = ConstantTaintGenerator_nextTaintMark s"
| "nextTaintMark rnd (RandomSetTaintGenerator s n) = RandomSetTaintGenerator_nextTaintMark rnd s n"

text \<open>The marks of consecutive calls, with the values that \<open>rand()\<close> returns.\<close>

fun draw_marks :: "int list \<Rightarrow> taint_generator \<Rightarrow> (int list \<times> taint_generator) result" where
  "draw_marks [] g = Inr ([], g)"
| "draw_marks (r # rs) g =
     and_then (nextTaintMark r g) (\<lambda>(m, g').
     and_then (draw_marks rs g') (\<lambda>(ms, g''). Inr (m # ms, g'')))"

section \<open>The contract of a generator\<close>

text \<open>
  A generator configured for \<open>n\<close> marks returns marks below \<open>n\<close>, keeps being configured for
  \<open>n\<close> marks, and can only stop on the overflow of its counter.
\<close>

locale mark_generator =
  fixes next_mark :: "int \<Rightarrow> 'g \<Rightarrow> (int \<times> 'g) result"
    and gen_ok :: "int \<Rightarrow> 'g \<Rightarrow> bool"
  assumes next_ok: "gen_ok n g \<Longrightarrow> 0 \<le> r \<Longrightarrow> next_mark r g = Inr (m, g') \<Longrightarrow>
      0 \<le> m \<and> m < n \<and> gen_ok n g'"
    and next_err: "gen_ok n g \<Longrightarrow> 0 \<le> r \<Longrightarrow> next_mark r g = Inl e \<Longrightarrow> e = Signed_Overflow"
begin

lemma next_cases:
  assumes "gen_ok n g" "0 \<le> r"
  obtains (mark) m g' where "next_mark r g = Inr (m, g')" "0 \<le> m" "m < n" "gen_ok n g'"
    | (overflow) "next_mark r g = Inl Signed_Overflow"
proof (cases "next_mark r g")
  case (Inl e)
  then show ?thesis using overflow next_err [OF assms] by simp
next
  case (Inr p)
  then show ?thesis using mark next_ok [OF assms] by (cases p) auto
qed

end

definition gen_ok :: "int \<Rightarrow> taint_generator \<Rightarrow> bool" where
  "gen_ok n g = (case g of
       TaintGenerator c m \<Rightarrow> -1 \<le> c \<and> 0 < m \<and> m \<le> n
     | ConstantTaintGenerator s \<Rightarrow> 0 \<le> s \<and> s < n
     | RandomSetTaintGenerator s k \<Rightarrow> 0 \<le> s \<and> 0 < k \<and> s + k \<le> n)"

lemma smod_nonneg: "0 \<le> (x::int) \<Longrightarrow> 0 < m \<Longrightarrow> x smod m = x mod m"
  by (cases "x = 0") (auto simp: signed_modulo_int_def)

lemma next_counter:
  assumes "-1 \<le> c" "0 < m" "c < INT_MAX"
  shows "nextTaintMark r (TaintGenerator c m) = Inr ((c + 1) mod m, TaintGenerator (c + 1) m)"
  using assms by (simp add: TaintGenerator_nextTaintMark_def int_add_def int_rem_def smod_nonneg)

interpretation taint_gen: mark_generator nextTaintMark gen_ok
proof
  fix n g r m g'
  assume *: "gen_ok n g" "0 \<le> r" "nextTaintMark r g = Inr (m, g')"
  show "0 \<le> m \<and> m < n \<and> gen_ok n g'"
  proof (cases g)
    case (TaintGenerator c k)
    then have m: "m = (c + 1) mod k" "g' = TaintGenerator (c + 1) k" "0 < k" "k \<le> n" "-1 \<le> c"
      using * by (auto simp: TaintGenerator_nextTaintMark_def int_add_def int_rem_def
          smod_nonneg gen_ok_def split: if_splits)
    have "m < k" using m(1,3) by simp
    then have "m < n" using m(4) by (rule less_le_trans)
    moreover have "0 \<le> m" using m(1,3) by simp
    ultimately show ?thesis using m by (simp only: gen_ok_def) simp
  next
    case (ConstantTaintGenerator s)
    then show ?thesis
      using * by (auto simp: ConstantTaintGenerator_nextTaintMark_def gen_ok_def)
  next
    case (RandomSetTaintGenerator s k)
    then have m: "m = r mod k + s" "g' = g" "0 \<le> s" "0 < k" "s + k \<le> n"
      using * by (auto simp: RandomSetTaintGenerator_nextTaintMark_def int_add_def int_rem_def
          smod_nonneg gen_ok_def split: if_splits)
    have "r mod k < k" "0 \<le> r mod k" using m(4) by simp_all
    then have "m < n" "0 \<le> m" using m(1,3,5) by linarith+
    then show ?thesis using m(2) * by simp
  qed
next
  fix n g r e
  assume *: "gen_ok n g" "0 \<le> r" "nextTaintMark r g = Inl e"
  then show "e = Signed_Overflow"
    by (cases g) (auto simp: TaintGenerator_nextTaintMark_def gen_ok_def
        ConstantTaintGenerator_nextTaintMark_def RandomSetTaintGenerator_nextTaintMark_def
        int_add_def int_rem_def split: if_splits)
qed

section \<open>Which mark comes next\<close>

text \<open>
  The specification of a draw in plain integers: the counting generator gives the successor of
  its counter modulo its bound and keeps the successor, the constant one its seed, the random
  one a member of its interval. Only a counter that cannot be increased gives none.
\<close>

fun mark_spec :: "int \<Rightarrow> taint_generator \<Rightarrow> (int \<times> taint_generator) option" where
  "mark_spec rnd (TaintGenerator c m) =
     (if c < INT_MAX then Some ((c + 1) mod m, TaintGenerator (c + 1) m) else None)"
| "mark_spec rnd (ConstantTaintGenerator s) = Some (s, ConstantTaintGenerator s)"
| "mark_spec rnd (RandomSetTaintGenerator s n) = Some (s + rnd mod n, RandomSetTaintGenerator s n)"

lemma nextTaintMark_spec:
  assumes "gen_ok n g" "0 \<le> rnd" "n < 2 ^ 31"
  shows "nextTaintMark rnd g = (case mark_spec rnd g of None \<Rightarrow> Inl Signed_Overflow | Some p \<Rightarrow> Inr p)"
proof (cases g)
  case (TaintGenerator c m)
  then show ?thesis
    using assms(1) next_counter [of c m rnd]
    by (auto simp: gen_ok_def TaintGenerator_nextTaintMark_def int_add_def)
next
  case (RandomSetTaintGenerator s k)
  have n: "n < 2147483648" using assms(3) by simp
  from RandomSetTaintGenerator have "0 \<le> rnd mod k" "rnd mod k < k" "0 \<le> s" "0 < k" "s + k \<le> n"
    using assms(1) by (simp_all add: gen_ok_def)
  moreover from this have "- 2147483648 \<le> s + rnd mod k" "s + rnd mod k \<le> 2147483647"
    using n by linarith+
  ultimately show ?thesis
    using RandomSetTaintGenerator assms(2)
    by (simp add: RandomSetTaintGenerator_nextTaintMark_def int_rem_def int_add_def smod_nonneg
        INT_MAX_def add.commute)
qed (simp add: ConstantTaintGenerator_nextTaintMark_def)

lemma mark_spec_legal:
  "gen_ok n g \<Longrightarrow> 0 \<le> rnd \<Longrightarrow> n < 2 ^ 31 \<Longrightarrow> mark_spec rnd g = Some (k, g') \<Longrightarrow>
    0 \<le> k \<and> k < n \<and> gen_ok n g'"
  using taint_gen.next_ok [of n g rnd k g'] nextTaintMark_spec [of n g rnd] by simp

section \<open>The marks of the counting generator\<close>

lemma draw_counter:
  assumes "-1 \<le> c" "0 < m" "c + int (length rs) \<le> INT_MAX"
  shows "draw_marks rs (TaintGenerator c m) =
    Inr (map (\<lambda>i. (c + 1 + int i) mod m) [0..<length rs], TaintGenerator (c + int (length rs)) m)"
  using assms
proof (induction rs arbitrary: c)
  case (Cons r rs)
  have "draw_marks rs (TaintGenerator (c + 1) m) =
    Inr (map (\<lambda>i. (c + 1 + 1 + int i) mod m) [0..<length rs],
      TaintGenerator (c + 1 + int (length rs)) m)"
    using Cons.prems by (intro Cons.IH) auto
  moreover have "map (\<lambda>i. (c + 1 + int i) mod m) [0..<Suc (length rs)] =
      (c + 1) mod m # map (\<lambda>i. (c + 1 + 1 + int i) mod m) [0..<length rs]"
    by (simp add: upt_conv_Cons map_Suc_upt [symmetric] add.assoc del: upt_Suc)
  ultimately show ?case
    using Cons.prems next_counter [of c m r] by (simp add: add.commute)
qed simp

text \<open>\<open>max\<close> consecutive marks are all the marks, each once.\<close>

lemma consecutive_marks_distinct:
  assumes "0 < m"
  shows "distinct (map (\<lambda>i. (a + int i) mod m) [0..<nat m])"
    and "set (map (\<lambda>i. (a + int i) mod m) [0..<nat m]) = {0..<m}"
proof -
  let ?f = "\<lambda>i. (a + int i) mod m"
  have inj: "inj_on ?f {0..<nat m}"
  proof (rule inj_onI)
    fix i j assume ij: "i \<in> {0..<nat m}" "j \<in> {0..<nat m}" "?f i = ?f j"
    then have "m dvd (a + int i) - (a + int j)" by (simp add: mod_eq_dvd_iff)
    then have "m dvd int i - int j" by simp
    moreover have "\<bar>int i - int j\<bar> < m" using ij by auto
    ultimately have "int i - int j = 0" using zdvd_imp_le [of m "\<bar>int i - int j\<bar>"] by force
    then show "i = j" by simp
  qed
  then show d: "distinct (map ?f [0..<nat m])" by (simp add: distinct_map)
  have "?f ` {0..<nat m} = {0..<m}"
  proof (rule card_subset_eq)
    show "?f ` {0..<nat m} \<subseteq> {0..<m}" using assms by auto
    show "card (?f ` {0..<nat m}) = card {0..<m}" by (simp add: card_image [OF inj])
  qed simp
  then show "set (map ?f [0..<nat m]) = {0..<m}" by simp
qed

text \<open>
  C25: the counting generator, which the tool creates when more than one mark is configured,
  hands out every mark below its bound once before it repeats one: as many consecutive marks
  as there are marks are pairwise distinct and are exactly the marks from 0 to the bound.
\<close>

theorem counter_draws_each_mark_once:
  assumes "-1 \<le> c" "0 < m" "c + m \<le> INT_MAX" "length rs = nat m"
  shows "\<exists>ms. draw_marks rs (TaintGenerator c m) = Inr (ms, TaintGenerator (c + m) m) \<and>
    distinct ms \<and> set ms = {0..<m}"
  using draw_counter [of c m rs] consecutive_marks_distinct [of m "c + 1"] assms by auto

theorem counter_draws_each_mark_once_witness:
  "\<exists>ms. draw_marks [0, 0, 0, 0] (TaintGenerator 1 4) = Inr (ms, TaintGenerator 5 4) \<and>
    distinct ms \<and> set ms = {0..<4}"
  using counter_draws_each_mark_once [of 1 4 "[0, 0, 0, 0]"] by (simp add: INT_MAX_def)

end
