(* ===== verification/Std_Map.thy ===== *)
theory Std_Map
  imports Dytan_Prelude
begin

text \<open>
  \<open>std::map\<close> as the sources use it (\<open>find\<close>, \<open>operator[]\<close>, \<open>erase\<close>, iteration in key
  order): an association list kept sorted by key. \<open>finite_map\<close> is the interface the
  tables of the tool rely on; the loops over a range of keys are proved once inside it.
\<close>

section \<open>The sorted association list\<close>

fun smap_put :: "'k::linorder \<Rightarrow> 'v \<Rightarrow> ('k \<times> 'v) list \<Rightarrow> ('k \<times> 'v) list" where
  "smap_put k v [] = [(k, v)]"
| "smap_put k v ((k', v') # m) =
     (if k < k' then (k, v) # (k', v') # m
      else if k = k' then (k, v) # m
      else (k', v') # smap_put k v m)"

definition smap_erase :: "'k \<Rightarrow> ('k \<times> 'v) list \<Rightarrow> ('k \<times> 'v) list" where
  "smap_erase k m = filter (\<lambda>p. fst p \<noteq> k) m"

definition smap_keys :: "('k \<times> 'v) list \<Rightarrow> 'k list" where
  "smap_keys m = map fst m"

definition smap_ok :: "('k::linorder \<times> 'v) list \<Rightarrow> bool" where
  "smap_ok m \<longleftrightarrow> sorted_wrt (<) (map fst m)"

lemma smap_ok_simps [simp]:
  "smap_ok []"
  "smap_ok ((k, v) # m) \<longleftrightarrow> (\<forall>x \<in> set (map fst m). k < x) \<and> smap_ok m"
  by (simp_all add: smap_ok_def)

lemma smap_ok_distinct: "smap_ok m \<Longrightarrow> distinct (map fst m)"
  by (simp add: smap_ok_def strict_sorted_iff)

lemma smap_find_put [map_simps]:
  "map_of (smap_put k v m) = (map_of m)(k \<mapsto> v)"
  by (induction k v m rule: smap_put.induct) auto

lemma smap_find_erase [map_simps]:
  "map_of (smap_erase k m) = (map_of m)(k := None)"
  by (induction m) (auto simp: smap_erase_def fun_eq_iff)

lemma smap_put_keys: "set (map fst (smap_put k v m)) = insert k (set (map fst m))"
  by (induction k v m rule: smap_put.induct) auto

lemma smap_put_ok: "smap_ok m \<Longrightarrow> smap_ok (smap_put k v m)"
proof (induction k v m rule: smap_put.induct)
  case (2 k v k' v' m)
  then have m: "smap_ok m" "\<forall>x \<in> set (map fst m). k' < x" by simp_all
  consider "k < k'" | "k = k'" | "k' < k" by fastforce
  then show ?case
  proof cases
    case 1
    with m show ?thesis by (auto intro: less_trans)
  next
    case 3
    then have n: "\<not> k < k'" "k \<noteq> k'" by auto
    with 2(1) m 3 show ?thesis
      by (simp add: smap_put_keys del: set_map)
  qed (use m in simp)
qed simp

lemma smap_erase_ok: "smap_ok m \<Longrightarrow> smap_ok (smap_erase k m)"
  by (induction m) (auto simp: smap_erase_def)

section \<open>The interface\<close>

locale finite_map =
  fixes find :: "'m \<Rightarrow> 'k \<Rightarrow> 'v option"
    and put :: "'k \<Rightarrow> 'v \<Rightarrow> 'm \<Rightarrow> 'm"
    and erase :: "'k \<Rightarrow> 'm \<Rightarrow> 'm"
  assumes find_put: "find (put k v m) = (find m)(k \<mapsto> v)"
    and find_erase: "find (erase k m) = (find m)(k := None)"
begin

lemma find_put_same: "find (put k v m) k = Some v"
  by (simp add: find_put)

lemma find_put_other: "j \<noteq> k \<Longrightarrow> find (put k v m) j = find m j"
  by (simp add: find_put)

text \<open>Assigning one value to every key of a loop, and erasing every key of a loop.\<close>

lemma find_fold_put:
  "find (fold (\<lambda>k. put k v) ks m) =
    (\<lambda>j. if j \<in> set ks then Some v else find m j)"
  by (induction ks arbitrary: m) (auto simp: find_put fun_eq_iff)

lemma find_fold_erase:
  "find (fold erase ks m) = (\<lambda>j. if j \<in> set ks then None else find m j)"
  by (induction ks arbitrary: m) (auto simp: find_erase fun_eq_iff)

text \<open>A value stored only under a property of the map's range keeps the property.\<close>

lemma ran_put:
  assumes "\<And>k v. find m k = Some v \<Longrightarrow> P v" "P v" "find (put k v m) j = Some w"
  shows "P w"
  using assms by (auto simp: find_put split: if_splits)

lemma ran_erase:
  assumes "\<And>k v. find m k = Some v \<Longrightarrow> P v" "find (erase k m) j = Some w"
  shows "P w"
  using assms by (auto simp: find_erase split: if_splits)

lemma put_put_same: "find (put k v (put k w m)) = find (put k v m)"
  by (simp add: find_put)

end

text \<open>\<open>std::map\<close> provides the interface; so does the function-valued table of registers.\<close>

interpretation smap: finite_map map_of smap_put smap_erase
  by unfold_locales (simp_all add: map_simps)

interpretation fmap: finite_map "\<lambda>m. m" "\<lambda>k v m. m(k \<mapsto> v)" "\<lambda>k m. m(k := None)"
  by unfold_locales simp_all

end
