(* ===== verification/Taint_State.thy ===== *)
theory Taint_State
  imports Bitset Taint_Gen Std_Map
begin

text \<open>
  The state of the taint engine: the globals of \<open>src/dytan.cpp\<close> (lines 55--82), its
  invariant and its abstraction to sets of marks. The registers are the constants of Pin's
  \<open>REG\<close> that the sources name; every other register is a \<open>REG_OTHER\<close>.
\<close>

section \<open>Data\<close>

datatype reg =
    REG_INVALID
  | REG_ESP | REG_EBP | REG_ESI | REG_EDI
  | REG_EAX | REG_AX | REG_AH | REG_AL
  | REG_EBX | REG_BX | REG_BH | REG_BL
  | REG_ECX | REG_CX | REG_CH | REG_CL
  | REG_EDX | REG_DX | REG_DH | REG_DL
  | REG_R15D | REG_R15W | REG_R15B
  | REG_RAX | REG_RDX
  | REG_EFLAGS | REG_RFLAGS
  | REG_OTHER nat

text \<open>The global bitsets that the inserted calls use as temporaries.\<close>

datatype slot = Dest | Src | Eax | Edx | Base | Idx | Eflags | Cnt | Rax | Rdx | Rflags

record memlist =
  memAddress :: addrint
  isCleared :: int

record dytan =
  regTaintMap :: "reg \<Rightarrow> bitset option"
  memTaintMap :: "addrint \<Rightarrow> bitset option"
  controlTaintMap :: "(addrint \<times> bitset) list"
  tagMemoryMap :: "(size_t \<times> memlist list) list"
  slots :: "slot \<Rightarrow> bitset"
  tagMemoryMap_isInitialized :: bool
  NUMBER_OF_TAINT_MARKS :: int
  taintGen :: "taint_generator option"

text \<open>\<open>(size_t) NUMBER_OF_TAINT_MARKS\<close>: the size given to every \<open>bitset_init\<close>\<close>

definition n_marks :: "dytan \<Rightarrow> size_t" where
  "n_marks st = word_of_int (NUMBER_OF_TAINT_MARKS st)"

definition fresh_set :: "dytan \<Rightarrow> bitset" where
  "fresh_set st = bitset_init (n_marks st)"

text \<open>The state after the eleven slots have been created, before any instruction runs.\<close>

definition init_state :: "int \<Rightarrow> taint_generator option \<Rightarrow> dytan" where
  "init_state n gen =
     \<lparr>regTaintMap = Map.empty, memTaintMap = Map.empty, controlTaintMap = [],
      tagMemoryMap = [], slots = (\<lambda>_. bitset_init (word_of_int n)),
      tagMemoryMap_isInitialized = False, NUMBER_OF_TAINT_MARKS = n, taintGen = gen\<rparr>"

section \<open>Invariant\<close>

text \<open>
  Every bitset of the state has the configured number of positions and the table of the
  tags' histories, once created, has one entry per mark.
\<close>

definition tags_ok :: "int \<Rightarrow> bool \<Rightarrow> (size_t \<times> memlist list) list \<Rightarrow> bool" where
  "tags_ok n initialised tags \<longleftrightarrow>
     (if initialised then map fst tags = map of_nat [0..<nat n] else tags = [])"

definition state_ok :: "dytan \<Rightarrow> bool" where
  "state_ok st \<longleftrightarrow>
     0 \<le> NUMBER_OF_TAINT_MARKS st \<and> NUMBER_OF_TAINT_MARKS st < 2 ^ 31 \<and>
     (\<forall>r s. regTaintMap st r = Some s \<longrightarrow> wf_set (n_marks st) s) \<and>
     (\<forall>a s. memTaintMap st a = Some s \<longrightarrow> wf_set (n_marks st) s) \<and>
     smap_ok (controlTaintMap st) \<and>
     (\<forall>p \<in> set (controlTaintMap st). wf_set (n_marks st) (snd p)) \<and>
     (\<forall>x. wf_set (n_marks st) (slots st x)) \<and>
     tags_ok (NUMBER_OF_TAINT_MARKS st) (tagMemoryMap_isInitialized st) (tagMemoryMap st)"

lemma n_marks_update [simp]:
  "n_marks (st\<lparr>regTaintMap := rm\<rparr>) = n_marks st"
  "n_marks (st\<lparr>memTaintMap := mm\<rparr>) = n_marks st"
  "n_marks (st\<lparr>controlTaintMap := cm\<rparr>) = n_marks st"
  "n_marks (st\<lparr>tagMemoryMap := tm\<rparr>) = n_marks st"
  "n_marks (st\<lparr>slots := sl\<rparr>) = n_marks st"
  "n_marks (st\<lparr>tagMemoryMap_isInitialized := b\<rparr>) = n_marks st"
  "n_marks (st\<lparr>taintGen := g\<rparr>) = n_marks st"
  by (simp_all add: n_marks_def)

lemma unat_n_marks:
  assumes "0 \<le> NUMBER_OF_TAINT_MARKS st" "NUMBER_OF_TAINT_MARKS st < 2 ^ 31"
  shows "unat (n_marks st) = nat (NUMBER_OF_TAINT_MARKS st)"
  using assms by (simp add: n_marks_def unsigned_of_int take_bit_int_eq_self)

lemma state_okD:
  assumes "state_ok st"
  shows "0 \<le> NUMBER_OF_TAINT_MARKS st" "NUMBER_OF_TAINT_MARKS st < 2 ^ 31"
    and "\<And>r s. regTaintMap st r = Some s \<Longrightarrow> wf_set (n_marks st) s"
    and "\<And>a s. memTaintMap st a = Some s \<Longrightarrow> wf_set (n_marks st) s"
    and "smap_ok (controlTaintMap st)"
    and "\<And>p. p \<in> set (controlTaintMap st) \<Longrightarrow> wf_set (n_marks st) (snd p)"
    and "\<And>x. wf_set (n_marks st) (slots st x)"
    and "tags_ok (NUMBER_OF_TAINT_MARKS st) (tagMemoryMap_isInitialized st) (tagMemoryMap st)"
  using assms by (auto simp: state_ok_def)

lemma state_ok_unat: "state_ok st \<Longrightarrow> unat (n_marks st) = nat (NUMBER_OF_TAINT_MARKS st)"
  using unat_n_marks state_okD(1,2) by blast

lemma fresh_set_ok:
  assumes "state_ok st"
  shows "wf_set (n_marks st) (fresh_set st) \<and> marks (fresh_set st) = {}"
proof -
  have "unat (n_marks st) < 2 ^ 31"
    using state_ok_unat [OF assms] state_okD(1,2) [OF assms] by simp
  then show ?thesis by (simp only: fresh_set_def wf_set_init simp_thms)
qed

lemma state_ok_init:
  assumes "0 \<le> n" "n < 2 ^ 31"
  shows "state_ok (init_state n g)"
proof -
  have *: "n_marks (init_state n g) = word_of_int n"
    by (simp add: n_marks_def init_state_def)
  have "unat (word_of_int n :: size_t) < 2 ^ 31"
    using unat_n_marks [of "init_state n g"] assms * by (simp add: init_state_def)
  then have "wf_set (word_of_int n) (bitset_init (word_of_int n))"
    by (simp only: wf_set_init)
  with assms * show ?thesis
    by (simp add: state_ok_def) (simp add: init_state_def tags_ok_def smap_ok_def)
qed

text \<open>The updates that the routines make keep the invariant.\<close>

lemma state_ok_reg:
  "state_ok st \<Longrightarrow> wf_set (n_marks st) s \<Longrightarrow>
    state_ok (st\<lparr>regTaintMap := (regTaintMap st)(r \<mapsto> s)\<rparr>)"
  by (simp add: state_ok_def)

lemma state_ok_mem:
  "state_ok st \<Longrightarrow> wf_set (n_marks st) s \<Longrightarrow>
    state_ok (st\<lparr>memTaintMap := (memTaintMap st)(a \<mapsto> s)\<rparr>)"
  by (simp add: state_ok_def)

lemma state_ok_slot:
  "state_ok st \<Longrightarrow> wf_set (n_marks st) s \<Longrightarrow>
    state_ok (st\<lparr>slots := (slots st)(x := s)\<rparr>)"
  by (simp add: state_ok_def)

lemma state_ok_control:
  "state_ok st \<Longrightarrow> smap_ok cm \<Longrightarrow> (\<And>p. p \<in> set cm \<Longrightarrow> wf_set (n_marks st) (snd p)) \<Longrightarrow>
    state_ok (st\<lparr>controlTaintMap := cm\<rparr>)"
  by (simp add: state_ok_def)

lemma state_ok_tags:
  "state_ok st \<Longrightarrow> tags_ok (NUMBER_OF_TAINT_MARKS st) b tm \<Longrightarrow>
    state_ok (st\<lparr>tagMemoryMap := tm, tagMemoryMap_isInitialized := b\<rparr>)"
  by (simp add: state_ok_def)

lemma state_ok_gen: "state_ok (st\<lparr>taintGen := g\<rparr>) \<longleftrightarrow> state_ok st"
  by (simp add: state_ok_def)

section \<open>Abstraction\<close>

text \<open>
  What the state means for taint: a set of marks for every tracked register and address,
  for every pending branch and for every temporary.
\<close>

record taint =
  regs :: "reg \<Rightarrow> nat set option"
  mem :: "addrint \<Rightarrow> nat set option"
  ctl :: "addrint \<Rightarrow> nat set option"
  tmps :: "slot \<Rightarrow> nat set"

definition abs_state :: "dytan \<Rightarrow> taint" where
  "abs_state st =
     \<lparr>regs = (\<lambda>r. map_option marks (regTaintMap st r)),
      mem = (\<lambda>a. map_option marks (memTaintMap st a)),
      ctl = (\<lambda>a. map_option marks (map_of (controlTaintMap st) a)),
      tmps = (\<lambda>x. marks (slots st x))\<rparr>"

definition marks_of :: "nat set option \<Rightarrow> nat set" where
  "marks_of m = (case m of None \<Rightarrow> {} | Some s \<Rightarrow> s)"

lemma marks_of_simps [simp]: "marks_of None = {}" "marks_of (Some s) = s"
  by (simp_all add: marks_of_def)

lemma abs_state_sel [simp]:
  "regs (abs_state st) r = map_option marks (regTaintMap st r)"
  "mem (abs_state st) a = map_option marks (memTaintMap st a)"
  "ctl (abs_state st) a = map_option marks (map_of (controlTaintMap st) a)"
  "tmps (abs_state st) x = marks (slots st x)"
  by (simp_all add: abs_state_def)

lemma taint_eqI:
  fixes a b :: taint
  assumes "\<And>r. regs a r = regs b r" "\<And>x. mem a x = mem b x"
    "\<And>x. ctl a x = ctl b x" "\<And>x. tmps a x = tmps b x"
  shows "a = b"
  using assms by (cases a, cases b) (auto simp: fun_eq_iff)

text \<open>The marks that every write receives while a tainted branch is pending.\<close>

definition control_marks :: "taint \<Rightarrow> nat set" where
  "control_marks a = (\<Union>x. marks_of (ctl a x))"

end
