(* ===== verification/Mem_List.thy ===== *)
theory Mem_List
  imports Taint_State
begin

text \<open>
  The history that \<open>SetTaintForMemory\<close> keeps per taint mark (\<open>src/dytan.cpp\<close>, lines
  592--650; \<open>memlist\<close> in \<open>src/include/tag_memset.h\<close>): the addresses that received the mark
  and, later, lost it. The C list ends with a sentinel node without contents; here a
  history is the list of the nodes before the sentinel, so appending a node is writing the
  sentinel and allocating a new one.
\<close>

section \<open>The two walks\<close>

definition in_range :: "addrint \<Rightarrow> size_t \<Rightarrow> addrint \<Rightarrow> bool" where
  "in_range start sz a \<longleftrightarrow> a \<ge> start \<and> a < start + sz"

text \<open>Lines 606--612: flag the offsets of the range that the history already has.\<close>

definition flag_entry :: "addrint \<Rightarrow> size_t \<Rightarrow> memlist \<Rightarrow> int list \<Rightarrow> int list result" where
  "flag_entry start sz e addrFlag =
     (let i = c_int (memAddress e - start) in
      if i \<ge> 0 \<and> i < c_int sz
      then (if nat i < length addrFlag then Inr (addrFlag[nat i := 1]) else Inl Out_Of_Bounds)
      else Inr addrFlag)"

text \<open>Lines 614--623: append the addresses whose offset is not flagged.\<close>

definition append_unflagged ::
  "int list \<Rightarrow> addrint \<Rightarrow> int \<times> memlist list \<Rightarrow> (int \<times> memlist list) result" where
  "append_unflagged addrFlag addr = (\<lambda>(i, l).
     and_then (int_add i 1) (\<lambda>i.
       if 0 \<le> i \<and> nat i < length addrFlag
       then (if addrFlag ! nat i \<noteq> 0 then Inr (i, l)
             else Inr (i, l @ [\<lparr>memAddress = addr, isCleared = 0\<rparr>]))
       else Inl Out_Of_Bounds))"

definition mark_history :: "addrint \<Rightarrow> size_t \<Rightarrow> memlist list \<Rightarrow> memlist list result" where
  "mark_history start sz l =
     and_then (fold_res (flag_entry start sz) l (replicate (unat sz) 0)) (\<lambda>addrFlag.
     and_then (fold_res (append_unflagged addrFlag) (addr_range start sz) (-1, l)) (\<lambda>(i, l').
     Inr l'))"

text \<open>Lines 634--639: the flag of the last later node with the same address.\<close>

fun last_flag :: "addrint \<Rightarrow> int \<Rightarrow> memlist list \<Rightarrow> int" where
  "last_flag a flag [] = flag"
| "last_flag a flag (e # l) = last_flag a (if memAddress e = a then isCleared e else flag) l"

text \<open>Lines 627--648: the loop appends to the list that it walks.\<close>

function clear_history :: "addrint \<Rightarrow> size_t \<Rightarrow> memlist list \<Rightarrow> memlist list" where
  "clear_history start sz [] = []"
| "clear_history start sz (e # l) =
     (if in_range start sz (memAddress e) \<and> isCleared e = 0 \<and>
         last_flag (memAddress e) (isCleared e) l = 0
      then e # clear_history start sz (l @ [\<lparr>memAddress = memAddress e, isCleared = 1\<rparr>])
      else e # clear_history start sz l)"
  by pat_completeness auto
termination
  by (relation "measure (\<lambda>(start, sz, l). length l + length (filter (\<lambda>e. isCleared e = 0) l))")
    auto

text \<open>Lines 601--650: every mark's history, by whether the written set has the mark.\<close>

definition update_history ::
  "bitset \<Rightarrow> addrint \<Rightarrow> size_t \<Rightarrow> size_t \<times> memlist list \<Rightarrow> (size_t \<times> memlist list) result" where
  "update_history tmp start sz = (\<lambda>(tag, l).
     and_then (bitset_test_bit tmp tag) (\<lambda>b.
       if b then and_then (mark_history start sz l) (\<lambda>l'. Inr (tag, l'))
       else Inr (tag, clear_history start sz l)))"

fun map_res :: "('a \<Rightarrow> 'b result) \<Rightarrow> 'a list \<Rightarrow> 'b list result" where
  "map_res f [] = Inr []"
| "map_res f (x # xs) = and_then (f x) (\<lambda>y. and_then (map_res f xs) (\<lambda>ys. Inr (y # ys)))"

text \<open>Lines 592--598: one empty history per mark, made by the first write.\<close>

definition init_tagMemoryMap :: "int \<Rightarrow> (size_t \<times> memlist list) list" where
  "init_tagMemoryMap n = map (\<lambda>i. (of_nat i, [])) [0..<unat (word_of_int n :: size_t)]"

section \<open>What a history says\<close>

text \<open>The state of an address: \<open>None\<close> when the mark never reached it, otherwise its last flag.\<close>

definition last_state :: "memlist list \<Rightarrow> addrint \<Rightarrow> int option" where
  "last_state l a = map_of (rev (map (\<lambda>e. (memAddress e, isCleared e)) l)) a"

lemma last_state_append:
  "last_state (l @ l') a = (case last_state l' a of None \<Rightarrow> last_state l a | Some c \<Rightarrow> Some c)"
  by (simp add: last_state_def map_add_def split: option.split)

lemma last_state_simps [simp]:
  "last_state [] a = None"
  "last_state [e] a = (if memAddress e = a then Some (isCleared e) else None)"
  by (auto simp: last_state_def)

lemma last_state_Cons:
  "last_state (e # l) a = (case last_state l a of
     None \<Rightarrow> (if memAddress e = a then Some (isCleared e) else None) | Some c \<Rightarrow> Some c)"
  using last_state_append [of "[e]" l a] by (simp split: option.split)

lemma last_state_None: "last_state l a = None \<longleftrightarrow> a \<notin> memAddress ` set l"
  by (induction l) (auto simp: last_state_Cons split: option.splits)

lemma last_state_Some: "last_state l a = Some c \<Longrightarrow> \<exists>e \<in> set l. memAddress e = a \<and> isCleared e = c"
proof -
  assume "last_state l a = Some c"
  then have "(a, c) \<in> set (rev (map (\<lambda>e. (memAddress e, isCleared e)) l))"
    unfolding last_state_def by (rule map_of_SomeD)
  then show ?thesis by auto
qed

lemma last_flag_state:
  "last_flag a f l = (case last_state l a of None \<Rightarrow> f | Some c \<Rightarrow> c)"
  by (induction l arbitrary: f) (auto simp: last_state_Cons split: option.splits)

section \<open>The clearing walk\<close>

lemma clear_history_appends:
  "\<exists>xs. clear_history start sz l = l @ xs \<and>
     (\<forall>x \<in> set xs. isCleared x = 1 \<and> in_range start sz (memAddress x) \<and>
        memAddress x \<in> memAddress ` set l)"
proof (induction start sz l rule: clear_history.induct)
  case (2 start sz e l)
  show ?case
  proof (cases "in_range start sz (memAddress e) \<and> isCleared e = 0 \<and>
      last_flag (memAddress e) (isCleared e) l = 0")
    case True
    from 2(1) [OF True] obtain xs where
      xs: "clear_history start sz (l @ [\<lparr>memAddress = memAddress e, isCleared = 1\<rparr>]) =
          (l @ [\<lparr>memAddress = memAddress e, isCleared = 1\<rparr>]) @ xs"
        "\<forall>x \<in> set xs. isCleared x = 1 \<and> in_range start sz (memAddress x) \<and>
          memAddress x \<in> memAddress ` set (l @ [\<lparr>memAddress = memAddress e, isCleared = 1\<rparr>])"
      by blast
    show ?thesis
      by (rule exI [of _ "\<lparr>memAddress = memAddress e, isCleared = 1\<rparr> # xs"])
        (use True xs in auto)
  next
    case False
    from 2(2) [OF False] obtain xs where
      "clear_history start sz l = l @ xs"
      "\<forall>x \<in> set xs. isCleared x = 1 \<and> in_range start sz (memAddress x) \<and>
        memAddress x \<in> memAddress ` set l" by blast
    with False show ?thesis by (intro exI [of _ xs]) auto
  qed
qed simp

lemma clear_history_prefix: "\<exists>xs. clear_history start sz l = l @ xs"
  using clear_history_appends [of start sz l] by blast

lemma clear_history_cleared:
  "in_range start sz a \<Longrightarrow> last_state (clear_history start sz l) a \<noteq> Some 0"
proof (induction start sz l rule: clear_history.induct)
  case (2 start sz e l)
  show ?case
  proof (cases "in_range start sz (memAddress e) \<and> isCleared e = 0 \<and>
      last_flag (memAddress e) (isCleared e) l = 0")
    case True
    obtain xs where "clear_history start sz (l @ [\<lparr>memAddress = memAddress e, isCleared = 1\<rparr>]) =
        (l @ [\<lparr>memAddress = memAddress e, isCleared = 1\<rparr>]) @ xs"
      using clear_history_prefix by blast
    with 2(1) [OF True 2(3)] True show ?thesis
      by (auto simp: last_state_Cons last_state_append split: option.splits)
  next
    case False
    obtain xs where xs: "clear_history start sz l = l @ xs"
      using clear_history_prefix by blast
    have "last_state l (memAddress e) \<noteq> None" if "memAddress e = a" "isCleared e = 0"
      using False 2(3) that by (auto simp: last_flag_state split: option.splits)
    with 2(2) [OF False 2(3)] False xs show ?thesis
      by (auto simp: last_state_Cons last_state_append split: option.splits)
  qed
qed simp

lemma clear_history_other:
  "\<not> in_range start sz a \<Longrightarrow> last_state (clear_history start sz l) a = last_state l a"
  "last_state l a = None \<Longrightarrow> last_state (clear_history start sz l) a = None"
proof -
  obtain xs where xs: "clear_history start sz l = l @ xs"
      "\<forall>x \<in> set xs. isCleared x = 1 \<and> in_range start sz (memAddress x) \<and>
        memAddress x \<in> memAddress ` set l"
    using clear_history_appends by blast
  show "last_state (clear_history start sz l) a = last_state l a" if "\<not> in_range start sz a"
  proof -
    have "last_state xs a = None" using xs that by (auto simp: last_state_None)
    then show ?thesis by (simp add: xs(1) last_state_append)
  qed
  show "last_state (clear_history start sz l) a = None" if "last_state l a = None"
    using xs that by (auto simp: last_state_None)
qed



section \<open>The marking walk\<close>

lemma c_int_size: "unat sz < 2 ^ 31 \<Longrightarrow> c_int sz = int (unat sz)"
  by (rule c_int_small)

lemma flag_loop:
  assumes sz: "unat sz < 2 ^ 31" and len: "length f = unat sz"
  shows "\<exists>f'. fold_res (flag_entry start sz) l f = Inr f' \<and> length f' = unat sz \<and>
    (\<forall>i < unat sz. f' ! i \<noteq> 0 \<longleftrightarrow>
       f ! i \<noteq> 0 \<or> (\<exists>e \<in> set l. c_int (memAddress e - start) = int i))"
  using len
proof (induction l arbitrary: f)
  case (Cons e l)
  let ?i = "c_int (memAddress e - start)"
  show ?case
  proof (cases "?i \<ge> 0 \<and> ?i < int (unat sz)")
    case True
    then have "nat ?i < length f" using Cons.prems by (simp add: nat_less_iff del: of_nat_unat)
    with True have step: "flag_entry start sz e f = Inr (f[nat ?i := 1])"
      by (simp add: flag_entry_def c_int_size [OF sz] Let_def del: of_nat_unat)
    from Cons.IH [of "f[nat ?i := 1]"] Cons.prems obtain f' where
      f': "fold_res (flag_entry start sz) l (f[nat ?i := 1]) = Inr f'" "length f' = unat sz"
        "\<forall>i < unat sz. f' ! i \<noteq> 0 \<longleftrightarrow>
          f[nat ?i := 1] ! i \<noteq> 0 \<or> (\<exists>e \<in> set l. c_int (memAddress e - start) = int i)"
      by auto
    have "f[nat ?i := 1] ! i \<noteq> 0 \<longleftrightarrow> f ! i \<noteq> 0 \<or> ?i = int i" if "i < unat sz" for i
    proof (cases "nat ?i = i")
      case True
      then show ?thesis
        using that Cons.prems \<open>?i \<ge> 0 \<and> ?i < int (unat sz)\<close> by auto
    next
      case False
      then show ?thesis using \<open>?i \<ge> 0 \<and> ?i < int (unat sz)\<close> by auto
    qed
    with f' step show ?thesis by (intro exI [of _ f']) auto
  next
    case False
    then have step: "flag_entry start sz e f = Inr f"
      by (auto simp: flag_entry_def c_int_size [OF sz] Let_def simp del: of_nat_unat)
    from Cons.IH [OF Cons.prems] obtain f' where
      f': "fold_res (flag_entry start sz) l f = Inr f'" "length f' = unat sz"
        "\<forall>i < unat sz. f' ! i \<noteq> 0 \<longleftrightarrow>
          f ! i \<noteq> 0 \<or> (\<exists>e \<in> set l. c_int (memAddress e - start) = int i)" by auto
    moreover have "?i \<noteq> int i" if "i < unat sz" for i
    proof -
      have "int i < int (unat sz)" using that by (simp only: of_nat_less_iff)
      then show ?thesis using False by auto
    qed
    ultimately show ?thesis using step by (intro exI [of _ f']) auto
  qed
qed simp

lemma append_loop:
  assumes sz: "unat (stop - start) < 2 ^ 31" and len: "length f = unat (stop - start)"
    and "start \<le> a"
  shows "\<exists>i. fold_res (append_unflagged f) (addr_loop a stop) (int (unat (a - start)) - 1, l) =
    Inr (i, l @ map (\<lambda>x. \<lparr>memAddress = x, isCleared = 0\<rparr>)
                (filter (\<lambda>x. f ! unat (x - start) = 0) (addr_loop a stop)))"
  using assms
proof (induction a stop arbitrary: l rule: addr_loop.induct)
  case (1 a stop)
  show ?case
  proof (cases "a < stop")
    case True
    note sz = 1(2) and len = 1(3)
    have ge: "start \<le> a" and le: "start \<le> stop" using 1(4) True by auto
    have u: "unat (a - start) < unat (stop - start)"
      using True ge le by (simp add: unat_sub word_le_nat_alt word_less_nat_alt)
    have n: "unat (a + 1 - start) = unat (a - start) + 1"
    proof -
      have "a + 1 - start = (a - start) + 1" by (simp add: algebra_simps)
      moreover have "unat ((a - start) + 1) = unat (a - start) + 1"
        using order_less_trans [OF u sz] by (simp add: unat_word_ariths)
      ultimately show ?thesis by (simp only:)
    qed
    have "start \<le> a + 1"
      using ge plus_one_le_iff [OF True, of "a + 1"] by (simp add: order_trans less_imp_le)
    note IH = 1(1) [OF True sz len this]
    let ?l = "if f ! unat (a - start) \<noteq> 0 then l
      else l @ [\<lparr>memAddress = a, isCleared = 0\<rparr>]"
    have "unat (a - start) \<le> 2147483647" using u sz by simp
    then have "int (unat (a - start)) \<le> 2147483647" by (simp del: of_nat_unat)
    then have step: "append_unflagged f a (int (unat (a - start)) - 1, l) =
        Inr (int (unat (a - start)), ?l)"
      using u len by (simp add: append_unflagged_def int_add_def INT_MAX_def del: of_nat_unat)
    show ?thesis
      using IH [of ?l] n step
      by (cases "f ! unat (a - start) = 0")
        (simp_all add: addr_loop_less [OF True] del: of_nat_unat)
  qed (auto simp: addr_loop_ge)
qed

lemma unat_in_range: "in_range start sz a \<Longrightarrow> unat (a - start) < unat sz"
  using unat_sub [of start a] unat_sub [of start "start + sz"] diff_less_mono
  by (auto simp: in_range_def word_le_nat_alt word_less_nat_alt)

lemma mark_history_ok:
  assumes sz: "unat sz < 2 ^ 31"
  shows "mark_history start sz l =
    Inr (l @ map (\<lambda>x. \<lparr>memAddress = x, isCleared = 0\<rparr>)
           (filter (\<lambda>x. \<forall>e \<in> set l. c_int (memAddress e - start) \<noteq> int (unat (x - start)))
             (addr_range start sz)))"
proof -
  obtain f where
    f: "fold_res (flag_entry start sz) l (replicate (unat sz) 0) = Inr f" "length f = unat sz"
      "\<forall>i < unat sz. f ! i \<noteq> 0 \<longleftrightarrow> (\<exists>e \<in> set l. c_int (memAddress e - start) = int i)"
    using flag_loop [OF sz, of "replicate (unat sz) 0" start l] by auto
  show ?thesis
  proof (cases "start < start + sz")
    case True
    obtain i where
      i: "fold_res (append_unflagged f) (addr_loop start (start + sz)) (-1, l) =
        Inr (i, l @ map (\<lambda>x. \<lparr>memAddress = x, isCleared = 0\<rparr>)
                (filter (\<lambda>x. f ! unat (x - start) = 0) (addr_loop start (start + sz))))"
      using append_loop [of "start + sz" start f start l] sz f(2) by auto
    have "f ! unat (x - start) = 0 \<longleftrightarrow>
        (\<forall>e \<in> set l. c_int (memAddress e - start) \<noteq> int (unat (x - start)))"
      if x: "x \<in> set (addr_loop start (start + sz))" for x
      using f(3) unat_in_range [of start sz x] x
      by (auto simp: in_range_def set_addr_loop simp del: of_nat_unat)
    then have "filter (\<lambda>x. f ! unat (x - start) = 0) (addr_loop start (start + sz)) =
        filter (\<lambda>x. \<forall>e \<in> set l. c_int (memAddress e - start) \<noteq> int (unat (x - start)))
          (addr_loop start (start + sz))"
      by (rule filter_cong [OF refl])
    with f(1) i show ?thesis
      by (simp only: mark_history_def addr_range_def and_then.simps split_conv)
  next
    case False
    with f(1) show ?thesis by (simp add: mark_history_def addr_range_def addr_loop_ge)
  qed
qed

lemma ucast_minus_low: "(ucast (b - a) :: 32 word) = ucast b - ucast a" for a b :: addrint
proof transfer
  fix a b :: int
  have "take_bit 32 (take_bit 32 (take_bit 64 b) - take_bit 32 (take_bit 64 a)) =
      take_bit 32 (take_bit 32 b - take_bit 32 a)"
    by simp
  then show "take_bit LENGTH(32) (take_bit LENGTH(64) (b - a)) =
      take_bit LENGTH(32) (take_bit LENGTH(64) b - take_bit LENGTH(64) a)"
    by (simp add: take_bit_diff [of 32 "take_bit 64 b", symmetric] take_bit_diff)
qed

lemma in_range_addr_range: "set (addr_range start sz) = {a. in_range start sz a}"
  by (auto simp: in_range_def set_addr_range)

text \<open>
  When memory shorter than two gigabytes is overwritten with a set that has a mark, the
  mark's history keeps its entries and gains entries that say "carries the mark" for written
  addresses only; afterwards every written address is in the history, itself or as an
  address with the same low 32 bits (the offsets are compared as \<open>int\<close>).
\<close>

theorem mark_history_spec:
  assumes "unat sz < 2 ^ 31"
  shows "\<exists>xs. mark_history start sz l = Inr (l @ xs) \<and>
    (\<forall>x \<in> set xs. isCleared x = 0 \<and> in_range start sz (memAddress x)) \<and>
    (\<forall>a. in_range start sz a \<longrightarrow>
       (\<exists>e \<in> set (l @ xs). (ucast (memAddress e) :: 32 word) = ucast a))"
proof (intro exI conjI)
  let ?new = "filter (\<lambda>x. \<forall>e \<in> set l. c_int (memAddress e - start) \<noteq> int (unat (x - start)))
    (addr_range start sz)"
  let ?xs = "map (\<lambda>x. \<lparr>memAddress = x, isCleared = 0\<rparr>) ?new"
  show "mark_history start sz l = Inr (l @ ?xs)"
    by (rule mark_history_ok [OF assms])
  show "\<forall>x \<in> set ?xs. isCleared x = 0 \<and> in_range start sz (memAddress x)"
    by (auto simp: in_range_addr_range)
  show "\<forall>a. in_range start sz a \<longrightarrow>
      (\<exists>e \<in> set (l @ ?xs). (ucast (memAddress e) :: 32 word) = ucast a)"
  proof (intro allI impI)
    fix a assume a: "in_range start sz a"
    show "\<exists>e \<in> set (l @ ?xs). (ucast (memAddress e) :: 32 word) = ucast a"
    proof (cases "\<exists>e \<in> set l. c_int (memAddress e - start) = int (unat (a - start))")
      case True
      then obtain e where e: "e \<in> set l" "c_int (memAddress e - start) = int (unat (a - start))"
        by blast
      have "unat (a - start) < 2 ^ 31"
        using unat_in_range [OF a] assms by (rule order_less_trans)
      then have "c_int (memAddress e - start) = c_int (a - start)"
        using e(2) by (simp only: c_int_small)
      then have "ucast (memAddress e - start) = (ucast (a - start) :: 32 word)"
        unfolding c_int_def by (rule signed_word_eqI)
      then have "(ucast (memAddress e) :: 32 word) = ucast a"
        using ucast_minus_low [of "memAddress e" start] ucast_minus_low [of a start] by simp
      with e show ?thesis by auto
    next
      case False
      with a have "a \<in> set ?new" by (auto simp: in_range_addr_range)
      then show ?thesis by force
    qed
  qed
qed

theorem mark_history_spec_witness:
  "\<exists>xs. mark_history 100 4 [\<lparr>memAddress = 102, isCleared = 1\<rparr>] =
      Inr (\<lparr>memAddress = 102, isCleared = 1\<rparr> # xs) \<and>
    (\<exists>e \<in> set (\<lparr>memAddress = 102, isCleared = 1\<rparr> # xs).
       (ucast (memAddress e) :: 32 word) = ucast (103 :: addrint))"
proof -
  obtain xs where xs: "mark_history 100 4 [\<lparr>memAddress = 102, isCleared = 1\<rparr>] =
      Inr ([\<lparr>memAddress = 102, isCleared = 1\<rparr>] @ xs)"
    "\<forall>a. in_range 100 4 a \<longrightarrow>
       (\<exists>e \<in> set ([\<lparr>memAddress = 102, isCleared = 1\<rparr>] @ xs).
          (ucast (memAddress e) :: 32 word) = ucast a)"
    using mark_history_spec [of 4 100 "[\<lparr>memAddress = 102, isCleared = 1\<rparr>]"] by auto
  have "in_range 100 4 103" by (simp add: in_range_def)
  then show ?thesis using xs by (metis append_Cons append_Nil)
qed

section \<open>All the histories\<close>

lemma update_history_ok:
  assumes "wf_set n tmp" "tag < n" "unat sz < 2 ^ 31"
  shows "\<exists>l'. update_history tmp start sz (tag, l) = Inr (tag, l')"
  using assms by (auto simp: update_history_def wf_set_def bitset_test_bit_ok mark_history_ok)

lemma map_res_ok:
  assumes "\<And>x. x \<in> set xs \<Longrightarrow> \<exists>y. f x = Inr y \<and> P x y"
  shows "\<exists>ys. map_res f xs = Inr ys \<and> list_all2 P xs ys"
  using assms
proof (induction xs)
  case (Cons x xs)
  obtain y where y: "f x = Inr y" "P x y" using Cons.prems [of x] by auto
  obtain ys where "map_res f xs = Inr ys" "list_all2 P xs ys"
    using Cons.IH Cons.prems by auto
  with y show ?case by auto
qed simp

text \<open>Writing memory updates every history and keeps one history per mark.\<close>

lemma update_histories_ok:
  assumes st: "state_ok st" and tmp: "wf_set (n_marks st) tmp" and sz: "unat sz < 2 ^ 31"
    and tags: "tags_ok (NUMBER_OF_TAINT_MARKS st) True tags"
  shows "\<exists>tags'. map_res (update_history tmp start sz) tags = Inr tags' \<and>
    tags_ok (NUMBER_OF_TAINT_MARKS st) True tags'"
proof -
  have keys: "map fst tags = map of_nat [0..<nat (NUMBER_OF_TAINT_MARKS st)]"
    using tags by (simp add: tags_ok_def)
  have lt: "fst p < n_marks st" if "p \<in> set tags" for p
  proof -
    have "fst p \<in> set (map fst tags)" using that by auto
    then obtain i where i: "fst p = of_nat i" "i < unat (n_marks st)"
      unfolding keys state_ok_unat [OF st] by auto
    have "unat (n_marks st) < 2 ^ LENGTH(64)" by (rule unsigned_less)
    with i have "unat (of_nat i :: size_t) = i"
      by (simp add: unsigned_of_nat take_bit_nat_eq_self)
    with i show ?thesis by (simp add: word_less_nat_alt)
  qed
  have "\<exists>tags'. map_res (update_history tmp start sz) tags = Inr tags' \<and>
      list_all2 (\<lambda>p q. fst p = fst q) tags tags'"
    using update_history_ok [OF tmp _ sz] lt by (intro map_res_ok) (metis fst_conv surj_pair)
  moreover have "map fst tags = map fst tags'" if "list_all2 (\<lambda>p q. fst p = fst q) tags tags'" for tags'
    using that by (simp add: list_eq_iff_nth_eq list_all2_conv_all_nth)
  ultimately show ?thesis using tags by (fastforce simp: tags_ok_def)
qed

lemma init_tagMemoryMap_ok:
  assumes "state_ok st"
  shows "tags_ok (NUMBER_OF_TAINT_MARKS st) True (init_tagMemoryMap (NUMBER_OF_TAINT_MARKS st))"
  using state_ok_unat [OF assms]
  by (simp add: tags_ok_def init_tagMemoryMap_def n_marks_def)

end
