(* ===== verification/Taint_Engine.thy ===== *)
theory Taint_Engine
  imports Mem_List
begin

text \<open>
  The run-time routines of \<open>src/dytan.cpp\<close> (lines 167--687, 691--801, 923--962) that the
  instrumentation inserts before an instruction, each followed by the proof that on a
  well-formed state it succeeds, keeps the state well-formed and implements its operation
  on sets of marks. The log output under \<open>tracing\<close> is not modelled; it changes no state.
\<close>

section \<open>Routines\<close>

definition ClearTaintSet :: "bitset \<Rightarrow> bitset result" where
  "ClearTaintSet s = bitset_reset s"

definition TaintForRegister :: "reg \<Rightarrow> bitset \<Rightarrow> dytan \<Rightarrow> bitset result" where
  "TaintForRegister r s st =
     (case regTaintMap st r of
        Some marks_r \<Rightarrow> bitset_set_bits s marks_r
      | None \<Rightarrow> bitset_reset s)"

definition TaintForMemory ::
  "addrint \<Rightarrow> size_t \<Rightarrow> reg \<Rightarrow> reg \<Rightarrow> bitset \<Rightarrow> dytan \<Rightarrow> bitset result" where
  "TaintForMemory start sz baseReg indexReg s st =
     and_then (bitset_reset s)
       (fold_res (\<lambda>addr s. case memTaintMap st addr of
            Some marks_a \<Rightarrow> bitset_union s marks_a
          | None \<Rightarrow> Inr s)
        (addr_range start sz))"

text \<open>The union of the variable arguments, and of the marks of all pending branches.\<close>

definition union_args :: "bitset list \<Rightarrow> dytan \<Rightarrow> bitset result" where
  "union_args args st = fold_res (\<lambda>src tmp. bitset_union tmp src) args (fresh_set st)"

definition control_taint :: "dytan \<Rightarrow> bitset result" where
  "control_taint st =
     fold_res (\<lambda>p controlTaint. bitset_union controlTaint (snd p))
       (controlTaintMap st) (fresh_set st)"

text \<open>\<open>if (found) bitset_set_bits(map[r], tmp); else map[r] = bitset_copy(tmp);\<close>\<close>

definition assign_reg :: "bitset \<Rightarrow> reg \<Rightarrow> dytan \<Rightarrow> dytan result" where
  "assign_reg tmp r st =
     and_then (case regTaintMap st r of
         Some s \<Rightarrow> bitset_set_bits s tmp
       | None \<Rightarrow> bitset_copy tmp)
       (\<lambda>s'. Inr (st\<lparr>regTaintMap := (regTaintMap st)(r \<mapsto> s')\<rparr>))"

definition SetTaintForRegister :: "reg \<Rightarrow> bitset list \<Rightarrow> dytan \<Rightarrow> dytan result" where
  "SetTaintForRegister dest args st =
     (if REG_ESP = dest \<or> REG_EBP = dest then Inr st
      else and_then (union_args args st) (\<lambda>tmp.
        and_then (control_taint st) (\<lambda>controlTaint.
        and_then (bitset_union tmp controlTaint) (\<lambda>tmp.
        and_then (if REG_R15D = dest
                  then fold_res (assign_reg tmp) [REG_R15W, REG_R15B] st else Inr st) (\<lambda>st.
        and_then (if REG_EAX = dest
                  then fold_res (assign_reg tmp) [REG_AX, REG_AH, REG_AL] st
                  else if REG_EBX = dest
                  then fold_res (assign_reg tmp) [REG_BX, REG_BH, REG_BL] st
                  else if REG_ECX = dest
                  then fold_res (assign_reg tmp) [REG_CX, REG_CH, REG_CL] st
                  else if REG_EDX = dest
                  then fold_res (assign_reg tmp) [REG_DX, REG_DH, REG_DL] st
                  else Inr st) (\<lambda>st.
        assign_reg tmp dest st))))))"

definition ClearTaintForRegister :: "reg \<Rightarrow> dytan \<Rightarrow> dytan result" where
  "ClearTaintForRegister r st =
     and_then (control_taint st) (\<lambda>controlTaint.
       case regTaintMap st r of
         Some s \<Rightarrow> and_then (bitset_set_bits s controlTaint) (\<lambda>s'.
                     Inr (st\<lparr>regTaintMap := (regTaintMap st)(r \<mapsto> s')\<rparr>))
       | None \<Rightarrow> Inr st)"

definition clear_byte :: "bitset \<Rightarrow> addrint \<Rightarrow> dytan \<Rightarrow> dytan result" where
  "clear_byte controlTaint addr st =
     (case memTaintMap st addr of
        Some s \<Rightarrow> and_then (bitset_set_bits s controlTaint) (\<lambda>s'.
                    Inr (st\<lparr>memTaintMap := (memTaintMap st)(addr \<mapsto> s')\<rparr>))
      | None \<Rightarrow> Inr st)"

definition ClearTaintForMemory :: "addrint \<Rightarrow> size_t \<Rightarrow> dytan \<Rightarrow> dytan result" where
  "ClearTaintForMemory start sz st =
     and_then (control_taint st) (\<lambda>controlTaint.
       fold_res (clear_byte controlTaint) (addr_range start sz) st)"

definition init_tags :: "dytan \<Rightarrow> dytan" where
  "init_tags st =
     (if \<not> tagMemoryMap_isInitialized st
      then st\<lparr>tagMemoryMap := init_tagMemoryMap (NUMBER_OF_TAINT_MARKS st),
              tagMemoryMap_isInitialized := True\<rparr>
      else st)"

definition assign_byte :: "bitset \<Rightarrow> addrint \<Rightarrow> dytan \<Rightarrow> dytan result" where
  "assign_byte tmp addr st =
     and_then (case memTaintMap st addr of
         Some s \<Rightarrow> bitset_set_bits s tmp
       | None \<Rightarrow> bitset_copy tmp)
       (\<lambda>s'. Inr (st\<lparr>memTaintMap := (memTaintMap st)(addr \<mapsto> s')\<rparr>))"

definition SetTaintForMemory :: "addrint \<Rightarrow> size_t \<Rightarrow> bitset list \<Rightarrow> dytan \<Rightarrow> dytan result" where
  "SetTaintForMemory start sz args st =
     and_then (union_args args st) (\<lambda>tmp.
     and_then (control_taint st) (\<lambda>controlTaint.
     and_then (bitset_union tmp controlTaint) (\<lambda>tmp.
       let st = init_tags st in
       and_then (map_res (update_history tmp start sz) (tagMemoryMap st)) (\<lambda>tags.
       fold_res (assign_byte tmp) (addr_range start sz) (st\<lparr>tagMemoryMap := tags\<rparr>)))))"

definition PushControl :: "addrint \<Rightarrow> dytan \<Rightarrow> dytan result" where
  "PushControl addr st =
     (case regTaintMap st REG_RFLAGS of
        None \<Rightarrow> Inr st
      | Some rf \<Rightarrow>
          and_then (bitset_is_empty rf) (\<lambda>b.
            if b then Inr st
            else let cm = (case map_of (controlTaintMap st) addr of
                             None \<Rightarrow> smap_put addr (fresh_set st) (controlTaintMap st)
                           | Some _ \<Rightarrow> controlTaintMap st) in
              (case map_of cm addr of
                 None \<Rightarrow> Inl Null_Dereference
               | Some s \<Rightarrow> and_then (bitset_union s rf) (\<lambda>s'.
                   Inr (st\<lparr>controlTaintMap := smap_put addr s' cm\<rparr>)))))"

fun PopControl :: "addrint list \<Rightarrow> dytan \<Rightarrow> dytan" where
  "PopControl [] st = st"
| "PopControl (addr # addrs) st =
     (case map_of (controlTaintMap st) addr of
        None \<Rightarrow> st
      | Some s \<Rightarrow> PopControl addrs (st\<lparr>controlTaintMap := smap_erase addr (controlTaintMap st)\<rparr>))"

text \<open>
  The argument \<open>rnd\<close> is the value that \<open>rand()\<close> returns, should the generator call it.
  A negative mark other than -1 converts to a huge \<open>size_t\<close> position.
\<close>

definition new_mark :: "int \<Rightarrow> int \<Rightarrow> dytan \<Rightarrow> (int \<times> dytan) result" where
  "new_mark rnd taint_mark st =
     (if taint_mark = -1
      then (case taintGen st of
              None \<Rightarrow> Inl Assertion_Failed
            | Some g \<Rightarrow> and_then (nextTaintMark rnd g) (\<lambda>(m, g').
                Inr (m, st\<lparr>taintGen := Some g'\<rparr>)))
      else if taint_mark \<ge> NUMBER_OF_TAINT_MARKS st then Inl Abort_Called
      else Inr (taint_mark, st))"

definition SetNewTaintForMemory :: "int \<Rightarrow> addrint \<Rightarrow> size_t \<Rightarrow> int \<Rightarrow> dytan \<Rightarrow> dytan result" where
  "SetNewTaintForMemory rnd addr sz taint_mark st =
     and_then (new_mark rnd taint_mark st) (\<lambda>(taint_mark, st).
     and_then (bitset_set_bit (fresh_set st) (word_of_int taint_mark)) (\<lambda>tmp.
       fold_res (\<lambda>address st. and_then (bitset_copy tmp) (\<lambda>s.
            Inr (st\<lparr>memTaintMap := (memTaintMap st)(address \<mapsto> s)\<rparr>)))
         (addr_range addr sz) st))"

section \<open>Operations on sets of marks\<close>

text \<open>The registers whose marks a write of a 32-bit register also sets.\<close>

fun sub_registers :: "reg \<Rightarrow> reg set" where
  "sub_registers REG_R15D = {REG_R15W, REG_R15B}"
| "sub_registers REG_EAX = {REG_AX, REG_AH, REG_AL}"
| "sub_registers REG_EBX = {REG_BX, REG_BH, REG_BL}"
| "sub_registers REG_ECX = {REG_CX, REG_CH, REG_CL}"
| "sub_registers REG_EDX = {REG_DX, REG_DH, REG_DL}"
| "sub_registers r = {}"

definition mem_marks :: "taint \<Rightarrow> addrint \<Rightarrow> size_t \<Rightarrow> nat set" where
  "mem_marks a start sz = (\<Union>x \<in> {x. in_range start sz x}. marks_of (mem a x))"

definition write_reg :: "reg \<Rightarrow> nat set \<Rightarrow> taint \<Rightarrow> taint" where
  "write_reg r M a =
     (if r = REG_ESP \<or> r = REG_EBP then a
      else a\<lparr>regs := (\<lambda>x. if x = r \<or> x \<in> sub_registers r then Some (M \<union> control_marks a)
                          else regs a x)\<rparr>)"

definition clear_reg :: "reg \<Rightarrow> taint \<Rightarrow> taint" where
  "clear_reg r a =
     a\<lparr>regs := (\<lambda>x. if x = r \<and> regs a r \<noteq> None then Some (control_marks a) else regs a x)\<rparr>"

definition write_mem :: "addrint \<Rightarrow> size_t \<Rightarrow> nat set \<Rightarrow> taint \<Rightarrow> taint" where
  "write_mem start sz M a =
     a\<lparr>mem := (\<lambda>x. if in_range start sz x then Some (M \<union> control_marks a) else mem a x)\<rparr>"

definition clear_mem :: "addrint \<Rightarrow> size_t \<Rightarrow> taint \<Rightarrow> taint" where
  "clear_mem start sz a =
     a\<lparr>mem := (\<lambda>x. if in_range start sz x \<and> mem a x \<noteq> None then Some (control_marks a)
                   else mem a x)\<rparr>"

definition push_control :: "addrint \<Rightarrow> taint \<Rightarrow> taint" where
  "push_control addr a =
     (if marks_of (regs a REG_RFLAGS) = {} then a
      else a\<lparr>ctl := (ctl a)(addr \<mapsto> marks_of (ctl a addr) \<union> marks_of (regs a REG_RFLAGS))\<rparr>)"

fun pop_control :: "addrint list \<Rightarrow> taint \<Rightarrow> taint" where
  "pop_control [] a = a"
| "pop_control (addr # addrs) a =
     (if ctl a addr = None then a else pop_control addrs (a\<lparr>ctl := (ctl a)(addr := None)\<rparr>))"

definition taint_range :: "addrint \<Rightarrow> size_t \<Rightarrow> nat \<Rightarrow> taint \<Rightarrow> taint" where
  "taint_range start sz m a =
     a\<lparr>mem := (\<lambda>x. if in_range start sz x then Some {m} else mem a x)\<rparr>"

section \<open>Unions\<close>

lemma fold_union_ok:
  assumes "wf_set n t" "\<And>x. x \<in> set xs \<Longrightarrow> wf_set n (g x)"
  shows "\<exists>r. fold_res (\<lambda>x t. bitset_union t (g x)) xs t = Inr r \<and> wf_set n r \<and>
    marks r = marks t \<union> (\<Union>x \<in> set xs. marks (g x))"
  using assms
proof (induction xs arbitrary: t)
  case (Cons x xs)
  obtain t1 where t1: "bitset_union t (g x) = Inr t1" "wf_set n t1"
      "marks t1 = marks t \<union> marks (g x)"
    using wf_set_union [OF Cons.prems(1), of "g x"] Cons.prems(2) by auto
  with Cons.IH [of t1] Cons.prems(2) show ?case by auto
qed auto

lemma union_args_ok:
  assumes "state_ok st" "\<And>s. s \<in> set args \<Longrightarrow> wf_set (n_marks st) s"
  shows "\<exists>r. union_args args st = Inr r \<and> wf_set (n_marks st) r \<and>
    marks r = (\<Union>s \<in> set args. marks s)"
  using fold_union_ok [of "n_marks st" "fresh_set st" args "\<lambda>x. x"] fresh_set_ok [OF assms(1)]
    assms(2) by (auto simp: union_args_def)

lemma control_marks_abs:
  assumes "smap_ok (controlTaintMap st)"
  shows "control_marks (abs_state st) = (\<Union>p \<in> set (controlTaintMap st). marks (snd p))"
proof -
  note d = smap_ok_distinct [OF assms]
  have "marks_of (map_option marks (map_of (controlTaintMap st) x)) =
      (\<Union>p \<in> {p \<in> set (controlTaintMap st). fst p = x}. marks (snd p))" for x
  proof (cases "map_of (controlTaintMap st) x")
    case None
    then have "{p \<in> set (controlTaintMap st). fst p = x} = {}" by (force simp: map_of_eq_None_iff)
    then show ?thesis using None by (simp only: option.map marks_of_simps) simp
  next
    case (Some s)
    then have "{p \<in> set (controlTaintMap st). fst p = x} = {(x, s)}"
      using map_of_eq_Some_iff [OF d, of x s] map_of_eq_Some_iff [OF d, of x] by fastforce
    with Some show ?thesis by simp
  qed
  then show ?thesis by (auto simp: control_marks_def)
qed

lemma control_taint_ok:
  assumes "state_ok st"
  shows "\<exists>c. control_taint st = Inr c \<and> wf_set (n_marks st) c \<and>
    marks c = control_marks (abs_state st)"
  using fold_union_ok [of "n_marks st" "fresh_set st" "controlTaintMap st" snd]
    fresh_set_ok [OF assms] state_okD(6) [OF assms] control_marks_abs [OF state_okD(5) [OF assms]]
  by (auto simp: control_taint_def)

text \<open>The set that a write stores: the union of the arguments and of the pending branches.\<close>

lemma written_set_ok:
  assumes "state_ok st" "\<And>s. s \<in> set args \<Longrightarrow> wf_set (n_marks st) s"
  shows "\<exists>t c tmp. union_args args st = Inr t \<and> control_taint st = Inr c \<and>
    bitset_union t c = Inr tmp \<and> wf_set (n_marks st) tmp \<and>
    marks tmp = (\<Union>s \<in> set args. marks s) \<union> control_marks (abs_state st)"
proof -
  obtain t where t: "union_args args st = Inr t" "wf_set (n_marks st) t"
      "marks t = (\<Union>s \<in> set args. marks s)"
    using union_args_ok [OF assms(1), of args] assms(2) by blast
  obtain c where c: "control_taint st = Inr c" "wf_set (n_marks st) c"
      "marks c = control_marks (abs_state st)"
    using control_taint_ok [OF assms(1)] by auto
  show ?thesis using wf_set_union [OF t(2) c(2)] t c by auto
qed

lemma fresh_mark_ok:
  assumes "state_ok st" "0 \<le> k" "k < NUMBER_OF_TAINT_MARKS st"
  shows "\<exists>s. bitset_set_bit (fresh_set st) (word_of_int k) = Inr s \<and> wf_set (n_marks st) s \<and>
    marks s = {nat k}"
proof -
  have u: "unat (word_of_int k :: size_t) = nat k"
    using unat_n_marks [of "st\<lparr>NUMBER_OF_TAINT_MARKS := k\<rparr>"] state_okD(2) [OF assms(1)] assms(2,3)
    by (simp add: n_marks_def)
  have f: "bitset_ok (fresh_set st)" "nbits (fresh_set st) = n_marks st"
      "marks (fresh_set st) = {}"
    using fresh_set_ok [OF assms(1)] by (auto simp: wf_set_def)
  have "word_of_int k < nbits (fresh_set st)"
    using assms(2,3) state_ok_unat [OF assms(1)] by (simp add: f(2) word_less_nat_alt u)
  from bitset_set_bit_ok [OF f(1) this] f u show ?thesis by (auto simp: wf_set_def)
qed

section \<open>Loads\<close>

lemma ClearTaintSet_ok:
  "wf_set n s \<Longrightarrow> \<exists>r. ClearTaintSet s = Inr r \<and> wf_set n r \<and> marks r = {}"
  using wf_set_reset wf_set_init wf_set_bound by (auto simp: ClearTaintSet_def)

lemma TaintForRegister_ok:
  assumes "state_ok st" "wf_set (n_marks st) s"
  shows "\<exists>r. TaintForRegister x s st = Inr r \<and> wf_set (n_marks st) r \<and>
    marks r = marks_of (regs (abs_state st) x)"
  using assms ClearTaintSet_ok [OF assms(2)] state_okD(3) [OF assms(1), of x]
  by (auto simp: TaintForRegister_def ClearTaintSet_def bitset_simps split: option.split)

lemma TaintForMemory_ok:
  assumes "state_ok st" "wf_set (n_marks st) s"
  shows "\<exists>r. TaintForMemory start sz b i s st = Inr r \<and> wf_set (n_marks st) r \<and>
    marks r = mem_marks (abs_state st) start sz"
proof -
  let ?body = "\<lambda>addr s. case memTaintMap st addr of
      Some marks_a \<Rightarrow> bitset_union s marks_a | None \<Rightarrow> Inr s"
  have loop: "\<exists>r. fold_res ?body xs s = Inr r \<and> wf_set (n_marks st) r \<and>
      marks r = marks s \<union> (\<Union>x \<in> set xs. marks_of (mem (abs_state st) x))"
    if "wf_set (n_marks st) s" for xs s
    using that
  proof (induction xs arbitrary: s)
    case (Cons x xs)
    have "\<exists>s'. ?body x s = Inr s' \<and> wf_set (n_marks st) s' \<and>
        marks s' = marks s \<union> marks_of (mem (abs_state st) x)"
      using wf_set_union [OF Cons.prems] state_okD(4) [OF assms(1), of x] Cons.prems
      by (auto split: option.split)
    then obtain s' where "?body x s = Inr s'" "wf_set (n_marks st) s'"
        "marks s' = marks s \<union> marks_of (mem (abs_state st) x)" by blast
    with Cons.IH [of s'] show ?case by auto
  qed auto
  obtain s0 where s0: "bitset_reset s = Inr s0" "wf_set (n_marks st) s0" "marks s0 = {}"
    using ClearTaintSet_ok [OF assms(2)] by (auto simp: ClearTaintSet_def)
  from loop [OF s0(2), of "addr_range start sz"] s0(1,3) show ?thesis
    by (simp add: TaintForMemory_def mem_marks_def in_range_addr_range)
qed

section \<open>Writes of registers\<close>

lemma assign_reg_ok:
  assumes "state_ok st" "wf_set (n_marks st) tmp"
  shows "assign_reg tmp r st = Inr (st\<lparr>regTaintMap := (regTaintMap st)(r \<mapsto> tmp)\<rparr>)"
  using assms state_okD(3) [OF assms(1), of r]
  by (auto simp: assign_reg_def bitset_simps split: option.split)

lemma assign_regs_ok:
  assumes "state_ok st" "wf_set (n_marks st) tmp"
  shows "fold_res (assign_reg tmp) rs st =
    Inr (st\<lparr>regTaintMap := (\<lambda>x. if x \<in> set rs then Some tmp else regTaintMap st x)\<rparr>) \<and>
    state_ok (st\<lparr>regTaintMap := (\<lambda>x. if x \<in> set rs then Some tmp else regTaintMap st x)\<rparr>)"
  using assms
proof (induction rs arbitrary: st)
  case (Cons r rs)
  let ?st = "st\<lparr>regTaintMap := (regTaintMap st)(r \<mapsto> tmp)\<rparr>"
  have "(\<lambda>x. if x \<in> set rs then Some tmp else regTaintMap ?st x) =
      (\<lambda>x. if x \<in> set (r # rs) then Some tmp else regTaintMap st x)"
    by (auto simp: fun_eq_iff)
  with Cons.IH [of ?st] state_ok_reg [OF Cons.prems] Cons.prems show ?case
    by (simp add: assign_reg_ok)
qed simp

lemma SetTaintForRegister_ok:
  assumes "state_ok st" "\<And>s. s \<in> set args \<Longrightarrow> wf_set (n_marks st) s"
    and "r \<noteq> REG_ESP" "r \<noteq> REG_EBP"
  shows "\<exists>tmp. SetTaintForRegister r args st = Inr (st\<lparr>regTaintMap :=
      (\<lambda>x. if x = r \<or> x \<in> sub_registers r then Some tmp else regTaintMap st x)\<rparr>) \<and>
    wf_set (n_marks st) tmp \<and>
    marks tmp = (\<Union>s \<in> set args. marks s) \<union> control_marks (abs_state st)"
proof -
  obtain t c tmp where w: "union_args args st = Inr t" "control_taint st = Inr c"
      "bitset_union t c = Inr tmp" "wf_set (n_marks st) tmp"
      "marks tmp = (\<Union>s \<in> set args. marks s) \<union> control_marks (abs_state st)"
    using written_set_ok [OF assms(1), of args] assms(2) by blast
  define subs where "subs = (if r = REG_R15D then [REG_R15W, REG_R15B]
    else if r = REG_EAX then [REG_AX, REG_AH, REG_AL]
    else if r = REG_EBX then [REG_BX, REG_BH, REG_BL]
    else if r = REG_ECX then [REG_CX, REG_CH, REG_CL]
    else if r = REG_EDX then [REG_DX, REG_DH, REG_DL] else [])"
  have "SetTaintForRegister r args st =
      and_then (fold_res (assign_reg tmp) subs st) (assign_reg tmp r)"
    using w assms(3,4) by (simp add: SetTaintForRegister_def subs_def)
  also have "\<dots> = fold_res (assign_reg tmp) (subs @ [r]) st"
    by (simp add: fold_res_append fold_res_single)
  finally have "SetTaintForRegister r args st = fold_res (assign_reg tmp) (subs @ [r]) st" .
  moreover have "x \<in> set (subs @ [r]) \<longleftrightarrow> x = r \<or> x \<in> sub_registers r" for x
    by (cases r) (auto simp: subs_def)
  ultimately show ?thesis
    using assign_regs_ok [OF assms(1) w(4), of "subs @ [r]"] w(4,5)
    by (intro exI [of _ tmp]) (simp only: simp_thms)
qed

text \<open>The abstraction of an updated table.\<close>

lemma abs_update_regs:
  "abs_state (st\<lparr>regTaintMap := f\<rparr>) = (abs_state st)\<lparr>regs := \<lambda>x. map_option marks (f x)\<rparr>"
  by (simp add: abs_state_def)

lemma abs_update_mem:
  "abs_state (st\<lparr>memTaintMap := f\<rparr>) = (abs_state st)\<lparr>mem := \<lambda>x. map_option marks (f x)\<rparr>"
  by (simp add: abs_state_def)

lemma abs_update_ctl:
  "abs_state (st\<lparr>controlTaintMap := m\<rparr>) =
    (abs_state st)\<lparr>ctl := \<lambda>x. map_option marks (map_of m x)\<rparr>"
  by (simp add: abs_state_def)

lemma abs_update_slot:
  "abs_state (st\<lparr>slots := (slots st)(x := s)\<rparr>) =
    (abs_state st)\<lparr>tmps := (tmps (abs_state st))(x := marks s)\<rparr>"
  by (simp add: abs_state_def fun_eq_iff)

lemma abs_update_other [simp]:
  "abs_state (st\<lparr>tagMemoryMap := tm\<rparr>) = abs_state st"
  "abs_state (st\<lparr>tagMemoryMap_isInitialized := b\<rparr>) = abs_state st"
  "abs_state (st\<lparr>taintGen := g\<rparr>) = abs_state st"
  by (simp_all add: abs_state_def)

lemma SetTaintForRegister_run:
  assumes "state_ok st" "\<And>s. s \<in> set args \<Longrightarrow> wf_set (n_marks st) s"
  shows "\<exists>st'. SetTaintForRegister r args st = Inr st' \<and> state_ok st' \<and> n_marks st' = n_marks st \<and>
    abs_state st' = write_reg r (\<Union>s \<in> set args. marks s) (abs_state st)"
proof (cases "r = REG_ESP \<or> r = REG_EBP")
  case True
  then show ?thesis using assms(1) by (auto simp: SetTaintForRegister_def write_reg_def)
next
  case False
  then obtain tmp where t: "SetTaintForRegister r args st = Inr (st\<lparr>regTaintMap :=
      (\<lambda>x. if x = r \<or> x \<in> sub_registers r then Some tmp else regTaintMap st x)\<rparr>)"
    "wf_set (n_marks st) tmp"
    "marks tmp = (\<Union>s \<in> set args. marks s) \<union> control_marks (abs_state st)"
    using SetTaintForRegister_ok [OF assms(1), of args r] assms(2) by auto
  have "state_ok (st\<lparr>regTaintMap :=
      (\<lambda>x. if x = r \<or> x \<in> sub_registers r then Some tmp else regTaintMap st x)\<rparr>)"
    using assms(1) t(2) by (simp add: state_ok_def)
  with t False show ?thesis
    by (auto simp: abs_update_regs write_reg_def fun_eq_iff intro!: taint_eqI)
qed

text \<open>
  C9: writing a register on a well-formed state succeeds, keeps the state well-formed and
  gives the register and the parts of it that the tool knows the union of the arguments'
  marks and of the marks of the pending branches; the stack and frame pointers keep theirs.
\<close>

theorem SetTaintForRegister_refines:
  assumes "state_ok st" "\<And>s. s \<in> set args \<Longrightarrow> wf_set (n_marks st) s"
  shows "\<exists>st'. SetTaintForRegister r args st = Inr st' \<and> state_ok st' \<and> n_marks st' = n_marks st \<and>
    abs_state st' = write_reg r (\<Union>s \<in> set args. marks s) (abs_state st)"
  using assms by (rule SetTaintForRegister_run)

theorem SetTaintForRegister_refines_witness:
  "\<exists>s st'. marks s = {3} \<and> SetTaintForRegister REG_EAX [s] (init_state 16 None) = Inr st' \<and>
    state_ok st' \<and> regs (abs_state st') REG_AL = Some {3}"
proof -
  have ok: "state_ok (init_state 16 None)" by (simp add: state_ok_init)
  obtain s where s: "wf_set (n_marks (init_state 16 None)) s" "marks s = {3}"
    using fresh_mark_ok [OF ok, of 3] by (auto simp: init_state_def)
  have "control_marks (abs_state (init_state 16 None)) = {}"
    by (simp add: control_marks_def init_state_def abs_state_def)
  then show ?thesis
    using SetTaintForRegister_refines [OF ok, of "[s]" REG_EAX] s
    by (auto simp: write_reg_def simp del: abs_state_sel intro!: exI [of _ s])
qed

lemma ClearTaintForRegister_ok:
  assumes "state_ok st"
  shows "\<exists>st'. ClearTaintForRegister r st = Inr st' \<and> state_ok st' \<and> n_marks st' = n_marks st \<and>
    abs_state st' = clear_reg r (abs_state st)"
proof -
  obtain c where c: "control_taint st = Inr c" "wf_set (n_marks st) c"
      "marks c = control_marks (abs_state st)"
    using control_taint_ok [OF assms] by blast
  show ?thesis
  proof (cases "regTaintMap st r")
    case None
    with c assms show ?thesis
      by (auto simp: ClearTaintForRegister_def clear_reg_def intro!: taint_eqI)
  next
    case (Some s)
    have "bitset_set_bits s c = Inr c"
      using state_okD(3) [OF assms Some] c(2) by (rule wf_set_assign)
    with c assms Some state_ok_reg [OF assms c(2), of r] show ?thesis
      by (auto simp: ClearTaintForRegister_def clear_reg_def abs_update_regs fun_eq_iff
          intro!: taint_eqI)
  qed
qed

section \<open>Writes of memory\<close>

lemma assign_byte_ok:
  assumes "state_ok st" "wf_set (n_marks st) tmp"
  shows "assign_byte tmp a st = Inr (st\<lparr>memTaintMap := (memTaintMap st)(a \<mapsto> tmp)\<rparr>)"
  using assms state_okD(4) [OF assms(1), of a]
  by (auto simp: assign_byte_def bitset_simps split: option.split)

lemma assign_loop:
  assumes "state_ok st" "wf_set (n_marks st) tmp"
    and f: "\<And>a st'. state_ok st' \<Longrightarrow> n_marks st' = n_marks st \<Longrightarrow>
      f a st' = Inr (st'\<lparr>memTaintMap := (memTaintMap st')(a \<mapsto> tmp)\<rparr>)"
  shows "\<exists>st'. fold_res f xs st = Inr st' \<and> state_ok st' \<and> n_marks st' = n_marks st \<and>
    st' = st\<lparr>memTaintMap := (\<lambda>x. if x \<in> set xs then Some tmp else memTaintMap st x)\<rparr>"
  using assms
proof (induction xs arbitrary: st)
  case (Cons a xs)
  let ?st = "st\<lparr>memTaintMap := (memTaintMap st)(a \<mapsto> tmp)\<rparr>"
  have eq: "(\<lambda>x. if x \<in> set xs then Some tmp else memTaintMap ?st x) =
      (\<lambda>x. if x \<in> set (a # xs) then Some tmp else memTaintMap st x)"
    by (auto simp: fun_eq_iff)
  have "f a st = Inr ?st" using Cons.prems by blast
  then have "fold_res f (a # xs) st = fold_res f xs ?st" by (simp only: fold_res.simps and_then.simps)
  moreover have "?st\<lparr>memTaintMap := m\<rparr> = st\<lparr>memTaintMap := m\<rparr>" for m by simp
  moreover note Cons.IH [of ?st, unfolded eq n_marks_update,
      OF state_ok_mem [OF Cons.prems(1,2)] Cons.prems(2,3)]
  ultimately show ?case by (simp only: n_marks_update)
qed simp

lemma abs_write_mem:
  assumes "marks tmp = M \<union> control_marks (abs_state st)"
  shows "abs_state (st\<lparr>memTaintMap :=
      (\<lambda>x. if x \<in> set (addr_range start sz) then Some tmp else memTaintMap st x)\<rparr>) =
    write_mem start sz M (abs_state st)"
  using assms by (auto simp: abs_update_mem write_mem_def in_range_addr_range intro!: taint_eqI)

lemma SetTaintForMemory_run:
  assumes "state_ok st" "\<And>s. s \<in> set args \<Longrightarrow> wf_set (n_marks st) s" "unat sz < 2 ^ 31"
  shows "\<exists>st'. SetTaintForMemory start sz args st = Inr st' \<and> state_ok st' \<and>
    n_marks st' = n_marks st \<and>
    abs_state st' = write_mem start sz (\<Union>s \<in> set args. marks s) (abs_state st)"
proof -
  obtain t c tmp where w: "union_args args st = Inr t" "control_taint st = Inr c"
      "bitset_union t c = Inr tmp" "wf_set (n_marks st) tmp"
      "marks tmp = (\<Union>s \<in> set args. marks s) \<union> control_marks (abs_state st)"
    using written_set_ok [OF assms(1), of args] assms(2) by blast
  let ?st1 = "init_tags st"
  have st1: "state_ok ?st1" "n_marks ?st1 = n_marks st" "abs_state ?st1 = abs_state st"
      "NUMBER_OF_TAINT_MARKS ?st1 = NUMBER_OF_TAINT_MARKS st" "tagMemoryMap_isInitialized ?st1"
    using assms(1) state_ok_tags [OF assms(1) init_tagMemoryMap_ok [OF assms(1)]]
    by (simp_all add: init_tags_def)
  obtain tags where tags: "map_res (update_history tmp start sz) (tagMemoryMap ?st1) = Inr tags"
      "tags_ok (NUMBER_OF_TAINT_MARKS st) True tags"
    using update_histories_ok [OF st1(1), of tmp sz "tagMemoryMap ?st1" start] w(4) assms(3) st1
      state_okD(8) [OF st1(1)] by auto
  let ?st2 = "?st1\<lparr>tagMemoryMap := tags\<rparr>"
  have st2: "state_ok ?st2" using st1 tags(2) by (simp add: state_ok_def)
  obtain st3 where "fold_res (assign_byte tmp) (addr_range start sz) ?st2 = Inr st3"
      "state_ok st3" "n_marks st3 = n_marks st"
      "st3 = ?st2\<lparr>memTaintMap :=
        (\<lambda>x. if x \<in> set (addr_range start sz) then Some tmp else memTaintMap ?st2 x)\<rparr>"
    using assign_loop [OF st2, of tmp "assign_byte tmp" "addr_range start sz"]
      assign_byte_ok w(4) st1(2) by auto
  moreover from this have "abs_state st3 =
      write_mem start sz (\<Union>s \<in> set args. marks s) (abs_state st)"
    using abs_write_mem [of tmp "\<Union>s \<in> set args. marks s" ?st2 start sz] w(5) st1(3) by simp
  ultimately show ?thesis
    using w(1-3) tags(1) by (intro exI [of _ st3]) (simp add: SetTaintForMemory_def Let_def)
qed

text \<open>
  C10: writing memory on a well-formed state (fewer than two gigabytes) succeeds, keeps the
  state well-formed, the per-mark histories included, and gives every byte of the range,
  and no other byte, the union of the arguments' marks and of the marks of the pending
  branches.
\<close>

theorem SetTaintForMemory_refines:
  assumes "state_ok st" "\<And>s. s \<in> set args \<Longrightarrow> wf_set (n_marks st) s" "unat sz < 2 ^ 31"
  shows "\<exists>st'. SetTaintForMemory start sz args st = Inr st' \<and> state_ok st' \<and>
    n_marks st' = n_marks st \<and>
    abs_state st' = write_mem start sz (\<Union>s \<in> set args. marks s) (abs_state st)"
  using assms by (rule SetTaintForMemory_run)

theorem SetTaintForMemory_refines_witness:
  "\<exists>s st'. marks s = {3} \<and> SetTaintForMemory 4096 8 [s] (init_state 16 None) = Inr st' \<and>
    state_ok st' \<and> mem (abs_state st') 4100 = Some {3} \<and> mem (abs_state st') 4104 = None"
proof -
  have ok: "state_ok (init_state 16 None)" by (simp add: state_ok_init)
  obtain s where s: "wf_set (n_marks (init_state 16 None)) s" "marks s = {3}"
    using fresh_mark_ok [OF ok, of 3] by (auto simp: init_state_def)
  have "control_marks (abs_state (init_state 16 None)) = {}"
    "mem (abs_state (init_state 16 None)) 4104 = None"
    by (simp_all add: control_marks_def init_state_def abs_state_def)
  then show ?thesis
    using SetTaintForMemory_refines [OF ok, of "[s]" 8 4096] s
    by (auto simp: write_mem_def in_range_def simp del: abs_state_sel intro!: exI [of _ s])
qed

lemma ClearTaintForMemory_ok:
  assumes "state_ok st"
  shows "\<exists>st'. ClearTaintForMemory start sz st = Inr st' \<and> state_ok st' \<and>
    n_marks st' = n_marks st \<and> abs_state st' = clear_mem start sz (abs_state st)"
proof -
  obtain c where c: "control_taint st = Inr c" "wf_set (n_marks st) c"
      "marks c = control_marks (abs_state st)"
    using control_taint_ok [OF assms] by blast
  have loop: "fold_res (clear_byte c) xs s = Inr (s\<lparr>memTaintMap :=
        (\<lambda>x. if x \<in> set xs \<and> memTaintMap s x \<noteq> None then Some c else memTaintMap s x)\<rparr>) \<and>
      state_ok (s\<lparr>memTaintMap :=
        (\<lambda>x. if x \<in> set xs \<and> memTaintMap s x \<noteq> None then Some c else memTaintMap s x)\<rparr>)"
    if "state_ok s" "wf_set (n_marks s) c" for xs s
    using that
  proof (induction xs arbitrary: s)
    case (Cons a xs)
    show ?case
    proof (cases "memTaintMap s a")
      case None
      then have "clear_byte c a s = Inr s" by (simp add: clear_byte_def)
      moreover have "(\<lambda>x. if x \<in> set (a # xs) \<and> memTaintMap s x \<noteq> None then Some c
            else memTaintMap s x) =
          (\<lambda>x. if x \<in> set xs \<and> memTaintMap s x \<noteq> None then Some c else memTaintMap s x)"
        using None by (auto simp: fun_eq_iff)
      ultimately show ?thesis using Cons by simp
    next
      case (Some b)
      let ?s = "s\<lparr>memTaintMap := (memTaintMap s)(a \<mapsto> c)\<rparr>"
      have "bitset_set_bits b c = Inr c"
        using state_okD(4) [OF Cons.prems(1) Some] Cons.prems(2) by (rule wf_set_assign)
      then have step: "clear_byte c a s = Inr ?s" by (simp add: clear_byte_def Some)
      have eq: "(\<lambda>x. if x \<in> set xs \<and> memTaintMap ?s x \<noteq> None then Some c else memTaintMap ?s x) =
          (\<lambda>x. if x \<in> set (a # xs) \<and> memTaintMap s x \<noteq> None then Some c else memTaintMap s x)"
        using Some by (auto simp: fun_eq_iff)
      have upd: "?s\<lparr>memTaintMap := m\<rparr> = s\<lparr>memTaintMap := m\<rparr>" for m by simp
      note Cons.IH [of ?s, unfolded eq n_marks_update upd,
          OF state_ok_mem [OF Cons.prems] Cons.prems(2)]
      with step show ?thesis by (simp only: fold_res.simps and_then.simps)
    qed
  qed simp
  from loop [OF assms c(2), of "addr_range start sz"] c show ?thesis
    by (auto simp: ClearTaintForMemory_def clear_mem_def abs_update_mem in_range_addr_range
        fun_eq_iff intro!: taint_eqI)
qed

section \<open>New marks\<close>

lemma new_mark_cases:
  assumes "state_ok st" "0 \<le> rnd" "-1 \<le> m" "m < NUMBER_OF_TAINT_MARKS st"
    and "\<And>g. taintGen st = Some g \<Longrightarrow> gen_ok (NUMBER_OF_TAINT_MARKS st) g"
    and "m = -1 \<Longrightarrow> taintGen st \<noteq> None"
  shows "new_mark rnd m st = Inl Signed_Overflow \<or>
    (\<exists>k g. new_mark rnd m st = Inr (k, st\<lparr>taintGen := g\<rparr>) \<and> 0 \<le> k \<and>
       k < NUMBER_OF_TAINT_MARKS st \<and> (m \<noteq> -1 \<longrightarrow> k = m) \<and>
       (\<forall>g'. g = Some g' \<longrightarrow> gen_ok (NUMBER_OF_TAINT_MARKS st) g'))"
proof (cases "m = -1")
  case True
  then obtain g where g: "taintGen st = Some g" using assms(6) by auto
  from assms(5) [OF g] assms(2) show ?thesis
  proof (cases rule: taint_gen.next_cases)
    case (mark k g')
    then show ?thesis using True g by (auto simp: new_mark_def)
  next
    case overflow
    then show ?thesis using True g by (simp add: new_mark_def)
  qed
next
  case False
  then have "new_mark rnd m st = Inr (m, st\<lparr>taintGen := taintGen st\<rparr>)"
    using assms(4) by (simp add: new_mark_def)
  with False assms(3-5) show ?thesis
    by (intro disjI2 exI [of _ m] exI [of _ "taintGen st"]) auto
qed

text \<open>The loops that give every byte of a range a copy of a set with one mark.\<close>

lemma mark_loop:
  assumes ok: "state_ok st" and k: "0 \<le> k" "k < NUMBER_OF_TAINT_MARKS st"
  shows "\<exists>tmp st'. bitset_set_bit (fresh_set st) (word_of_int k) = Inr tmp \<and> wf_set (n_marks st) tmp \<and>
    marks tmp = {nat k} \<and>
    fold_res (\<lambda>address st. and_then (bitset_copy tmp) (\<lambda>s.
        Inr (st\<lparr>memTaintMap := (memTaintMap st)(address \<mapsto> s)\<rparr>))) (addr_range start sz) st = Inr st' \<and>
    state_ok st' \<and> taintGen st' = taintGen st \<and>
    NUMBER_OF_TAINT_MARKS st' = NUMBER_OF_TAINT_MARKS st \<and>
    abs_state st' = taint_range start sz (nat k) (abs_state st)"
proof -
  obtain tmp where tmp: "bitset_set_bit (fresh_set st) (word_of_int k) = Inr tmp"
      "wf_set (n_marks st) tmp" "marks tmp = {nat k}"
    using fresh_mark_ok [OF ok] k by auto
  let ?f = "\<lambda>address st. and_then (bitset_copy tmp) (\<lambda>s.
            Inr (st\<lparr>memTaintMap := (memTaintMap st)(address \<mapsto> s)\<rparr>))"
  have "?f a st' = Inr (st'\<lparr>memTaintMap := (memTaintMap st')(a \<mapsto> tmp)\<rparr>)" for a st'
    using wf_set_copy [OF tmp(2)] by simp
  then obtain st' where st': "fold_res ?f (addr_range start sz) st = Inr st'" "state_ok st'"
      "st' = st\<lparr>memTaintMap :=
        (\<lambda>x. if x \<in> set (addr_range start sz) then Some tmp else memTaintMap st x)\<rparr>"
    using assign_loop [OF ok tmp(2), of ?f "addr_range start sz"] by blast
  have "abs_state st' = taint_range start sz (nat k) (abs_state st)"
    unfolding st'(3) using tmp(3)
    by (auto simp: abs_update_mem taint_range_def in_range_addr_range intro!: taint_eqI)
  then show ?thesis using tmp st' by (intro exI [of _ tmp] exI [of _ st']) simp
qed

lemma SetNewTaintForMemory_mark:
  assumes "state_ok st" "new_mark rnd m st = Inr (k, st\<lparr>taintGen := g\<rparr>)"
    and "0 \<le> k" "k < NUMBER_OF_TAINT_MARKS st"
  shows "\<exists>st'. SetNewTaintForMemory rnd start sz m st = Inr st' \<and> state_ok st' \<and>
    taintGen st' = g \<and> NUMBER_OF_TAINT_MARKS st' = NUMBER_OF_TAINT_MARKS st \<and>
    abs_state st' = taint_range start sz (nat k) (abs_state st)"
proof -
  have "state_ok (st\<lparr>taintGen := g\<rparr>)" using assms(1) by (simp add: state_ok_gen)
  moreover have "abs_state (st\<lparr>taintGen := g\<rparr>) = abs_state st" by (simp add: abs_state_def)
  ultimately show ?thesis
    using mark_loop [of "st\<lparr>taintGen := g\<rparr>" k start sz] assms(2-4)
    by (auto simp: SetNewTaintForMemory_def)
qed

text \<open>
  C11: tainting a memory range with an explicit legal mark gives every byte of the range exactly
  that mark and leaves the generator alone; with -1 the bytes get exactly the mark that the
  generator owes next (\<open>mark_spec\<close>), which is below the number of marks, and the generator
  moves on. Nothing else changes and the state stays well-formed. The only failure is that of a
  counter that has reached \<open>INT_MAX\<close>.
\<close>

theorem SetNewTaintForMemory_refines:
  assumes "state_ok st" "0 \<le> rnd" "-1 \<le> m" "m < NUMBER_OF_TAINT_MARKS st"
    and "m = -1 \<Longrightarrow> taintGen st = Some g \<and> gen_ok (NUMBER_OF_TAINT_MARKS st) g"
  shows "case (if m = -1 then map_option (\<lambda>(k, g'). (k, Some g')) (mark_spec rnd g) else Some (m, taintGen st)) of
      None \<Rightarrow> SetNewTaintForMemory rnd start sz m st = Inl Signed_Overflow
    | Some (k, gen') \<Rightarrow> 0 \<le> k \<and> k < NUMBER_OF_TAINT_MARKS st \<and>
        (\<exists>st'. SetNewTaintForMemory rnd start sz m st = Inr st' \<and> state_ok st' \<and> taintGen st' = gen' \<and>
           abs_state st' = taint_range start sz (nat k) (abs_state st))"
proof (cases "m = -1")
  case False
  then have "new_mark rnd m st = Inr (m, st\<lparr>taintGen := taintGen st\<rparr>)" "0 \<le> m"
    using assms(3,4) by (simp_all add: new_mark_def)
  with False SetNewTaintForMemory_mark [OF assms(1) this(1,2) assms(4)] assms(4) show ?thesis by auto
next
  case True
  then have g: "taintGen st = Some g" "gen_ok (NUMBER_OF_TAINT_MARKS st) g" using assms(5) by simp_all
  note spec = nextTaintMark_spec [OF g(2) assms(2) state_okD(2) [OF assms(1)]]
  show ?thesis
  proof (cases "mark_spec rnd g")
    case None
    then show ?thesis using True g(1) spec by (simp add: SetNewTaintForMemory_def new_mark_def)
  next
    case (Some p)
    obtain k g' where p: "p = (k, g')" by (cases p)
    have k: "0 \<le> k" "k < NUMBER_OF_TAINT_MARKS st"
      using mark_spec_legal [OF g(2) assms(2) state_okD(2) [OF assms(1)]] Some p by auto
    have "new_mark rnd m st = Inr (k, st\<lparr>taintGen := Some g'\<rparr>)"
      using True g(1) spec Some p by (simp add: new_mark_def)
    from SetNewTaintForMemory_mark [OF assms(1) this k] k show ?thesis using True Some p by simp blast
  qed
qed

theorem SetNewTaintForMemory_refines_witness:
  "\<exists>st'. SetNewTaintForMemory 0 4096 8 (-1) (init_state 16 (Some (TaintGenerator 1 16))) = Inr st' \<and>
     state_ok st' \<and> taintGen st' = Some (TaintGenerator 2 16) \<and> mem (abs_state st') 4100 = Some {2}"
proof -
  let ?st = "init_state 16 (Some (TaintGenerator 1 16))"
  have ok: "state_ok ?st" by (simp add: state_ok_init)
  have m: "NUMBER_OF_TAINT_MARKS ?st = 16" "taintGen ?st = Some (TaintGenerator 1 16)"
    by (simp_all add: init_state_def)
  show ?thesis
    using SetNewTaintForMemory_refines [OF ok, of 0 "-1" "TaintGenerator 1 16" 4096 8] m
    by (auto simp: taint_range_def in_range_def gen_ok_def INT_MAX_def simp del: abs_state_sel)
qed

end
