(* ===== verification/Control_Flow.thy ===== *)
theory Control_Flow
  imports Taint_Engine
begin

text \<open>
  Control-flow taint at run time: \<open>PushControl\<close> records the marks of the flags at a
  conditional branch, \<open>PopControl\<close> removes the branches that meet at an immediate
  post-dominator (\<open>src/dytan.cpp\<close>, lines 691--801), and every write in between carries the
  recorded marks.
\<close>

lemma smap_put_set: "set (smap_put k v m) \<subseteq> insert (k, v) (set m)"
  by (induction k v m rule: smap_put.induct) auto

lemma smap_erase_set: "set (smap_erase k m) \<subseteq> set m"
  by (auto simp: smap_erase_def)

lemma state_ok_put_control:
  assumes "state_ok st" "wf_set (n_marks st) s"
  shows "state_ok (st\<lparr>controlTaintMap := smap_put k s (controlTaintMap st)\<rparr>)"
  using assms smap_put_set [of k s "controlTaintMap st"] state_okD(6) [OF assms(1)]
  by (intro state_ok_control smap_put_ok state_okD(5)) auto

lemma state_ok_erase_control:
  assumes "state_ok st"
  shows "state_ok (st\<lparr>controlTaintMap := smap_erase k (controlTaintMap st)\<rparr>)"
  using assms smap_erase_set [of k "controlTaintMap st"] state_okD(6) [OF assms(1)]
  by (intro state_ok_control smap_erase_ok state_okD(5)) auto

lemma control_entry_ok:
  "state_ok st \<Longrightarrow> map_of (controlTaintMap st) a = Some s \<Longrightarrow> wf_set (n_marks st) s"
  using state_okD(6) [of st "(a, s)"] by (auto dest: map_of_SomeD)

lemma fresh_set_update [simp]: "fresh_set (st\<lparr>controlTaintMap := m\<rparr>) = fresh_set st"
  by (simp add: fresh_set_def)

lemma PushControl_ok:
  assumes "state_ok st"
  shows "\<exists>st'. PushControl addr st = Inr st' \<and> state_ok st' \<and> n_marks st' = n_marks st \<and>
    abs_state st' = push_control addr (abs_state st)"
proof (cases "regTaintMap st REG_RFLAGS")
  case None
  then show ?thesis using assms by (simp add: PushControl_def push_control_def)
next
  case (Some rf)
  have rf: "wf_set (n_marks st) rf" using state_okD(3) [OF assms Some] .
  then have e: "bitset_is_empty rf = Inr (marks rf = {})"
    by (simp add: wf_set_def bitset_is_empty_ok)
  show ?thesis
  proof (cases "marks rf = {}")
    case True
    then show ?thesis using assms Some e by (simp add: PushControl_def push_control_def)
  next
    case False
    define s0 where "s0 = (case map_of (controlTaintMap st) addr of
        None \<Rightarrow> fresh_set st | Some s \<Rightarrow> s)"
    define cm where "cm = (case map_of (controlTaintMap st) addr of
        None \<Rightarrow> smap_put addr (fresh_set st) (controlTaintMap st)
      | Some _ \<Rightarrow> controlTaintMap st)"
    have s0: "wf_set (n_marks st) s0" "marks s0 = marks_of (ctl (abs_state st) addr)"
      using fresh_set_ok [OF assms] control_entry_ok [OF assms, of addr]
      by (auto simp: s0_def split: option.split)
    have cm: "map_of cm addr = Some s0" "state_ok (st\<lparr>controlTaintMap := cm\<rparr>)"
        "\<And>x. x \<noteq> addr \<Longrightarrow> map_of cm x = map_of (controlTaintMap st) x"
      using state_ok_put_control [OF assms, of "fresh_set st" addr] fresh_set_ok [OF assms] assms
      by (auto simp: cm_def s0_def map_simps split: option.split)
    obtain s' where s': "bitset_union s0 rf = Inr s'" "wf_set (n_marks st) s'"
        "marks s' = marks s0 \<union> marks rf"
      using wf_set_union [OF s0(1) rf] by auto
    let ?st' = "st\<lparr>controlTaintMap := smap_put addr s' cm\<rparr>"
    have "PushControl addr st = Inr ?st'"
      using Some e False cm(1) s'(1) by (simp add: PushControl_def cm_def [symmetric] Let_def)
    moreover have "state_ok ?st'"
      using state_ok_put_control [OF cm(2), of s' addr] s'(2) by simp
    moreover have "abs_state ?st' = push_control addr (abs_state st)"
      using Some False s' s0 cm
      by (auto simp: abs_update_ctl push_control_def map_simps intro!: taint_eqI)
    ultimately show ?thesis by auto
  qed
qed

lemma sample_branch:
  obtains st s where "state_ok st" "controlTaintMap st = [(8, s)]" "marks s = {3}"
    "regTaintMap st REG_RFLAGS = Some s" "wf_set (n_marks st) s" "NUMBER_OF_TAINT_MARKS st = 16"
proof -
  let ?st = "init_state 16 None"
  have ok: "state_ok ?st" by (simp add: state_ok_init)
  obtain s where s: "wf_set (n_marks ?st) s" "marks s = {3}"
    using fresh_mark_ok [OF ok, of 3] by (auto simp: init_state_def)
  let ?st1 = "?st\<lparr>regTaintMap := (regTaintMap ?st)(REG_RFLAGS \<mapsto> s)\<rparr>"
  let ?st2 = "?st1\<lparr>controlTaintMap := smap_put 8 s (controlTaintMap ?st1)\<rparr>"
  have "state_ok ?st2"
    using state_ok_put_control [OF state_ok_reg [OF ok s(1), of REG_RFLAGS], of s 8] s(1) by simp
  then show thesis using s by (intro that [of ?st2 s]) (simp_all add: init_state_def n_marks_def)
qed

text \<open>
  C12: at a conditional branch whose flags are tainted, the branch's address becomes pending
  with the flags' marks added to what it had; with untainted flags nothing changes. It
  never fails on a well-formed state.
\<close>

theorem PushControl_refines:
  assumes "state_ok st"
  shows "\<exists>st'. PushControl addr st = Inr st' \<and> state_ok st' \<and> n_marks st' = n_marks st \<and>
    abs_state st' = push_control addr (abs_state st)"
  using assms by (rule PushControl_ok)

theorem PushControl_refines_witness:
  "\<exists>st st' s. regTaintMap st REG_RFLAGS = Some s \<and> PushControl 16 st = Inr st' \<and> state_ok st' \<and>
    ctl (abs_state st') 16 = Some {3}"
proof -
  obtain st s where st: "state_ok st" "marks s = {3}" "regTaintMap st REG_RFLAGS = Some s"
    "controlTaintMap st = [(8, s)]" by (rule sample_branch)
  have "ctl (push_control 16 (abs_state st)) 16 = Some {3}"
    using st by (simp add: push_control_def)
  then show ?thesis
    using PushControl_refines [OF st(1), of 16] st(3) by (metis (no_types))
qed

lemma PopControl_ok:
  assumes "state_ok st"
  shows "state_ok (PopControl addrs st) \<and> n_marks (PopControl addrs st) = n_marks st \<and>
    abs_state (PopControl addrs st) = pop_control addrs (abs_state st)"
  using assms
proof (induction addrs arbitrary: st)
  case (Cons a addrs)
  show ?case
  proof (cases "map_of (controlTaintMap st) a")
    case (Some s)
    let ?st = "st\<lparr>controlTaintMap := smap_erase a (controlTaintMap st)\<rparr>"
    have "abs_state ?st = (abs_state st)\<lparr>ctl := (ctl (abs_state st))(a := None)\<rparr>"
      by (auto simp: abs_update_ctl map_simps intro!: taint_eqI)
    then show ?thesis
      using Cons.IH [OF state_ok_erase_control [OF Cons.prems, of a]] Some by simp
  qed (use Cons.prems in simp)
qed simp

text \<open>A pop ends at the first branch that is not pending: the later ones stay.\<close>

lemma pop_control_regs [simp]:
  "regs (pop_control addrs a) = regs a" "mem (pop_control addrs a) = mem a"
  "tmps (pop_control addrs a) = tmps a"
  by (induction addrs a rule: pop_control.induct) auto

lemma pop_control_all:
  assumes "\<And>x. x \<in> set addrs \<Longrightarrow> ctl a x \<noteq> None" "distinct addrs"
  shows "ctl (pop_control addrs a) = (\<lambda>x. if x \<in> set addrs then None else ctl a x)"
  using assms
proof (induction addrs arbitrary: a)
  case (Cons x addrs)
  let ?a = "a\<lparr>ctl := (ctl a)(x := None)\<rparr>"
  have "ctl (pop_control addrs ?a) = (\<lambda>y. if y \<in> set addrs then None else ctl ?a y)"
    using Cons.prems by (intro Cons.IH) auto
  moreover have "ctl a x \<noteq> None" using Cons.prems(1) [of x] by simp
  ultimately show ?case by (auto simp: fun_eq_iff)
qed simp

text \<open>
  C13: at the meeting point of branches that are all pending, popping them removes exactly
  their marks: no other pending branch and no register or memory byte changes.
\<close>

theorem PopControl_all_pending:
  assumes "state_ok st" "distinct addrs"
    and "\<And>x. x \<in> set addrs \<Longrightarrow> map_of (controlTaintMap st) x \<noteq> None"
  shows "state_ok (PopControl addrs st) \<and>
    abs_state (PopControl addrs st) =
      (abs_state st)\<lparr>ctl := \<lambda>x. if x \<in> set addrs then None else ctl (abs_state st) x\<rparr>"
proof -
  have "ctl (pop_control addrs (abs_state st)) =
      (\<lambda>x. if x \<in> set addrs then None else ctl (abs_state st) x)"
    using assms by (intro pop_control_all) auto
  then show ?thesis
    using PopControl_ok [OF assms(1), of addrs] by (auto intro!: taint_eqI)
qed

theorem PopControl_all_pending_witness:
  "\<exists>st s. controlTaintMap st = [(8, s)] \<and> marks s = {3} \<and> state_ok (PopControl [8] st) \<and>
    ctl (abs_state (PopControl [8] st)) 8 = None"
proof -
  obtain st s where st: "state_ok st" "marks s = {3}" "controlTaintMap st = [(8, s)]"
    by (rule sample_branch)
  then show ?thesis
    using PopControl_all_pending [OF st(1), of "[8]"]
    by (intro exI [of _ st] exI [of _ s]) (simp del: abs_state_sel PopControl.simps)
qed

text \<open>
  When the flags of the first branch of a meeting point were not tainted, so that it is
  not pending, popping the meeting point removes no branch at all: the marks of the other
  branches keep flowing into every later write.
\<close>

theorem PopControl_stops_at_untainted_branch:
  assumes "map_of (controlTaintMap st) addr = None"
  shows "PopControl (addr # addrs) st = st"
  using assms by simp

text \<open>
  While a branch is pending, a register write (other than of the stack and frame
  pointer) gives the register at least the branch's marks, whatever the arguments.
\<close>

theorem pending_branch_taints_write:
  assumes "state_ok st" "\<And>s. s \<in> set args \<Longrightarrow> wf_set (n_marks st) s"
    and "r \<noteq> REG_ESP" "r \<noteq> REG_EBP" "map_of (controlTaintMap st) addr = Some b"
  shows "\<exists>st' s. SetTaintForRegister r args st = Inr st' \<and> regTaintMap st' r = Some s \<and>
    marks b \<subseteq> marks s"
proof -
  obtain tmp where t: "SetTaintForRegister r args st = Inr (st\<lparr>regTaintMap :=
      (\<lambda>x. if x = r \<or> x \<in> sub_registers r then Some tmp else regTaintMap st x)\<rparr>)"
    "marks tmp = (\<Union>s \<in> set args. marks s) \<union> control_marks (abs_state st)"
    using SetTaintForRegister_ok [OF assms(1), of args r] assms(2-4) by blast
  have "marks b \<subseteq> control_marks (abs_state st)"
    using UN_upper [of addr UNIV "\<lambda>x. marks_of (ctl (abs_state st) x)"] assms(5)
    by (simp add: control_marks_def)
  then show ?thesis using t by auto
qed

theorem pending_branch_taints_write_witness:
  "\<exists>st st' s. SetTaintForRegister REG_EAX [] st = Inr st' \<and> regTaintMap st' REG_EAX = Some s \<and>
    {3} \<subseteq> marks s"
proof -
  obtain st b where st: "state_ok st" "marks b = {3}" "controlTaintMap st = [(8, b)]"
    by (rule sample_branch)
  then show ?thesis
    using pending_branch_taints_write [OF st(1), of "[]" REG_EAX 8 b] by auto
qed

end
