(* ===== verification/Pin_Ins.thy ===== *)
theory Pin_Ins
  imports Control_Flow
begin

text \<open>
  The interface between a handler of \<open>src/instrument_functions.c\<close> and the run time. Pin is
  not part of the sources: an instruction is the record of the answers that Pin's
  inspection functions give for it, and an execution of the instruction the record of the
  values that Pin's \<open>IARG_\<close> arguments have then. A handler runs once per instruction and
  yields the calls it inserts before it; the calls run at every execution.
\<close>

section \<open>An instruction, as Pin describes it\<close>

record ins =
  INS_Opcode :: string
  INS_OperandIsReg :: "nat \<Rightarrow> bool"
  INS_OperandIsMemory :: "nat \<Rightarrow> bool"
  INS_OperandIsImmediate :: "nat \<Rightarrow> bool"
  INS_OperandReg :: "nat \<Rightarrow> reg"
  INS_OperandMemoryBaseReg :: "nat \<Rightarrow> reg"
  INS_OperandMemoryIndexReg :: "nat \<Rightarrow> reg"
  INS_OperandWidth :: "nat \<Rightarrow> nat"
  INS_OperandCount :: nat
  INS_OperandIsImplicit :: "nat \<Rightarrow> bool"
  INS_IsMemoryRead :: bool
  INS_IsMemoryWrite :: bool
  INS_HasRealRep :: bool
  INS_RepPrefix :: bool
  INS_RepnePrefix :: bool

text \<open>An execution: effective addresses and sizes, register values, and 8-byte loads.\<close>

record execution =
  IARG_MEMORYREAD_EA :: addrint
  IARG_MEMORYREAD2_EA :: addrint
  IARG_MEMORYREAD_SIZE :: size_t
  IARG_MEMORYWRITE_EA :: addrint
  IARG_MEMORYWRITE_SIZE :: size_t
  IARG_REG_VALUE :: "reg \<Rightarrow> addrint"
  deref_ADDRINT :: "addrint \<Rightarrow> addrint"

section \<open>Inserted calls\<close>

datatype read_ea = MEMORYREAD_EA | MEMORYREAD2_EA

datatype condition =
    CheckEqual_r_r reg reg
  | CheckNotEqual_r_r reg reg
  | CheckEqual_m_r reg
  | CheckNotEqual_m_r reg
  | CheckFlags "addrint \<Rightarrow> addrint"

datatype call =
    Call_TaintForRegister reg slot
  | Call_TaintForMemory read_ea reg reg slot
  | Call_ClearTaintSet slot
  | Call_SetTaintForRegister reg "slot list"
  | Call_SetTaintForMemory "slot list"
  | Call_ClearTaintForRegister reg
  | Call_ClearTaintForMemory
  | If_Then condition call

text \<open>The predicates of \<open>INS_InsertIfCall\<close>; \<open>CheckNotEqual_m_r\<close> tests equality, as its source
  does. \<open>CheckFlags\<close> is any of the functions that look at the flags register.\<close>

fun check :: "execution \<Rightarrow> condition \<Rightarrow> bool" where
  "check x (CheckEqual_r_r a b) = (IARG_REG_VALUE x a = IARG_REG_VALUE x b)"
| "check x (CheckNotEqual_r_r a b) = (IARG_REG_VALUE x a \<noteq> IARG_REG_VALUE x b)"
| "check x (CheckEqual_m_r r) =
     (deref_ADDRINT x (IARG_MEMORYREAD_EA x) = IARG_REG_VALUE x r)"
| "check x (CheckNotEqual_m_r r) =
     (deref_ADDRINT x (IARG_MEMORYREAD_EA x) = IARG_REG_VALUE x r)"
| "check x (CheckFlags f) = (f (IARG_REG_VALUE x REG_EFLAGS) \<noteq> 0)"

definition set_slot :: "slot \<Rightarrow> dytan \<Rightarrow> bitset \<Rightarrow> dytan result" where
  "set_slot s st b = Inr (st\<lparr>slots := (slots st)(s := b)\<rparr>)"

fun ea_of :: "execution \<Rightarrow> read_ea \<Rightarrow> addrint" where
  "ea_of x MEMORYREAD_EA = IARG_MEMORYREAD_EA x"
| "ea_of x MEMORYREAD2_EA = IARG_MEMORYREAD2_EA x"

fun run_call :: "execution \<Rightarrow> call \<Rightarrow> dytan \<Rightarrow> dytan result" where
  "run_call x (Call_TaintForRegister r s) st =
     and_then (TaintForRegister r (slots st s) st) (set_slot s st)"
| "run_call x (Call_TaintForMemory ea b i s) st =
     and_then (TaintForMemory (ea_of x ea) (IARG_MEMORYREAD_SIZE x) b i (slots st s) st)
       (set_slot s st)"
| "run_call x (Call_ClearTaintSet s) st =
     and_then (ClearTaintSet (slots st s)) (set_slot s st)"
| "run_call x (Call_SetTaintForRegister r ss) st =
     SetTaintForRegister r (map (slots st) ss) st"
| "run_call x (Call_SetTaintForMemory ss) st =
     SetTaintForMemory (IARG_MEMORYWRITE_EA x) (IARG_MEMORYWRITE_SIZE x) (map (slots st) ss) st"
| "run_call x (Call_ClearTaintForRegister r) st = ClearTaintForRegister r st"
| "run_call x Call_ClearTaintForMemory st =
     ClearTaintForMemory (IARG_MEMORYWRITE_EA x) (IARG_MEMORYWRITE_SIZE x) st"
| "run_call x (If_Then c k) st = (if check x c then run_call x k st else Inr st)"

definition run_calls :: "execution \<Rightarrow> call list \<Rightarrow> dytan \<Rightarrow> dytan result" where
  "run_calls x cs st = fold_res (run_call x) cs st"

section \<open>The calls as operations on sets of marks\<close>

definition set_tmp :: "slot \<Rightarrow> nat set \<Rightarrow> taint \<Rightarrow> taint" where
  "set_tmp s M a = a\<lparr>tmps := (tmps a)(s := M)\<rparr>"

definition tmp_union :: "taint \<Rightarrow> slot list \<Rightarrow> nat set" where
  "tmp_union a ss = (\<Union>s \<in> set ss. tmps a s)"

fun flow_call :: "execution \<Rightarrow> call \<Rightarrow> taint \<Rightarrow> taint" where
  "flow_call x (Call_TaintForRegister r s) a = set_tmp s (marks_of (regs a r)) a"
| "flow_call x (Call_TaintForMemory ea b i s) a =
     set_tmp s (mem_marks a (ea_of x ea) (IARG_MEMORYREAD_SIZE x)) a"
| "flow_call x (Call_ClearTaintSet s) a = set_tmp s {} a"
| "flow_call x (Call_SetTaintForRegister r ss) a = write_reg r (tmp_union a ss) a"
| "flow_call x (Call_SetTaintForMemory ss) a =
     write_mem (IARG_MEMORYWRITE_EA x) (IARG_MEMORYWRITE_SIZE x) (tmp_union a ss) a"
| "flow_call x (Call_ClearTaintForRegister r) a = clear_reg r a"
| "flow_call x Call_ClearTaintForMemory a =
     clear_mem (IARG_MEMORYWRITE_EA x) (IARG_MEMORYWRITE_SIZE x) a"
| "flow_call x (If_Then c k) a = (if check x c then flow_call x k a else a)"

definition flow :: "execution \<Rightarrow> call list \<Rightarrow> taint \<Rightarrow> taint" where
  "flow x cs a = fold (flow_call x) cs a"

text \<open>The calls are a sound and exact implementation of their flow.\<close>

definition writes_ok :: "execution \<Rightarrow> bool" where
  "writes_ok x \<longleftrightarrow> unat (IARG_MEMORYWRITE_SIZE x) < 2 ^ 31"

lemma set_slot_ok:
  assumes "state_ok st" "wf_set (n_marks st) b"
  shows "\<exists>st'. set_slot s st b = Inr st' \<and> state_ok st' \<and> n_marks st' = n_marks st \<and>
    abs_state st' = set_tmp s (marks b) (abs_state st)"
  using assms by (simp add: set_slot_def set_tmp_def abs_update_slot state_ok_slot)

lemma run_call_ok:
  assumes "writes_ok x" "state_ok st"
  shows "\<exists>st'. run_call x c st = Inr st' \<and> state_ok st' \<and> n_marks st' = n_marks st \<and>
    abs_state st' = flow_call x c (abs_state st)"
proof -
  have sl: "wf_set (n_marks st) (slots st s)" for s using state_okD(7) [OF assms(2)] .
  have args: "b \<in> set (map (slots st) ss) \<Longrightarrow> wf_set (n_marks st) b" for b ss
    using sl by auto
  have un: "(\<Union>b \<in> set (map (slots st) ss). marks b) = tmp_union (abs_state st) ss" for ss
    by (simp add: tmp_union_def)
  show ?thesis
  proof (induction c)
    case (Call_TaintForRegister r s)
    obtain b where "TaintForRegister r (slots st s) st = Inr b" "wf_set (n_marks st) b"
        "marks b = marks_of (regs (abs_state st) r)"
      using TaintForRegister_ok [OF assms(2) sl] by blast
    then show ?case using set_slot_ok [OF assms(2), of b s] by simp
  next
    case (Call_TaintForMemory ea bs ix s)
    obtain b where "TaintForMemory (ea_of x ea) (IARG_MEMORYREAD_SIZE x) bs ix (slots st s) st = Inr b"
        "wf_set (n_marks st) b"
        "marks b = mem_marks (abs_state st) (ea_of x ea) (IARG_MEMORYREAD_SIZE x)"
      using TaintForMemory_ok [OF assms(2) sl] by blast
    then show ?case using set_slot_ok [OF assms(2), of b s] by simp
  next
    case (Call_ClearTaintSet s)
    obtain b where "ClearTaintSet (slots st s) = Inr b" "wf_set (n_marks st) b" "marks b = {}"
      using ClearTaintSet_ok [OF sl] by blast
    then show ?case using set_slot_ok [OF assms(2), of b s] by simp
  next
    case (Call_SetTaintForRegister r ss)
    show ?case
      using SetTaintForRegister_run [OF assms(2), of "map (slots st) ss" r] args un
      by simp
  next
    case (Call_SetTaintForMemory ss)
    show ?case
      using SetTaintForMemory_run [OF assms(2), of "map (slots st) ss"] args un assms(1)
      by (simp add: writes_ok_def)
  next
    case (Call_ClearTaintForRegister r)
    show ?case using ClearTaintForRegister_ok [OF assms(2)] by simp
  next
    case Call_ClearTaintForMemory
    show ?case using ClearTaintForMemory_ok [OF assms(2)] by simp
  next
    case (If_Then c k)
    then show ?case using assms(2) by auto
  qed
qed

lemma run_calls_ok:
  assumes "writes_ok x" "state_ok st"
  shows "\<exists>st'. run_calls x cs st = Inr st' \<and> state_ok st' \<and> n_marks st' = n_marks st \<and>
    abs_state st' = flow x cs (abs_state st)"
  using assms(2)
proof (induction cs arbitrary: st)
  case (Cons c cs)
  obtain st1 where "run_call x c st = Inr st1" "state_ok st1" "n_marks st1 = n_marks st"
      "abs_state st1 = flow_call x c (abs_state st)"
    using run_call_ok [OF assms(1) Cons.prems] by blast
  with Cons.IH [of st1] show ?case by (auto simp: run_calls_def flow_def)
qed (simp add: run_calls_def flow_def)

text \<open>
  C7: the calls that instrumentation inserts never fail on a well-formed state: they keep
  it well-formed and move the sets of marks exactly as their flow says.
\<close>

theorem run_calls_refine_flow:
  assumes "writes_ok x" "state_ok st"
  shows "\<exists>st'. run_calls x cs st = Inr st' \<and> state_ok st' \<and> n_marks st' = n_marks st \<and>
    abs_state st' = flow x cs (abs_state st)"
  using assms by (rule run_calls_ok)

theorem run_calls_refine_flow_witness:
  "\<exists>st s st'. marks s = {3} \<and> regTaintMap st REG_RFLAGS = Some s \<and>
    run_calls \<lparr>IARG_MEMORYREAD_EA = 0, IARG_MEMORYREAD2_EA = 0, IARG_MEMORYREAD_SIZE = 4,
        IARG_MEMORYWRITE_EA = 64, IARG_MEMORYWRITE_SIZE = 4, IARG_REG_VALUE = (\<lambda>_. 0),
        deref_ADDRINT = (\<lambda>_. 0)\<rparr>
      [Call_TaintForRegister REG_RFLAGS Src, Call_SetTaintForMemory [Src]] st = Inr st' \<and>
    state_ok st' \<and> mem (abs_state st') 66 = Some {3}"
proof -
  let ?x = "\<lparr>IARG_MEMORYREAD_EA = 0, IARG_MEMORYREAD2_EA = 0, IARG_MEMORYREAD_SIZE = 4,
        IARG_MEMORYWRITE_EA = 64, IARG_MEMORYWRITE_SIZE = 4, IARG_REG_VALUE = (\<lambda>_. 0),
        deref_ADDRINT = (\<lambda>_. 0)\<rparr>"
  let ?cs = "[Call_TaintForRegister REG_RFLAGS Src, Call_SetTaintForMemory [Src]]"
  obtain st s where st: "state_ok st" "marks s = {3}" "regTaintMap st REG_RFLAGS = Some s"
    "controlTaintMap st = [(8, s)]" by (rule sample_branch)
  have c: "control_marks (abs_state st) = {3}"
    using control_marks_abs [OF state_okD(5) [OF st(1)]] st by simp
  have "writes_ok ?x" by (simp add: writes_ok_def)
  with run_calls_refine_flow [OF _ st(1), of ?x ?cs] obtain st' where st': "run_calls ?x ?cs st = Inr st'"
    "state_ok st'" "abs_state st' = flow ?x ?cs (abs_state st)" by blast
  let ?a = "set_tmp Src {3} (abs_state st)"
  have "flow ?x ?cs (abs_state st) = write_mem 64 4 (tmp_union ?a [Src]) ?a"
    using st by (simp add: flow_def)
  moreover have "tmp_union ?a [Src] = {3}" "control_marks ?a = control_marks (abs_state st)"
    by (simp_all add: tmp_union_def set_tmp_def control_marks_def)
  ultimately have "mem (flow ?x ?cs (abs_state st)) 66 = Some {3}"
    using c by (simp add: write_mem_def in_range_def)
  with st'(3) have "mem (abs_state st') 66 = Some {3}" by simp
  with st(2,3) st'(1,2) show ?thesis by blast
qed

end
