(* ===== verification/Handler_Steps.thy ===== *)
theory Handler_Steps
  imports Pin_Ins
begin

text \<open>
  What the handlers of \<open>src/instrument_functions.c\<close> are made of: fragments that load the
  marks of an operand into a temporary, fragments that store temporaries into an operand,
  early returns and \<open>abort()\<close>. A fragment inserts calls and goes on, inserts calls and
  returns from the handler, or stops the tool.
\<close>

section \<open>Fragments and their sequence\<close>

datatype step = Go "call list" | Return "call list" | Stop error

fun seq :: "step \<Rightarrow> step \<Rightarrow> step" where
  "seq (Go cs) s = (case s of Go ds \<Rightarrow> Go (cs @ ds) | Return ds \<Rightarrow> Return (cs @ ds) | Stop e \<Rightarrow> Stop e)"
| "seq (Return cs) s = Return cs"
| "seq (Stop e) s = Stop e"

fun block :: "step list \<Rightarrow> step" where
  "block [] = Go []"
| "block (s # ss) = seq s (block ss)"

definition handler :: "step list \<Rightarrow> call list result" where
  "handler ss = (case block ss of Go cs \<Rightarrow> Inr cs | Return cs \<Rightarrow> Inr cs | Stop e \<Rightarrow> Inl e)"

definition insert_call :: "call \<Rightarrow> step" where
  "insert_call c = Go [c]"

definition abort_step :: step where
  "abort_step = Stop Abort_Called"

definition step_if :: "bool \<Rightarrow> step \<Rightarrow> step" where
  "step_if b s = (if b then s else Go [])"

text \<open>\<open>if(!b) return;\<close>\<close>

definition return_unless :: "bool \<Rightarrow> step" where
  "return_unless b = (if b then Go [] else Return [])"

definition load_reg :: "reg \<Rightarrow> slot \<Rightarrow> step" where
  "load_reg r s = insert_call (Call_TaintForRegister r s)"

definition load_mem :: "ins \<Rightarrow> nat \<Rightarrow> slot \<Rightarrow> step" where
  "load_mem ins k s = seq (return_unless (INS_IsMemoryRead ins))
     (insert_call (Call_TaintForMemory MEMORYREAD_EA
        (INS_OperandMemoryBaseReg ins k) (INS_OperandMemoryIndexReg ins k) s))"

text \<open>A register or memory operand; register, memory or immediate; register or immediate.\<close>

definition load_rm :: "ins \<Rightarrow> nat \<Rightarrow> slot \<Rightarrow> step" where
  "load_rm ins k s =
     (if INS_OperandIsReg ins k then load_reg (INS_OperandReg ins k) s
      else if INS_OperandIsMemory ins k then load_mem ins k s
      else abort_step)"

definition load_rmi :: "ins \<Rightarrow> nat \<Rightarrow> slot \<Rightarrow> step" where
  "load_rmi ins k s =
     (if INS_OperandIsReg ins k then load_reg (INS_OperandReg ins k) s
      else if INS_OperandIsMemory ins k then load_mem ins k s
      else if INS_OperandIsImmediate ins k then insert_call (Call_ClearTaintSet s)
      else abort_step)"

definition load_ri :: "ins \<Rightarrow> nat \<Rightarrow> slot \<Rightarrow> step" where
  "load_ri ins k s =
     (if INS_OperandIsReg ins k then load_reg (INS_OperandReg ins k) s
      else if INS_OperandIsImmediate ins k then insert_call (Call_ClearTaintSet s)
      else abort_step)"

text \<open>\<open>operand k <- ss\<close>, for a register or memory operand\<close>

definition store_rm :: "ins \<Rightarrow> nat \<Rightarrow> slot list \<Rightarrow> step" where
  "store_rm ins k ss =
     (if INS_OperandIsReg ins k then insert_call (Call_SetTaintForRegister (INS_OperandReg ins k) ss)
      else if INS_OperandIsMemory ins k
      then seq (return_unless (INS_IsMemoryWrite ins)) (insert_call (Call_SetTaintForMemory ss))
      else abort_step)"

definition store_reg :: "reg \<Rightarrow> slot list \<Rightarrow> step" where
  "store_reg r ss = insert_call (Call_SetTaintForRegister r ss)"

definition clear_reg_step :: "reg \<Rightarrow> step" where
  "clear_reg_step r = insert_call (Call_ClearTaintForRegister r)"

section \<open>Operands at the level of marks\<close>

text \<open>An operand that a handler can read, and one that it can write, without an early return.\<close>

definition readable :: "ins \<Rightarrow> nat \<Rightarrow> bool" where
  "readable ins k \<longleftrightarrow>
     INS_OperandIsReg ins k \<or> INS_OperandIsMemory ins k \<and> INS_IsMemoryRead ins"

definition writable :: "ins \<Rightarrow> nat \<Rightarrow> bool" where
  "writable ins k \<longleftrightarrow>
     INS_OperandIsReg ins k \<or> INS_OperandIsMemory ins k \<and> INS_IsMemoryWrite ins"

definition readable_imm :: "ins \<Rightarrow> nat \<Rightarrow> bool" where
  "readable_imm ins k \<longleftrightarrow> readable ins k \<or>
     \<not> INS_OperandIsMemory ins k \<and> INS_OperandIsImmediate ins k"

definition reg_or_imm :: "ins \<Rightarrow> nat \<Rightarrow> bool" where
  "reg_or_imm ins k \<longleftrightarrow> INS_OperandIsReg ins k \<or>
     \<not> INS_OperandIsMemory ins k \<and> INS_OperandIsImmediate ins k"

definition operand_marks :: "execution \<Rightarrow> ins \<Rightarrow> nat \<Rightarrow> taint \<Rightarrow> nat set" where
  "operand_marks x ins k a =
     (if INS_OperandIsReg ins k then marks_of (regs a (INS_OperandReg ins k))
      else if INS_OperandIsMemory ins k
      then mem_marks a (IARG_MEMORYREAD_EA x) (IARG_MEMORYREAD_SIZE x)
      else {})"

definition write_operand :: "execution \<Rightarrow> ins \<Rightarrow> nat \<Rightarrow> nat set \<Rightarrow> taint \<Rightarrow> taint" where
  "write_operand x ins k M a =
     (if INS_OperandIsReg ins k then write_reg (INS_OperandReg ins k) M a
      else write_mem (IARG_MEMORYWRITE_EA x) (IARG_MEMORYWRITE_SIZE x) M a)"

text \<open>What the program's taint is, without the contents of the temporaries.\<close>

definition visible :: "taint \<Rightarrow> taint" where
  "visible a = a\<lparr>tmps := \<lambda>_. {}\<rparr>"

section \<open>Temporaries do not interfere\<close>

lemma set_tmp_sel [engine_simps]:
  "regs (set_tmp s M a) = regs a" "mem (set_tmp s M a) = mem a" "ctl (set_tmp s M a) = ctl a"
  "tmps (set_tmp s M a) t = (if t = s then M else tmps a t)"
  by (simp_all add: set_tmp_def)

lemma control_marks_set_tmp [engine_simps]: "control_marks (set_tmp s M a) = control_marks a"
  by (simp add: control_marks_def engine_simps)

lemma mem_marks_set_tmp [engine_simps]: "mem_marks (set_tmp s M a) b n = mem_marks a b n"
  by (simp add: mem_marks_def engine_simps)

lemma operand_marks_set_tmp [engine_simps]:
  "operand_marks x ins k (set_tmp s M a) = operand_marks x ins k a"
  by (simp add: operand_marks_def engine_simps)

lemma write_reg_set_tmp [engine_simps]:
  "write_reg r N (set_tmp s M a) = set_tmp s M (write_reg r N a)"
  by (rule taint_eqI) (simp_all add: write_reg_def engine_simps)

lemma write_mem_set_tmp [engine_simps]:
  "write_mem b n N (set_tmp s M a) = set_tmp s M (write_mem b n N a)"
  by (rule taint_eqI) (simp_all add: write_mem_def engine_simps)

lemma clear_reg_set_tmp [engine_simps]:
  "clear_reg r (set_tmp s M a) = set_tmp s M (clear_reg r a)"
  by (rule taint_eqI) (simp_all add: clear_reg_def engine_simps)

lemma clear_mem_set_tmp [engine_simps]:
  "clear_mem b n (set_tmp s M a) = set_tmp s M (clear_mem b n a)"
  by (rule taint_eqI) (simp_all add: clear_mem_def engine_simps)

lemma write_operand_set_tmp [engine_simps]:
  "write_operand x ins k N (set_tmp s M a) = set_tmp s M (write_operand x ins k N a)"
  by (simp add: write_operand_def engine_simps)

lemma tmps_write [engine_simps]:
  "tmps (write_reg r N a) = tmps a" "tmps (write_mem b n N a) = tmps a"
  "tmps (clear_reg r a) = tmps a" "tmps (clear_mem b n a) = tmps a"
  "tmps (write_operand x ins k N a) = tmps a"
  by (simp_all add: write_reg_def write_mem_def clear_reg_def clear_mem_def write_operand_def)

lemma visible_set_tmp [engine_simps]: "visible (set_tmp s M a) = visible a"
  by (simp add: visible_def set_tmp_def)

lemma tmp_union_simps [engine_simps]:
  "tmp_union a [] = {}" "tmp_union a (s # ss) = tmps a s \<union> tmp_union a ss"
  by (simp_all add: tmp_union_def)

section \<open>Flow of the fragments\<close>

lemma flow_simps [engine_simps]:
  "flow x [] a = a" "flow x (c # cs) a = flow x cs (flow_call x c a)"
  "flow x (cs @ ds) a = flow x ds (flow x cs a)"
  by (simp_all add: flow_def)

text \<open>A fragment that goes on, with its flow.\<close>

definition carries :: "step \<Rightarrow> (execution \<Rightarrow> taint \<Rightarrow> taint) \<Rightarrow> bool" where
  "carries s f \<longleftrightarrow> (\<exists>cs. s = Go cs \<and> (\<forall>x a. flow x cs a = f x a))"

named_theorems carries_intros \<open>flow of the fragments\<close>

lemma carries_Nil [carries_intros]: "carries (block []) (\<lambda>x a. a)"
  by (simp add: carries_def engine_simps)

lemma carries_seq [carries_intros]:
  "carries s f \<Longrightarrow> carries t g \<Longrightarrow> carries (seq s t) (\<lambda>x a. g x (f x a))"
  by (auto simp: carries_def engine_simps)

lemma carries_Cons [carries_intros]:
  "carries s f \<Longrightarrow> carries (block ss) g \<Longrightarrow> carries (block (s # ss)) (\<lambda>x a. g x (f x a))"
  using carries_seq [of s f "block ss" g] by simp

lemma carries_insert [carries_intros]: "carries (insert_call c) (\<lambda>x. flow_call x c)"
  by (simp add: carries_def insert_call_def engine_simps)

lemma carries_load_reg [carries_intros]:
  "carries (load_reg r s) (\<lambda>x a. set_tmp s (marks_of (regs a r)) a)"
  by (simp add: carries_def load_reg_def insert_call_def engine_simps)

lemma carries_store_reg [carries_intros]:
  "carries (store_reg r ss) (\<lambda>x a. write_reg r (tmp_union a ss) a)"
  by (simp add: carries_def store_reg_def insert_call_def engine_simps)

lemma carries_clear_reg [carries_intros]: "carries (clear_reg_step r) (\<lambda>x. clear_reg r)"
  by (simp add: carries_def clear_reg_step_def insert_call_def engine_simps)

lemma carries_load_rmi [carries_intros]:
  "readable_imm ins k \<Longrightarrow>
    carries (load_rmi ins k s) (\<lambda>x a. set_tmp s (operand_marks x ins k a) a)"
  by (auto simp: carries_def load_rmi_def load_reg_def load_mem_def insert_call_def
      return_unless_def readable_imm_def readable_def operand_marks_def engine_simps)

lemma carries_load_rm [carries_intros]:
  "readable ins k \<Longrightarrow>
    carries (load_rm ins k s) (\<lambda>x a. set_tmp s (operand_marks x ins k a) a)"
  by (auto simp: carries_def load_rm_def load_reg_def load_mem_def insert_call_def
      return_unless_def readable_def operand_marks_def engine_simps)

lemma carries_load_ri [carries_intros]:
  "reg_or_imm ins k \<Longrightarrow>
    carries (load_ri ins k s) (\<lambda>x a. set_tmp s (operand_marks x ins k a) a)"
  by (auto simp: carries_def load_ri_def load_reg_def insert_call_def reg_or_imm_def
      operand_marks_def engine_simps)

lemma carries_store_rm [carries_intros]:
  "writable ins k \<Longrightarrow>
    carries (store_rm ins k ss) (\<lambda>x a. write_operand x ins k (tmp_union a ss) a)"
  by (auto simp: carries_def store_rm_def insert_call_def return_unless_def writable_def
      write_operand_def engine_simps)

text \<open>
  From the flow of a handler's calls to the run of the calls: when the calls' flow ends, up
  to temporaries, in \<open>spec\<close> of the marks before, the run succeeds and ends there too.
\<close>

definition implements ::
  "call list result \<Rightarrow> (execution \<Rightarrow> taint \<Rightarrow> taint) \<Rightarrow> bool" where
  "implements h spec \<longleftrightarrow>
     (\<exists>cs. h = Inr cs \<and> (\<forall>x st. writes_ok x \<and> state_ok st \<longrightarrow>
        (\<exists>st'. run_calls x cs st = Inr st' \<and> state_ok st' \<and>
           visible (abs_state st') = visible (spec x (abs_state st)))))"

lemma implementsI:
  assumes "\<exists>cs. h = Inr cs \<and> (\<forall>x a. visible (flow x cs a) = visible (spec x a))"
  shows "implements h spec"
proof -
  obtain cs where cs: "h = Inr cs" "\<And>x a. visible (flow x cs a) = visible (spec x a)"
    using assms by blast
  have "\<exists>st'. run_calls x cs st = Inr st' \<and> state_ok st' \<and>
      visible (abs_state st') = visible (spec x (abs_state st))"
    if "writes_ok x" "state_ok st" for x st
    using run_calls_ok [OF that, of cs] cs(2) by metis
  then show ?thesis using cs(1) by (auto simp: implements_def)
qed

lemma implements_handler:
  assumes "carries (block ss) f" "\<And>x a. visible (f x a) = visible (spec x a)"
  shows "implements (handler ss) spec"
  using assms by (intro implementsI) (auto simp: carries_def handler_def)

text \<open>The marks after a run, read off an implemented specification.\<close>

lemma implements_run:
  assumes "implements h spec" "writes_ok x" "state_ok st"
  shows "\<exists>cs st'. h = Inr cs \<and> run_calls x cs st = Inr st' \<and> state_ok st' \<and>
    regs (abs_state st') = regs (spec x (abs_state st)) \<and>
    mem (abs_state st') = mem (spec x (abs_state st)) \<and>
    ctl (abs_state st') = ctl (spec x (abs_state st))"
proof -
  obtain cs st' where *: "h = Inr cs" "run_calls x cs st = Inr st'" "state_ok st'"
      "visible (abs_state st') = visible (spec x (abs_state st))"
    using assms unfolding implements_def by blast
  from *(4) have "regs (visible (abs_state st')) = regs (visible (spec x (abs_state st)))"
    "mem (visible (abs_state st')) = mem (visible (spec x (abs_state st)))"
    "ctl (visible (abs_state st')) = ctl (visible (spec x (abs_state st)))"
    by simp_all
  then have "regs (abs_state st') = regs (spec x (abs_state st))"
    "mem (abs_state st') = mem (spec x (abs_state st))"
    "ctl (abs_state st') = ctl (spec x (abs_state st))"
    by (simp_all add: visible_def)
  with * show ?thesis by blast
qed

section \<open>Example instructions\<close>

text \<open>An instruction with the given register operands, and one that stores to memory.\<close>

definition register_ins :: "nat \<Rightarrow> reg list \<Rightarrow> ins" where
  "register_ins w rs =
     \<lparr>INS_Opcode = [], INS_OperandIsReg = (\<lambda>k. k < length rs),
      INS_OperandIsMemory = (\<lambda>_. False), INS_OperandIsImmediate = (\<lambda>_. False),
      INS_OperandReg = (\<lambda>k. if k < length rs then rs ! k else REG_INVALID),
      INS_OperandMemoryBaseReg = (\<lambda>_. REG_INVALID), INS_OperandMemoryIndexReg = (\<lambda>_. REG_INVALID),
      INS_OperandWidth = (\<lambda>_. w), INS_OperandCount = length rs,
      INS_OperandIsImplicit = (\<lambda>_. False), INS_IsMemoryRead = False, INS_IsMemoryWrite = False,
      INS_HasRealRep = False, INS_RepPrefix = False, INS_RepnePrefix = False\<rparr>"

definition store_ins :: "reg \<Rightarrow> ins" where
  "store_ins r =
     (register_ins 64 [REG_INVALID, r])\<lparr>INS_OperandIsReg := (\<lambda>k. k = 1),
        INS_OperandIsMemory := (\<lambda>k. k = 0), INS_IsMemoryRead := True, INS_IsMemoryWrite := True\<rparr>"

text \<open>An execution that reads and writes the eight bytes at one address.\<close>

definition at_address :: "addrint \<Rightarrow> execution" where
  "at_address a =
     \<lparr>IARG_MEMORYREAD_EA = a, IARG_MEMORYREAD2_EA = a, IARG_MEMORYREAD_SIZE = 8,
      IARG_MEMORYWRITE_EA = a, IARG_MEMORYWRITE_SIZE = 8,
      IARG_REG_VALUE = (\<lambda>_. 0), deref_ADDRINT = (\<lambda>_. 0)\<rparr>"

lemma writes_ok_at_address: "writes_ok (at_address a)"
  by (simp add: writes_ok_def at_address_def)

lemma register_ins_simps [simp]:
  "INS_OperandIsReg (register_ins w rs) k \<longleftrightarrow> k < length rs"
  "INS_OperandIsMemory (register_ins w rs) k \<longleftrightarrow> False"
  "k < length rs \<Longrightarrow> INS_OperandReg (register_ins w rs) k = rs ! k"
  "INS_OperandWidth (register_ins w rs) k = w"
  "INS_OperandCount (register_ins w rs) = length rs"
  "INS_OperandIsImplicit (register_ins w rs) k \<longleftrightarrow> False"
  by (simp_all add: register_ins_def)

lemma register_ins_operands [simp]:
  "k < length rs \<Longrightarrow> readable (register_ins w rs) k"
  "k < length rs \<Longrightarrow> writable (register_ins w rs) k"
  "k < length rs \<Longrightarrow> readable_imm (register_ins w rs) k"
  "k < length rs \<Longrightarrow> reg_or_imm (register_ins w rs) k"
  by (simp_all add: readable_def writable_def readable_imm_def reg_or_imm_def)

lemma store_ins_operands [simp]:
  "readable (store_ins r) 0" "writable (store_ins r) 0" "readable (store_ins r) (Suc 0)"
  "readable_imm (store_ins r) (Suc 0)" "reg_or_imm (store_ins r) (Suc 0)"
  by (simp_all add: store_ins_def readable_def writable_def readable_imm_def reg_or_imm_def)

end
