(* ===== verification/Instrument_Arith.thy ===== *)
theory Instrument_Arith
  imports Handler_Steps
begin

text \<open>
  The handlers of \<open>src/instrument_functions.c\<close> for arithmetic, logic, shifts and
  comparisons (64-bit build, \<open>IMPLICIT\<close> off), and the taint each moves.
\<close>

section \<open>Handlers\<close>

definition Instrument_ADD :: "ins \<Rightarrow> call list result" where
  "Instrument_ADD ins = handler
     [load_rm ins 0 Dest, load_rmi ins 1 Src,
      store_rm ins 0 [Dest, Src],
      store_reg REG_RFLAGS [Dest, Src]]"

definition Instrument_AND :: "ins \<Rightarrow> call list result" where
  "Instrument_AND ins = Instrument_ADD ins"

definition Instrument_OR :: "ins \<Rightarrow> call list result" where
  "Instrument_OR ins = Instrument_AND ins"

definition Instrument_ADC :: "ins \<Rightarrow> call list result" where
  "Instrument_ADC ins = handler
     [load_rm ins 0 Dest, load_rmi ins 1 Src,
      load_reg REG_RFLAGS Eflags,
      store_rm ins 0 [Dest, Src, Eflags],
      store_reg REG_RFLAGS [Dest, Src, Eflags]]"

definition Instrument_SBB :: "ins \<Rightarrow> call list result" where
  "Instrument_SBB ins = Instrument_ADC ins"

definition Instrument_SUB :: "ins \<Rightarrow> call list result" where
  "Instrument_SUB ins = Instrument_ADD ins"

definition same_register :: "ins \<Rightarrow> bool" where
  "same_register ins \<longleftrightarrow>
     INS_OperandIsReg ins 0 \<and> INS_OperandIsReg ins 1 \<and>
     INS_OperandReg ins 0 = INS_OperandReg ins 1"

definition Instrument_XOR :: "ins \<Rightarrow> call list result" where
  "Instrument_XOR ins = handler
     [load_rm ins 0 Dest, load_rmi ins 1 Src,
      (if same_register ins then clear_reg_step (INS_OperandReg ins 0)
       else store_rm ins 0 [Dest, Src]),
      store_reg REG_RFLAGS [Dest, Src]]"

definition Instrument_CMP :: "ins \<Rightarrow> call list result" where
  "Instrument_CMP ins = handler
     [load_rm ins 0 Dest, load_rmi ins 1 Src, store_reg REG_RFLAGS [Dest, Src]]"

definition Instrument_DEC :: "ins \<Rightarrow> call list result" where
  "Instrument_DEC ins = handler [load_rm ins 0 Dest, store_reg REG_RFLAGS [Dest]]"

definition Instrument_INC :: "ins \<Rightarrow> call list result" where
  "Instrument_INC ins = Instrument_DEC ins"

text \<open>The registers and temporaries of \<open>MUL\<close>, \<open>DIV\<close> and \<open>IDIV\<close>, by operand width.\<close>

definition mul_registers :: "nat \<Rightarrow> (reg \<times> reg \<times> reg \<times> slot) option" where
  "mul_registers w =
     (if w = 32 then Some (REG_EAX, REG_EDX, REG_EFLAGS, Eax)
      else if w = 64 then Some (REG_RAX, REG_RDX, REG_RFLAGS, Rax)
      else None)"

definition Instrument_MUL :: "ins \<Rightarrow> call list result" where
  "Instrument_MUL ins =
     (case mul_registers (INS_OperandWidth ins 0) of
        None \<Rightarrow> Inl Abort_Called
      | Some (reg_ax, reg_dx, reg_flags, ax) \<Rightarrow> handler
          [load_rm ins 0 Src,
           load_reg reg_ax ax,
           store_reg reg_ax [ax, Src],
           store_reg reg_dx [ax, Src],
           store_reg reg_flags [ax, Src]])"

definition operand_count :: "ins \<Rightarrow> nat" where
  "operand_count ins = length (filter (\<lambda>i. \<not> INS_OperandIsImplicit ins i) [0..<INS_OperandCount ins])"

text \<open>A register source loads operand 0, as the source does.\<close>

definition imul_source :: "ins \<Rightarrow> step \<Rightarrow> step" where
  "imul_source ins otherwise =
     (if INS_OperandIsReg ins 1 then load_reg (INS_OperandReg ins 0) Src
      else if INS_OperandIsMemory ins 1 then load_mem ins 1 Src
      else otherwise)"

definition Instrument_IMUL :: "ins \<Rightarrow> call list result" where
  "Instrument_IMUL ins =
     (if operand_count ins = 1 then Instrument_MUL ins
      else if operand_count ins = 2 then handler
        [load_reg (INS_OperandReg ins 0) Dest,
         imul_source ins
           (if INS_OperandIsImmediate ins 1 then insert_call (Call_ClearTaintSet Src)
            else abort_step),
         store_reg (INS_OperandReg ins 0) [Dest, Src],
         store_reg REG_RFLAGS [Dest, Src]]
      else if operand_count ins = 3 then handler
        [load_reg (INS_OperandReg ins 0) Dest,
         imul_source ins abort_step,
         store_reg (INS_OperandReg ins 0) [Dest, Src],
         store_reg REG_RFLAGS [Dest, Src]]
      else Inl Abort_Called)"

definition Instrument_TEST :: "ins \<Rightarrow> call list result" where
  "Instrument_TEST ins = handler
     [load_rm ins 0 Dest, load_ri ins 1 Src, store_reg REG_RFLAGS [Dest, Src]]"

definition div_slots :: "nat \<Rightarrow> slot \<times> slot" where
  "div_slots w = (if w = 32 then (Eax, Edx) else (Rax, Rdx))"

definition Instrument_DIV :: "ins \<Rightarrow> call list result" where
  "Instrument_DIV ins =
     (case mul_registers (INS_OperandWidth ins 0) of
        None \<Rightarrow> Inl Abort_Called
      | Some (reg_ax, reg_dx, reg_flags, _) \<Rightarrow>
          (let (ax, dx) = div_slots (INS_OperandWidth ins 0) in handler
            [load_rm ins 0 Src,
             load_reg reg_ax ax, load_reg reg_dx dx,
             store_reg reg_ax [ax, dx, Src],
             store_reg reg_dx [ax, dx, Src],
             clear_reg_step reg_flags]))"

definition Instrument_IDIV :: "ins \<Rightarrow> call list result" where
  "Instrument_IDIV ins =
     (case mul_registers (INS_OperandWidth ins 0) of
        None \<Rightarrow> Inl Abort_Called
      | Some (reg_ax, reg_dx, reg_flags, _) \<Rightarrow>
          (let (ax, dx) = div_slots (INS_OperandWidth ins 0) in handler
            [load_rm ins 0 Src,
             load_reg reg_dx dx, load_reg reg_ax ax,
             store_reg reg_ax [ax, dx, Src],
             store_reg reg_dx [ax, dx, Src],
             clear_reg_step reg_flags]))"

definition Instrument_NEG :: "ins \<Rightarrow> call list result" where
  "Instrument_NEG ins = handler [load_rm ins 0 Dest, store_reg REG_RFLAGS [Dest]]"

definition Instrument_SAR :: "ins \<Rightarrow> call list result" where
  "Instrument_SAR ins = handler
     [load_rm ins 0 Dest, load_ri ins 1 Cnt,
      store_rm ins 0 [Dest, Cnt],
      store_reg REG_RFLAGS [Dest, Cnt]]"

definition Instrument_SHL :: "ins \<Rightarrow> call list result" where
  "Instrument_SHL ins = Instrument_SAR ins"

definition Instrument_SHR :: "ins \<Rightarrow> call list result" where
  "Instrument_SHR ins = Instrument_SAR ins"

text \<open>Operand 1 goes into \<open>cnt\<close>; a register count loads operand 0, as the source does.\<close>

definition Instrument_SHLD :: "ins \<Rightarrow> call list result" where
  "Instrument_SHLD ins = handler
     [load_rm ins 0 Dest,
      load_reg (INS_OperandReg ins 1) Cnt,
      (if INS_OperandIsReg ins 2 then load_reg (INS_OperandReg ins 0) Src
       else if INS_OperandIsImmediate ins 2 then insert_call (Call_ClearTaintSet Src)
       else abort_step),
      store_rm ins 0 [Dest, Src, Cnt],
      store_reg REG_RFLAGS [Dest, Src, Cnt]]"

definition Instrument_SHRD :: "ins \<Rightarrow> call list result" where
  "Instrument_SHRD ins = Instrument_SHLD ins"

section \<open>Taint of arithmetic\<close>

text \<open>The operands' shapes that the handler of a two-operand instruction carries through.\<close>

definition alu_operands :: "ins \<Rightarrow> bool" where
  "alu_operands ins \<longleftrightarrow> readable ins 0 \<and> writable ins 0 \<and> readable_imm ins 1"

lemma alu_operandsD:
  assumes "alu_operands ins"
  shows "readable ins 0" "writable ins 0" "readable_imm ins 1"
  using assms by (simp_all add: alu_operands_def)

lemma Instrument_ADD_implements:
  assumes "alu_operands ins"
  shows "implements (Instrument_ADD ins) (\<lambda>x a.
    let M = operand_marks x ins 0 a \<union> operand_marks x ins 1 a in
    write_reg REG_RFLAGS M (write_operand x ins 0 M a))"
  unfolding Instrument_ADD_def
  by (rule implements_handler, (rule carries_intros alu_operandsD [OF assms])+)
    (simp add: engine_simps Let_def)

text \<open>
  C20: addition, subtraction and bitwise and/or give the destination operand and the flags
  the union of the marks of both operands (and of the pending branches), for register,
  memory and immediate operands alike, and change no other mark.
\<close>

theorem Instrument_ADD_flow:
  assumes "alu_operands ins" "h \<in> {Instrument_ADD, Instrument_SUB, Instrument_AND, Instrument_OR}"
  shows "implements (h ins) (\<lambda>x a.
    let M = operand_marks x ins 0 a \<union> operand_marks x ins 1 a in
    write_reg REG_RFLAGS M (write_operand x ins 0 M a))"
proof -
  have h: "h ins = Instrument_ADD ins"
    using assms(2) by (auto simp: Instrument_SUB_def Instrument_AND_def Instrument_OR_def)
  show ?thesis unfolding h by (rule Instrument_ADD_implements [OF assms(1)])
qed

theorem Instrument_ADD_flow_witness:
  "implements (Instrument_SUB (register_ins 32 [REG_EAX, REG_EBX])) (\<lambda>x a.
    let M = operand_marks x (register_ins 32 [REG_EAX, REG_EBX]) 0 a \<union>
      operand_marks x (register_ins 32 [REG_EAX, REG_EBX]) 1 a in
    write_reg REG_RFLAGS M (write_operand x (register_ins 32 [REG_EAX, REG_EBX]) 0 M a))"
  by (rule Instrument_ADD_flow) (simp_all add: alu_operands_def)

text \<open>
  Addition and subtraction with carry give the destination and the flags the union of
  the marks of both operands and of the flags.
\<close>

theorem Instrument_ADC_flow:
  assumes "alu_operands ins" "h \<in> {Instrument_ADC, Instrument_SBB}"
  shows "implements (h ins) (\<lambda>x a.
    let M = operand_marks x ins 0 a \<union> operand_marks x ins 1 a \<union> marks_of (regs a REG_RFLAGS) in
    write_reg REG_RFLAGS M (write_operand x ins 0 M a))"
proof -
  have h: "h ins = Instrument_ADC ins"
    using assms(2) by (auto simp: Instrument_SBB_def)
  show ?thesis
    unfolding h Instrument_ADC_def
    by (rule implements_handler, (rule carries_intros alu_operandsD [OF assms(1)])+)
      (simp add: engine_simps Let_def Un_assoc)
qed

theorem Instrument_ADC_flow_witness:
  "implements (Instrument_ADC (store_ins REG_RAX)) (\<lambda>x a.
    let M = operand_marks x (store_ins REG_RAX) 0 a \<union> operand_marks x (store_ins REG_RAX) 1 a \<union>
      marks_of (regs a REG_RFLAGS) in
    write_reg REG_RFLAGS M (write_operand x (store_ins REG_RAX) 0 M a))"
  by (rule Instrument_ADC_flow) (simp_all add: alu_operands_def)

lemma Instrument_XOR_carries:
  assumes "alu_operands ins"
  shows "implements (Instrument_XOR ins) (\<lambda>x a.
    let M = operand_marks x ins 0 a \<union> operand_marks x ins 1 a in
    write_reg REG_RFLAGS M
      (if same_register ins then clear_reg (INS_OperandReg ins 0) a
       else write_operand x ins 0 M a))"
proof (cases "same_register ins")
  case True
  then show ?thesis
    unfolding Instrument_XOR_def
    by (simp only: if_True) (rule implements_handler,
      (rule carries_intros alu_operandsD [OF assms])+, simp add: engine_simps Let_def)
next
  case False
  then show ?thesis
    unfolding Instrument_XOR_def
    by (simp only: if_False) (rule implements_handler,
      (rule carries_intros alu_operandsD [OF assms])+, simp add: engine_simps Let_def)
qed

text \<open>
  C21: exclusive or moves taint like addition, except that a register combined with itself
  loses its own marks (it keeps those of the pending branches); the flags get its old marks.
  Subtraction of a register from itself is not treated so: it is instrumented as an addition.
\<close>

theorem Instrument_XOR_flow:
  assumes "alu_operands ins"
  shows "implements (Instrument_XOR ins) (\<lambda>x a.
    let M = operand_marks x ins 0 a \<union> operand_marks x ins 1 a in
    write_reg REG_RFLAGS M
      (if INS_OperandIsReg ins 0 \<and> INS_OperandIsReg ins 1 \<and>
          INS_OperandReg ins 0 = INS_OperandReg ins 1
       then clear_reg (INS_OperandReg ins 0) a
       else write_operand x ins 0 M a))"
  using assms by (rule Instrument_XOR_carries [unfolded same_register_def])

theorem Instrument_XOR_flow_witness:
  "implements (Instrument_XOR (register_ins 32 [REG_EAX, REG_EAX])) (\<lambda>x a.
    write_reg REG_RFLAGS (marks_of (regs a REG_EAX)) (clear_reg REG_EAX a))"
  using Instrument_XOR_flow [of "register_ins 32 [REG_EAX, REG_EAX]"]
  by (simp add: alu_operands_def operand_marks_def Let_def)

text \<open>
  Comparisons give the flags the union of the marks of their operands and change
  nothing else.
\<close>

theorem Instrument_CMP_flow:
  assumes "readable ins 0"
    and "h = Instrument_CMP \<and> readable_imm ins 1 \<or> h = Instrument_TEST \<and> reg_or_imm ins 1"
  shows "implements (h ins) (\<lambda>x a.
    write_reg REG_RFLAGS (operand_marks x ins 0 a \<union> operand_marks x ins 1 a) a)"
  using assms(2)
proof (elim disjE conjE)
  assume h: "h = Instrument_CMP" and ok: "readable_imm ins 1"
  show ?thesis
    unfolding h Instrument_CMP_def
    by (rule implements_handler, (rule carries_intros assms(1) ok)+) (simp add: engine_simps)
next
  assume h: "h = Instrument_TEST" and ok: "reg_or_imm ins 1"
  show ?thesis
    unfolding h Instrument_TEST_def
    by (rule implements_handler, (rule carries_intros assms(1) ok)+) (simp add: engine_simps)
qed

theorem Instrument_CMP_flow_witness:
  "implements (Instrument_TEST (store_ins REG_RAX)) (\<lambda>x a.
    write_reg REG_RFLAGS
      (operand_marks x (store_ins REG_RAX) 0 a \<union> operand_marks x (store_ins REG_RAX) 1 a) a)"
  by (rule Instrument_CMP_flow) simp_all

text \<open>
  Increment, decrement and negation keep the operand's marks and give them to the flags.
\<close>

theorem Instrument_DEC_flow:
  assumes "readable ins 0" "h \<in> {Instrument_INC, Instrument_DEC, Instrument_NEG}"
  shows "implements (h ins) (\<lambda>x a. write_reg REG_RFLAGS (operand_marks x ins 0 a) a)"
proof -
  have h: "h ins = handler [load_rm ins 0 Dest, store_reg REG_RFLAGS [Dest]]"
    using assms(2) by (auto simp: Instrument_INC_def Instrument_DEC_def Instrument_NEG_def)
  show ?thesis
    unfolding h
    by (rule implements_handler, (rule carries_intros assms(1))+) (simp add: engine_simps)
qed

theorem Instrument_DEC_flow_witness:
  "implements (Instrument_INC (store_ins REG_RAX)) (\<lambda>x a.
    write_reg REG_RFLAGS (operand_marks x (store_ins REG_RAX) 0 a) a)"
  by (rule Instrument_DEC_flow) simp_all

lemma mul_registers_simps:
  "mul_registers 32 = Some (REG_EAX, REG_EDX, REG_EFLAGS, Eax)"
  "mul_registers 64 = Some (REG_RAX, REG_RDX, REG_RFLAGS, Rax)"
  by (simp_all add: mul_registers_def)

lemma mul_registers_width: "mul_registers w = Some p \<Longrightarrow> w = 32 \<or> w = 64"
  by (auto simp: mul_registers_def split: if_splits)

text \<open>
  Multiplication of the accumulator gives both halves of the product, and the flags
  register of the operand's width, the union of the marks of the accumulator and of the
  operand; the widths other than 32 and 64 stop the tool.
\<close>

theorem Instrument_MUL_flow:
  assumes "readable ins 0"
    and "mul_registers (INS_OperandWidth ins 0) = Some (ax, dx, fl, s)"
  shows "implements (Instrument_MUL ins) (\<lambda>x a.
    let M = marks_of (regs a ax) \<union> operand_marks x ins 0 a in
    write_reg fl M (write_reg dx M (write_reg ax M a)))"
proof -
  have s: "s \<noteq> Src" using assms(2) by (auto simp: mul_registers_def split: if_splits)
  have h: "Instrument_MUL ins = handler
      [load_rm ins 0 Src, load_reg ax s, store_reg ax [s, Src], store_reg dx [s, Src],
       store_reg fl [s, Src]]"
    by (simp add: Instrument_MUL_def assms(2))
  show ?thesis
    unfolding h
    by (rule implements_handler, (rule carries_intros assms(1))+)
      (use s in \<open>simp add: engine_simps Let_def\<close>)
qed

theorem Instrument_MUL_flow_witness:
  "implements (Instrument_MUL (register_ins 32 [REG_EBX])) (\<lambda>x a.
    let M = marks_of (regs a REG_EAX) \<union> operand_marks x (register_ins 32 [REG_EBX]) 0 a in
    write_reg REG_EFLAGS M (write_reg REG_EDX M (write_reg REG_EAX M a)))"
  by (rule Instrument_MUL_flow [where s = Eax]) (simp_all add: mul_registers_simps)

text \<open>
  Division gives the quotient and the remainder register the union of the marks of
  both halves of the dividend and of the divisor, and takes the marks off the flags.
\<close>

theorem Instrument_DIV_flow:
  assumes "readable ins 0"
    and "mul_registers (INS_OperandWidth ins 0) = Some (ax, dx, fl, s)"
    and "h \<in> {Instrument_DIV, Instrument_IDIV}"
  shows "implements (h ins) (\<lambda>x a.
    let M = marks_of (regs a ax) \<union> marks_of (regs a dx) \<union> operand_marks x ins 0 a in
    clear_reg fl (write_reg dx M (write_reg ax M a)))"
proof -
  obtain p q where pq: "div_slots (INS_OperandWidth ins 0) = (p, q)" "p \<noteq> q" "p \<noteq> Src" "q \<noteq> Src"
    by (cases "INS_OperandWidth ins 0 = 32") (auto simp: div_slots_def)
  have "h = Instrument_DIV \<or> h = Instrument_IDIV" using assms(3) by auto
  then show ?thesis
  proof
    assume h: "h = Instrument_DIV"
    have d: "Instrument_DIV ins = handler
        [load_rm ins 0 Src, load_reg ax p, load_reg dx q, store_reg ax [p, q, Src],
         store_reg dx [p, q, Src], clear_reg_step fl]"
      by (simp add: Instrument_DIV_def assms(2) pq(1))
    show ?thesis
      unfolding h d
      by (rule implements_handler, (rule carries_intros assms(1))+)
        (use pq(2-4) in \<open>simp add: engine_simps Let_def Un_assoc\<close>)
  next
    assume h: "h = Instrument_IDIV"
    have d: "Instrument_IDIV ins = handler
        [load_rm ins 0 Src, load_reg dx q, load_reg ax p, store_reg ax [p, q, Src],
         store_reg dx [p, q, Src], clear_reg_step fl]"
      by (simp add: Instrument_IDIV_def assms(2) pq(1))
    show ?thesis
      unfolding h d
      by (rule implements_handler, (rule carries_intros assms(1))+)
        (use pq(2-4) in \<open>simp add: engine_simps Let_def Un_assoc\<close>)
  qed
qed

theorem Instrument_DIV_flow_witness:
  "implements (Instrument_IDIV (register_ins 64 [REG_OTHER 3])) (\<lambda>x a.
    let M = marks_of (regs a REG_RAX) \<union> marks_of (regs a REG_RDX) \<union>
      operand_marks x (register_ins 64 [REG_OTHER 3]) 0 a in
    clear_reg REG_RFLAGS (write_reg REG_RDX M (write_reg REG_RAX M a)))"
  by (rule Instrument_DIV_flow [where s = Rax]) (simp_all add: mul_registers_simps)

text \<open>
  Shifts and arithmetic shifts give the operand and the flags the union of the marks of
  the operand and of the count.
\<close>

theorem Instrument_SAR_flow:
  assumes "readable ins 0" "writable ins 0" "reg_or_imm ins 1"
    and "h \<in> {Instrument_SAR, Instrument_SHL, Instrument_SHR}"
  shows "implements (h ins) (\<lambda>x a.
    let M = operand_marks x ins 0 a \<union> operand_marks x ins 1 a in
    write_reg REG_RFLAGS M (write_operand x ins 0 M a))"
proof -
  have h: "h ins = Instrument_SAR ins"
    using assms(4) by (auto simp: Instrument_SHL_def Instrument_SHR_def)
  show ?thesis
    unfolding h Instrument_SAR_def
    by (rule implements_handler, (rule carries_intros assms(1-3))+)
      (simp add: engine_simps Let_def)
qed

theorem Instrument_SAR_flow_witness:
  "implements (Instrument_SHR (register_ins 32 [REG_EBX, REG_CL])) (\<lambda>x a.
    let M = operand_marks x (register_ins 32 [REG_EBX, REG_CL]) 0 a \<union>
      operand_marks x (register_ins 32 [REG_EBX, REG_CL]) 1 a in
    write_reg REG_RFLAGS M (write_operand x (register_ins 32 [REG_EBX, REG_CL]) 0 M a))"
  by (rule Instrument_SAR_flow) simp_all

text \<open>
  The two- and three-operand multiplication of registers loads the destination in place
  of the source register: the destination and the flags keep the destination's own marks
  and the marks of the source register are lost.
\<close>

theorem Instrument_IMUL_drops_register_source:
  assumes "operand_count ins = 2 \<or> operand_count ins = 3" "INS_OperandIsReg ins 1"
  shows "implements (Instrument_IMUL ins) (\<lambda>x a.
    let M = marks_of (regs a (INS_OperandReg ins 0)) in
    write_reg REG_RFLAGS M (write_reg (INS_OperandReg ins 0) M a))"
proof -
  let ?r = "INS_OperandReg ins 0"
  have h: "Instrument_IMUL ins = handler
      [load_reg ?r Dest, load_reg ?r Src, store_reg ?r [Dest, Src], store_reg REG_RFLAGS [Dest, Src]]"
    using assms by (auto simp: Instrument_IMUL_def imul_source_def)
  show ?thesis
    unfolding h
    by (rule implements_handler, (rule carries_intros)+) (simp add: engine_simps Let_def)
qed

theorem Instrument_IMUL_drops_register_source_witness:
  "implements (Instrument_IMUL (register_ins 32 [REG_EAX, REG_EBX])) (\<lambda>x a.
    let M = marks_of (regs a (INS_OperandReg (register_ins 32 [REG_EAX, REG_EBX]) 0)) in
    write_reg REG_RFLAGS M
      (write_reg (INS_OperandReg (register_ins 32 [REG_EAX, REG_EBX]) 0) M a))"
  by (rule Instrument_IMUL_drops_register_source) (simp_all add: operand_count_def)

text \<open>
  A double-precision shift by a register gives the destination and the flags the marks
  of the destination and of the second operand; the marks of the count register are lost.
\<close>

theorem Instrument_SHLD_drops_count:
  assumes "INS_OperandIsReg ins 0" "INS_OperandIsReg ins 2"
    and "h \<in> {Instrument_SHLD, Instrument_SHRD}"
  shows "implements (h ins) (\<lambda>x a.
    let M = marks_of (regs a (INS_OperandReg ins 0)) \<union> marks_of (regs a (INS_OperandReg ins 1)) in
    write_reg REG_RFLAGS M (write_reg (INS_OperandReg ins 0) M a))"
proof -
  let ?r = "INS_OperandReg ins 0"
  have h: "h ins = handler
      [load_reg ?r Dest, load_reg (INS_OperandReg ins 1) Cnt, load_reg ?r Src,
       store_reg ?r [Dest, Src, Cnt], store_reg REG_RFLAGS [Dest, Src, Cnt]]"
    using assms by (auto simp: Instrument_SHRD_def Instrument_SHLD_def load_rm_def store_rm_def
        store_reg_def)
  show ?thesis
    unfolding h
    by (rule implements_handler, (rule carries_intros)+) (simp add: engine_simps Let_def)
qed

theorem Instrument_SHLD_drops_count_witness:
  "implements (Instrument_SHLD (register_ins 32 [REG_EAX, REG_EBX, REG_CL])) (\<lambda>x a.
    let M = marks_of (regs a (INS_OperandReg (register_ins 32 [REG_EAX, REG_EBX, REG_CL]) 0)) \<union>
      marks_of (regs a (INS_OperandReg (register_ins 32 [REG_EAX, REG_EBX, REG_CL]) 1)) in
    write_reg REG_RFLAGS M
      (write_reg (INS_OperandReg (register_ins 32 [REG_EAX, REG_EBX, REG_CL]) 0) M a))"
  by (rule Instrument_SHLD_drops_count) simp_all

end
