(* ===== verification/Instrument_Move.thy ===== *)
theory Instrument_Move
  imports Instrument_Arith
begin

text \<open>
  The handlers of \<open>src/instrument_functions.c\<close> for data movement, strings, flags and
  exchanges, the handlers that insert nothing, and the taint each moves.
\<close>

section \<open>Stack and moves\<close>

definition write_mem_step :: "ins \<Rightarrow> slot list \<Rightarrow> step" where
  "write_mem_step ins ss =
     seq (return_unless (INS_IsMemoryWrite ins)) (insert_call (Call_SetTaintForMemory ss))"

definition read_mem_step :: "ins \<Rightarrow> read_ea \<Rightarrow> reg \<Rightarrow> slot \<Rightarrow> step" where
  "read_mem_step ins ea b s =
     seq (return_unless (INS_IsMemoryRead ins)) (insert_call (Call_TaintForMemory ea b REG_INVALID s))"

definition Instrument_PUSH :: "ins \<Rightarrow> call list result" where
  "Instrument_PUSH ins = handler [load_rmi ins 0 Src, write_mem_step ins [Src]]"

definition Instrument_POP :: "ins \<Rightarrow> call list result" where
  "Instrument_POP ins = handler
     [read_mem_step ins MEMORYREAD_EA REG_INVALID Src, store_rm ins 0 [Src]]"

definition Instrument_XCHG :: "ins \<Rightarrow> call list result" where
  "Instrument_XCHG ins = handler
     [load_rm ins 0 Dest, load_rm ins 1 Src, store_rm ins 0 [Src], store_rm ins 1 [Dest]]"

definition Instrument_MOV :: "ins \<Rightarrow> call list result" where
  "Instrument_MOV ins = handler [load_rmi ins 1 Src, store_rm ins 0 [Src]]"

definition Instrument_MOVDQU :: "ins \<Rightarrow> call list result" where
  "Instrument_MOVDQU ins = handler [load_rm ins 1 Src, store_rm ins 0 [Src]]"

definition Instrument_LDDQU :: "ins \<Rightarrow> call list result" where
  "Instrument_LDDQU ins = handler
     [(if INS_OperandIsMemory ins 1 then load_mem ins 1 Src else abort_step),
      (if INS_OperandIsReg ins 0 then store_reg (INS_OperandReg ins 0) [Src] else abort_step)]"

definition Instrument_LEA :: "ins \<Rightarrow> call list result" where
  "Instrument_LEA ins = handler
     [load_reg (INS_OperandMemoryBaseReg ins 1) Base,
      load_reg (INS_OperandMemoryIndexReg ins 1) Idx,
      store_reg (INS_OperandReg ins 0) [Base, Idx]]"

definition Instrument_CWDE :: "ins \<Rightarrow> call list result" where
  "Instrument_CWDE ins = handler [load_reg REG_AX Dest, store_reg REG_EAX [Dest]]"

definition Instrument_CDQ :: "ins \<Rightarrow> call list result" where
  "Instrument_CDQ ins =
     (if INS_OperandWidth ins 0 = 32 then handler [load_reg REG_EAX Eax, store_reg REG_EDX [Eax]]
      else if INS_OperandWidth ins 0 = 64
      then handler [load_reg REG_RAX Rax, store_reg REG_RDX [Rax]]
      else Inl Abort_Called)"

definition Instrument_MOVZX :: "ins \<Rightarrow> call list result" where
  "Instrument_MOVZX ins = Instrument_MOV ins"

definition Instrument_MOVSX :: "ins \<Rightarrow> call list result" where
  "Instrument_MOVSX ins = Instrument_MOV ins"

section \<open>Flags\<close>

definition Instrument_PUSHFD :: "ins \<Rightarrow> call list result" where
  "Instrument_PUSHFD ins = handler
     [load_reg REG_RFLAGS Src, insert_call (Call_SetTaintForMemory [Src])]"

text \<open>The second call loads the flags' marks; no call stores any into the flags.\<close>

definition Instrument_POPFD :: "ins \<Rightarrow> call list result" where
  "Instrument_POPFD ins = handler
     [read_mem_step ins MEMORYREAD_EA REG_INVALID Src, load_reg REG_RFLAGS Src]"

definition Instrument_CLD :: "ins \<Rightarrow> call list result" where
  "Instrument_CLD ins = handler [clear_reg_step REG_RFLAGS]"

definition Instrument_STD :: "ins \<Rightarrow> call list result" where
  "Instrument_STD ins = handler [clear_reg_step REG_RFLAGS]"

text \<open>The memory case stores the temporary \<open>base\<close>, into which no call of the handler loads.\<close>

definition Instrument_SETcc :: "ins \<Rightarrow> call list result" where
  "Instrument_SETcc ins = handler
     [load_reg REG_RFLAGS Src,
      (if INS_OperandIsReg ins 0 then store_reg (INS_OperandReg ins 0) [Src]
       else if INS_OperandIsMemory ins 0 then write_mem_step ins [Base]
       else abort_step)]"

section \<open>Strings\<close>

text \<open>Both loads of \<open>MOVS\<close> use the first read address.\<close>

definition Instrument_MOVS :: "ins \<Rightarrow> call list result" where
  "Instrument_MOVS ins = handler
     ([insert_call (Call_TaintForMemory MEMORYREAD_EA REG_ESI REG_INVALID Dest),
       insert_call (Call_TaintForMemory MEMORYREAD_EA REG_EDI REG_INVALID Src)] @
      (if INS_HasRealRep ins
       then [load_reg REG_ECX Cnt, insert_call (Call_SetTaintForMemory [Src, Dest, Cnt])]
       else [insert_call (Call_SetTaintForMemory [Src, Dest])]))"

definition Instrument_MOVSB :: "ins \<Rightarrow> call list result" where
  "Instrument_MOVSB ins = Instrument_MOVS ins"

definition Instrument_MOVSD :: "ins \<Rightarrow> call list result" where
  "Instrument_MOVSD ins = Instrument_MOVS ins"

definition Instrument_MOVSW :: "ins \<Rightarrow> call list result" where
  "Instrument_MOVSW ins = Instrument_MOVS ins"

definition Instrument_CMPSB :: "ins \<Rightarrow> call list result" where
  "Instrument_CMPSB ins = handler
     [read_mem_step ins MEMORYREAD_EA REG_EDI Dest,
      read_mem_step ins MEMORYREAD2_EA REG_ESI Src,
      store_reg REG_RFLAGS [Dest, Src]]"

definition Instrument_STOSB :: "ins \<Rightarrow> call list result" where
  "Instrument_STOSB ins = handler
     [load_reg REG_AL Eax, load_reg REG_EDI Src, write_mem_step ins [Eax]]"

definition Instrument_STOSD :: "ins \<Rightarrow> call list result" where
  "Instrument_STOSD ins = handler
     [load_reg REG_AX Eax, load_reg REG_EDI Src, write_mem_step ins [Eax]]"

definition Instrument_SCASB :: "ins \<Rightarrow> call list result" where
  "Instrument_SCASB ins = handler
     [read_mem_step ins MEMORYREAD_EA REG_EDI Src,
      load_reg REG_AL Eax,
      store_reg REG_RFLAGS [Src, Eax],
      step_if (INS_RepPrefix ins \<or> INS_RepnePrefix ins) (store_reg REG_ECX [Src, Eax])]"

section \<open>Results without taint\<close>

definition Instrument_RDTSC :: "ins \<Rightarrow> call list result" where
  "Instrument_RDTSC ins = handler [clear_reg_step REG_EAX, clear_reg_step REG_EDX]"

definition Instrument_CPUID :: "ins \<Rightarrow> call list result" where
  "Instrument_CPUID ins = handler
     [clear_reg_step REG_EAX, clear_reg_step REG_EBX, clear_reg_step REG_ECX, clear_reg_step REG_EDX]"

definition Instrument_FNSTCW :: "ins \<Rightarrow> call list result" where
  "Instrument_FNSTCW ins = handler [insert_call Call_ClearTaintForMemory]"

definition Instrument_STMXCSR :: "ins \<Rightarrow> call list result" where
  "Instrument_STMXCSR ins = handler [insert_call Call_ClearTaintForMemory]"

definition Instrument_BSF :: "ins \<Rightarrow> call list result" where
  "Instrument_BSF ins = handler [clear_reg_step (INS_OperandReg ins 0)]"

definition Instrument_BSR :: "ins \<Rightarrow> call list result" where
  "Instrument_BSR ins = handler [clear_reg_step (INS_OperandReg ins 0)]"

definition Instrument_FNSTSW :: "ins \<Rightarrow> call list result" where
  "Instrument_FNSTSW ins = handler
     [step_if (INS_OperandIsReg ins 0) (clear_reg_step (INS_OperandReg ins 0))]"

section \<open>Exchanges\<close>

definition if_then :: "condition \<Rightarrow> call \<Rightarrow> step" where
  "if_then c k = insert_call (If_Then c k)"

definition Instrument_CMPXCHG :: "ins \<Rightarrow> call list result" where
  "Instrument_CMPXCHG ins =
     (if INS_OperandWidth ins 0 = 32 \<or> INS_OperandWidth ins 0 = 64
      then handler
        ([load_rm ins 0 Dest,
          load_reg (INS_OperandReg ins 1) Src,
          load_reg (INS_OperandReg ins 2) Eax] @
         (if INS_OperandIsReg ins 0
          then [if_then (CheckEqual_r_r (INS_OperandReg ins 0) (INS_OperandReg ins 2))
                  (Call_SetTaintForRegister (INS_OperandReg ins 0) [Src]),
                if_then (CheckNotEqual_r_r (INS_OperandReg ins 0) (INS_OperandReg ins 2))
                  (Call_SetTaintForRegister (INS_OperandReg ins 2) [Src])]
          else if INS_OperandIsMemory ins 0
          then [if_then (CheckEqual_m_r (INS_OperandReg ins 2)) (Call_SetTaintForMemory [Src]),
                if_then (CheckNotEqual_m_r (INS_OperandReg ins 2))
                  (Call_SetTaintForRegister (INS_OperandReg ins 2) [Src])]
          else []))
      else Inl Abort_Called)"

definition Instrument_XADD :: "ins \<Rightarrow> call list result" where
  "Instrument_XADD ins = handler
     [load_rm ins 0 Dest,
      (if INS_OperandIsReg ins 1 then load_reg (INS_OperandReg ins 1) Src else abort_step),
      store_rm ins 0 [Dest, Src],
      store_reg (INS_OperandReg ins 1) [Dest],
      store_reg REG_RFLAGS [Dest, Src]]"

section \<open>Handlers that insert nothing\<close>

definition UnimplementedInstruction :: "ins \<Rightarrow> call list result" where
  "UnimplementedInstruction ins = Inr []"

definition EmptyHandler :: "ins \<Rightarrow> call list result" where
  "EmptyHandler ins = Inr []"

definition Instrument_Jcc :: "ins \<Rightarrow> call list result" where
  "Instrument_Jcc ins = Inr []"

definition Instrument_PAUSE :: "ins \<Rightarrow> call list result" where
  "Instrument_PAUSE ins = Inr []"

definition Instrument_SAHF :: "ins \<Rightarrow> call list result" where
  "Instrument_SAHF ins = Inr []"

definition Instrument_LAHF :: "ins \<Rightarrow> call list result" where
  "Instrument_LAHF ins = Inr []"

definition Instrument_RET_NEAR :: "ins \<Rightarrow> call list result" where
  "Instrument_RET_NEAR ins = Inr []"

definition Instrument_LEAVE :: "ins \<Rightarrow> call list result" where
  "Instrument_LEAVE ins = Inr []"

definition Instrument_INT :: "ins \<Rightarrow> call list result" where
  "Instrument_INT ins = Inr []"

definition Instrument_CALL_NEAR :: "ins \<Rightarrow> call list result" where
  "Instrument_CALL_NEAR ins = Inr []"

definition Instrument_JMP :: "ins \<Rightarrow> call list result" where
  "Instrument_JMP ins = Inr []"

definition Instrument_HLT :: "ins \<Rightarrow> call list result" where
  "Instrument_HLT ins = Inr []"

definition Instrument_BT :: "ins \<Rightarrow> call list result" where
  "Instrument_BT ins = Inr []"

definition Instrument_NOP :: "ins \<Rightarrow> call list result" where
  "Instrument_NOP ins = Inr []"

definition Instrument_BSWAP :: "ins \<Rightarrow> call list result" where
  "Instrument_BSWAP ins = Inr []"

definition Instrument_FLDCW :: "ins \<Rightarrow> call list result" where
  "Instrument_FLDCW ins = Inr []"

definition Instrument_FLDZ :: "ins \<Rightarrow> call list result" where
  "Instrument_FLDZ ins = Inr []"

definition Instrument_LDMXCSR :: "ins \<Rightarrow> call list result" where
  "Instrument_LDMXCSR ins = Inr []"

definition Instrument_NOT :: "ins \<Rightarrow> call list result" where
  "Instrument_NOT ins = Inr []"

definition Instrument_Eflags :: "ins \<Rightarrow> call list result" where
  "Instrument_Eflags ins = Inr []"

definition Instrument_FLD :: "ins \<Rightarrow> call list result" where
  "Instrument_FLD ins = Inr []"

definition Instrument_FST :: "ins \<Rightarrow> call list result" where
  "Instrument_FST ins = Inr []"

definition Instrument_FSTP :: "ins \<Rightarrow> call list result" where
  "Instrument_FSTP ins = Inr []"

definition Instrument_FXCH :: "ins \<Rightarrow> call list result" where
  "Instrument_FXCH ins = Inr []"

definition Instrument_ROL :: "ins \<Rightarrow> call list result" where
  "Instrument_ROL ins = Inr []"

definition Instrument_ROR :: "ins \<Rightarrow> call list result" where
  "Instrument_ROR ins = Inr []"

definition Instrument_FILD :: "ins \<Rightarrow> call list result" where
  "Instrument_FILD ins = Inr []"

definition Instrument_FISTP :: "ins \<Rightarrow> call list result" where
  "Instrument_FISTP ins = Inr []"

definition Instrument_FDIV :: "ins \<Rightarrow> call list result" where
  "Instrument_FDIV ins = Inr []"

definition Instrument_FADDP :: "ins \<Rightarrow> call list result" where
  "Instrument_FADDP ins = Inr []"

definition Instrument_FUCOM :: "ins \<Rightarrow> call list result" where
  "Instrument_FUCOM ins = Inr []"

definition Instrument_FDIVRP :: "ins \<Rightarrow> call list result" where
  "Instrument_FDIVRP ins = Inr []"

section \<open>Taint of moves\<close>

lemma Instrument_MOV_implements:
  assumes "readable_imm ins 1" "writable ins 0"
  shows "implements (Instrument_MOV ins) (\<lambda>x a. write_operand x ins 0 (operand_marks x ins 1 a) a)"
  unfolding Instrument_MOV_def
  by (rule implements_handler, (rule carries_intros assms)+) (simp add: engine_simps)

text \<open>
  C22: moves, with and without extension, give the destination operand exactly the marks of
  the source operand (and of the pending branches), for register, memory and immediate
  sources, and change no other mark.
\<close>

theorem Instrument_MOV_flow:
  assumes "readable_imm ins 1" "writable ins 0"
    and "h \<in> {Instrument_MOV, Instrument_MOVZX, Instrument_MOVSX}"
  shows "implements (h ins) (\<lambda>x a. write_operand x ins 0 (operand_marks x ins 1 a) a)"
proof -
  have "h ins = Instrument_MOV ins"
    using assms(3) by (auto simp: Instrument_MOVZX_def Instrument_MOVSX_def)
  then show ?thesis using Instrument_MOV_implements [OF assms(1,2)] by simp
qed

theorem Instrument_MOV_flow_witness:
  "implements (Instrument_MOV (store_ins REG_RAX))
    (\<lambda>x a. write_operand x (store_ins REG_RAX) 0 (operand_marks x (store_ins REG_RAX) 1 a) a)"
  by (rule Instrument_MOV_flow) simp_all

lemma carries_write_mem [carries_intros]:
  "INS_IsMemoryWrite ins \<Longrightarrow> carries (write_mem_step ins ss) (\<lambda>x a.
    write_mem (IARG_MEMORYWRITE_EA x) (IARG_MEMORYWRITE_SIZE x) (tmp_union a ss) a)"
  by (simp add: carries_def write_mem_step_def return_unless_def insert_call_def engine_simps)

lemma carries_read_mem [carries_intros]:
  "INS_IsMemoryRead ins \<Longrightarrow> carries (read_mem_step ins ea b s) (\<lambda>x a.
    set_tmp s (mem_marks a (ea_of x ea) (IARG_MEMORYREAD_SIZE x)) a)"
  by (simp add: carries_def read_mem_step_def return_unless_def insert_call_def engine_simps)

lemma Instrument_PUSH_implements:
  assumes "readable_imm ins 0" "INS_IsMemoryWrite ins"
  shows "implements (Instrument_PUSH ins) (\<lambda>x a.
    write_mem (IARG_MEMORYWRITE_EA x) (IARG_MEMORYWRITE_SIZE x) (operand_marks x ins 0 a) a)"
  unfolding Instrument_PUSH_def
  by (rule implements_handler, (rule carries_intros assms)+) (simp add: engine_simps)

lemma Instrument_POP_implements:
  assumes "INS_IsMemoryRead ins" "writable ins 0"
  shows "implements (Instrument_POP ins) (\<lambda>x a.
    write_operand x ins 0 (mem_marks a (IARG_MEMORYREAD_EA x) (IARG_MEMORYREAD_SIZE x)) a)"
  unfolding Instrument_POP_def
  by (rule implements_handler, (rule carries_intros assms)+) (simp add: engine_simps)

lemma mem_marks_write_mem:
  assumes "b < b + n"
  shows "mem_marks (write_mem b n M a) b n = M \<union> control_marks a"
proof -
  have "in_range b n b" using assms by (simp add: in_range_def)
  then show ?thesis by (auto simp: mem_marks_def write_mem_def)
qed

text \<open>
  C23: a value pushed from a register and popped into another one (not the stack or the
  frame pointer) from the same stack slot brings the marks of the source register along: the
  popped register has them and nothing but the marks of the pending branches besides.
\<close>

theorem push_pop_roundtrip:
  assumes "state_ok st" "writes_ok x" "writes_ok y"
    and "INS_OperandIsReg i 0" "INS_IsMemoryWrite i" "INS_OperandIsReg j 0" "INS_IsMemoryRead j"
    and "IARG_MEMORYREAD_EA y = IARG_MEMORYWRITE_EA x"
    and "IARG_MEMORYREAD_SIZE y = IARG_MEMORYWRITE_SIZE x"
    and "IARG_MEMORYWRITE_EA x < IARG_MEMORYWRITE_EA x + IARG_MEMORYWRITE_SIZE x"
    and "INS_OperandReg j 0 \<noteq> REG_ESP" "INS_OperandReg j 0 \<noteq> REG_EBP"
  shows "\<exists>cs ds st1 st2. Instrument_PUSH i = Inr cs \<and> run_calls x cs st = Inr st1 \<and>
    Instrument_POP j = Inr ds \<and> run_calls y ds st1 = Inr st2 \<and> state_ok st2 \<and>
    regs (abs_state st2) (INS_OperandReg j 0) =
      Some (marks_of (regs (abs_state st) (INS_OperandReg i 0)) \<union> control_marks (abs_state st))"
proof -
  let ?w = "write_mem (IARG_MEMORYWRITE_EA x) (IARG_MEMORYWRITE_SIZE x)
    (operand_marks x i 0 (abs_state st)) (abs_state st)"
  have ok: "readable_imm i 0" "writable j 0"
    using assms(4,6) by (simp_all add: readable_imm_def readable_def writable_def)
  obtain cs st1 where 1: "Instrument_PUSH i = Inr cs" "run_calls x cs st = Inr st1" "state_ok st1"
      "mem (abs_state st1) = mem ?w" "ctl (abs_state st1) = ctl ?w"
    using implements_run [OF Instrument_PUSH_implements [OF ok(1) assms(5)] assms(2,1)] by blast
  obtain ds st2 where 2: "Instrument_POP j = Inr ds" "run_calls y ds st1 = Inr st2" "state_ok st2"
      "regs (abs_state st2) = regs (write_operand y j 0 (mem_marks (abs_state st1)
        (IARG_MEMORYREAD_EA y) (IARG_MEMORYREAD_SIZE y)) (abs_state st1))"
    using implements_run [OF Instrument_POP_implements [OF assms(7) ok(2)] assms(3) 1(3)] by blast
  have c: "control_marks (abs_state st1) = control_marks (abs_state st)"
    using 1(5) by (simp add: control_marks_def write_mem_def)
  have m: "mem_marks (abs_state st1) (IARG_MEMORYREAD_EA y) (IARG_MEMORYREAD_SIZE y) =
      operand_marks x i 0 (abs_state st) \<union> control_marks (abs_state st)"
    using mem_marks_write_mem [OF assms(10), of "operand_marks x i 0 (abs_state st)" "abs_state st"]
    by (simp add: mem_marks_def 1(4) assms(8,9))
  have "regs (abs_state st2) (INS_OperandReg j 0) =
      Some (operand_marks x i 0 (abs_state st) \<union> control_marks (abs_state st))"
    unfolding 2(4) m using assms(6,11,12) by (simp add: write_operand_def write_reg_def c)
  then show ?thesis
    using 1(1,2) 2(1-3) assms(4) by (simp add: operand_marks_def del: abs_state_sel)
qed

text \<open>A push and a pop of a register at a given stack slot.\<close>

definition stack_ins :: "reg \<Rightarrow> ins" where
  "stack_ins r = (register_ins 64 [r])\<lparr>INS_IsMemoryRead := True, INS_IsMemoryWrite := True\<rparr>"

theorem push_pop_roundtrip_witness:
  "\<exists>cs ds st1 st2. Instrument_PUSH (stack_ins REG_EBX) = Inr cs \<and>
    run_calls (at_address 4096) cs (init_state 16 None) = Inr st1 \<and>
    Instrument_POP (stack_ins REG_ECX) = Inr ds \<and>
    run_calls (at_address 4096) ds st1 = Inr st2 \<and> state_ok st2 \<and>
    regs (abs_state st2) (INS_OperandReg (stack_ins REG_ECX) 0) =
      Some (marks_of (regs (abs_state (init_state 16 None)) (INS_OperandReg (stack_ins REG_EBX) 0)) \<union>
        control_marks (abs_state (init_state 16 None)))"
  by (rule push_pop_roundtrip)
    (simp_all add: state_ok_init writes_ok_def stack_ins_def at_address_def register_ins_def)

text \<open>
  An exchange of two different registers, neither of which is a part of the other nor
  the stack or frame pointer, swaps their marks (each with those of the pending branches).
\<close>

theorem Instrument_XCHG_swaps:
  assumes "INS_OperandIsReg ins 0" "INS_OperandIsReg ins 1"
    and "INS_OperandReg ins 0 = r" "INS_OperandReg ins 1 = s" "r \<noteq> s"
    and "r \<notin> sub_registers s" "{r, s} \<inter> {REG_ESP, REG_EBP} = {}"
    and "writes_ok x" "state_ok st"
  shows "\<exists>cs st'. Instrument_XCHG ins = Inr cs \<and> run_calls x cs st = Inr st' \<and> state_ok st' \<and>
    regs (abs_state st') r =
      Some (marks_of (regs (abs_state st) s) \<union> control_marks (abs_state st)) \<and>
    regs (abs_state st') s =
      Some (marks_of (regs (abs_state st) r) \<union> control_marks (abs_state st))"
proof -
  have ok: "readable ins 0" "writable ins 0" "readable ins 1" "writable ins 1"
    using assms(1,2) by (simp_all add: readable_def writable_def)
  have "implements (Instrument_XCHG ins) (\<lambda>x a.
      write_operand x ins 1 (operand_marks x ins 0 a)
        (write_operand x ins 0 (operand_marks x ins 1 a) a))"
    unfolding Instrument_XCHG_def
    by (rule implements_handler, (rule carries_intros ok)+) (simp add: engine_simps)
  then have i: "implements (Instrument_XCHG ins) (\<lambda>x a.
      write_reg s (marks_of (regs a r)) (write_reg r (marks_of (regs a s)) a))"
    using assms(1-4) by (simp add: write_operand_def operand_marks_def)
  have c: "control_marks (write_reg r M a) = control_marks a" for M a
    by (simp add: control_marks_def write_reg_def)
  let ?a = "abs_state st"
  let ?w = "write_reg s (marks_of (regs ?a r)) (write_reg r (marks_of (regs ?a s)) ?a)"
  have "regs ?w r = Some (marks_of (regs ?a s) \<union> control_marks ?a)"
    "regs ?w s = Some (marks_of (regs ?a r) \<union> control_marks ?a)"
    using assms(5-7) c by (auto simp: write_reg_def simp del: abs_state_sel)
  then show ?thesis using implements_run [OF i assms(8,9)] by metis
qed

theorem Instrument_XCHG_swaps_witness:
  "\<exists>cs st'. Instrument_XCHG (register_ins 32 [REG_EAX, REG_EBX]) = Inr cs \<and>
    run_calls (at_address 0) cs (init_state 16 None) = Inr st' \<and> state_ok st' \<and>
    regs (abs_state st') REG_EAX = Some (marks_of (regs (abs_state (init_state 16 None)) REG_EBX) \<union>
      control_marks (abs_state (init_state 16 None))) \<and>
    regs (abs_state st') REG_EBX = Some (marks_of (regs (abs_state (init_state 16 None)) REG_EAX) \<union>
      control_marks (abs_state (init_state 16 None)))"
  by (rule Instrument_XCHG_swaps) (simp_all add: state_ok_init writes_ok_at_address)

text \<open>
  An address computation gives the destination register the marks of the base and of
  the index register, and an instruction whose result does not depend on its operands
  (time stamp, processor identification, bit scans) takes the marks off its results.
\<close>

theorem address_and_constant_results_flow:
  "implements (Instrument_LEA ins) (\<lambda>x a.
     write_reg (INS_OperandReg ins 0)
       (marks_of (regs a (INS_OperandMemoryBaseReg ins 1)) \<union>
        marks_of (regs a (INS_OperandMemoryIndexReg ins 1))) a) \<and>
   implements (Instrument_RDTSC ins) (\<lambda>x a. clear_reg REG_EDX (clear_reg REG_EAX a)) \<and>
   implements (Instrument_CPUID ins) (\<lambda>x a.
     clear_reg REG_EDX (clear_reg REG_ECX (clear_reg REG_EBX (clear_reg REG_EAX a)))) \<and>
   implements (Instrument_BSF ins) (\<lambda>x. clear_reg (INS_OperandReg ins 0)) \<and>
   implements (Instrument_BSR ins) (\<lambda>x. clear_reg (INS_OperandReg ins 0))"
proof (intro conjI)
  show "implements (Instrument_LEA ins) (\<lambda>x a.
     write_reg (INS_OperandReg ins 0)
       (marks_of (regs a (INS_OperandMemoryBaseReg ins 1)) \<union>
        marks_of (regs a (INS_OperandMemoryIndexReg ins 1))) a)"
    unfolding Instrument_LEA_def
    by (rule implements_handler, (rule carries_intros)+) (simp add: engine_simps)
  show "implements (Instrument_RDTSC ins) (\<lambda>x a. clear_reg REG_EDX (clear_reg REG_EAX a))"
    unfolding Instrument_RDTSC_def by (rule implements_handler, (rule carries_intros)+) simp
  show "implements (Instrument_CPUID ins) (\<lambda>x a.
     clear_reg REG_EDX (clear_reg REG_ECX (clear_reg REG_EBX (clear_reg REG_EAX a))))"
    unfolding Instrument_CPUID_def by (rule implements_handler, (rule carries_intros)+) simp
  show "implements (Instrument_BSF ins) (\<lambda>x. clear_reg (INS_OperandReg ins 0))"
    unfolding Instrument_BSF_def by (rule implements_handler, (rule carries_intros)+) simp
  show "implements (Instrument_BSR ins) (\<lambda>x. clear_reg (INS_OperandReg ins 0))"
    unfolding Instrument_BSR_def by (rule implements_handler, (rule carries_intros)+) simp
qed

text \<open>
  The conditional set of a memory operand stores the marks left in the temporary
  \<open>base\<close>, those of the base register of the last address computation, and not the marks of
  the flags; a pop of the flags leaves every mark as it was.
\<close>

theorem SETcc_and_POPFD_lose_flags:
  assumes "\<not> INS_OperandIsReg ins 0" "INS_OperandIsMemory ins 0" "INS_IsMemoryWrite ins"
    and "INS_IsMemoryRead pop"
  shows "implements (Instrument_SETcc ins) (\<lambda>x a.
      write_mem (IARG_MEMORYWRITE_EA x) (IARG_MEMORYWRITE_SIZE x) (tmps a Base) a) \<and>
    implements (Instrument_POPFD pop) (\<lambda>x a. a)"
proof
  have h: "Instrument_SETcc ins = handler [load_reg REG_RFLAGS Src, write_mem_step ins [Base]]"
    using assms(1,2) by (simp add: Instrument_SETcc_def)
  show "implements (Instrument_SETcc ins) (\<lambda>x a.
      write_mem (IARG_MEMORYWRITE_EA x) (IARG_MEMORYWRITE_SIZE x) (tmps a Base) a)"
    unfolding h
    by (rule implements_handler, (rule carries_intros assms(3))+) (simp add: engine_simps)
  show "implements (Instrument_POPFD pop) (\<lambda>x a. a)"
    unfolding Instrument_POPFD_def
    by (rule implements_handler, (rule carries_intros assms(4))+) (simp add: engine_simps)
qed

theorem SETcc_and_POPFD_lose_flags_witness:
  "implements (Instrument_SETcc (store_ins REG_RAX)) (\<lambda>x a.
      write_mem (IARG_MEMORYWRITE_EA x) (IARG_MEMORYWRITE_SIZE x) (tmps a Base) a) \<and>
    implements (Instrument_POPFD (store_ins REG_RAX)) (\<lambda>x a. a)"
  by (rule SETcc_and_POPFD_lose_flags) (simp_all add: store_ins_def)

lemma carries_if_then [carries_intros]: "carries (if_then c k) (\<lambda>x. flow_call x (If_Then c k))"
  unfolding if_then_def by (rule carries_insert)

text \<open>
  Compare-and-exchange on registers gives the source's marks to the destination when
  the destination equals the accumulator and to the accumulator when it does not, exactly
  one of the two.
\<close>

theorem Instrument_CMPXCHG_registers:
  assumes "INS_OperandWidth ins 0 = 32 \<or> INS_OperandWidth ins 0 = 64" "INS_OperandIsReg ins 0"
  shows "implements (Instrument_CMPXCHG ins) (\<lambda>x a.
    let M = marks_of (regs a (INS_OperandReg ins 1)) in
    if IARG_REG_VALUE x (INS_OperandReg ins 0) = IARG_REG_VALUE x (INS_OperandReg ins 2)
    then write_reg (INS_OperandReg ins 0) M a else write_reg (INS_OperandReg ins 2) M a)"
proof -
  let ?r = "INS_OperandReg ins"
  have h: "Instrument_CMPXCHG ins = handler
      [load_reg (?r 0) Dest, load_reg (?r 1) Src, load_reg (?r 2) Eax,
       if_then (CheckEqual_r_r (?r 0) (?r 2)) (Call_SetTaintForRegister (?r 0) [Src]),
       if_then (CheckNotEqual_r_r (?r 0) (?r 2)) (Call_SetTaintForRegister (?r 2) [Src])]"
    using assms by (auto simp: Instrument_CMPXCHG_def load_rm_def)
  show ?thesis
    unfolding h
    by (rule implements_handler, (rule carries_intros)+) (simp add: engine_simps Let_def)
qed

theorem Instrument_CMPXCHG_registers_witness:
  "implements (Instrument_CMPXCHG (register_ins 32 [REG_EBX, REG_ECX, REG_EAX])) (\<lambda>x a.
    let M = marks_of (regs a (INS_OperandReg (register_ins 32 [REG_EBX, REG_ECX, REG_EAX]) 1)) in
    if IARG_REG_VALUE x (INS_OperandReg (register_ins 32 [REG_EBX, REG_ECX, REG_EAX]) 0) =
       IARG_REG_VALUE x (INS_OperandReg (register_ins 32 [REG_EBX, REG_ECX, REG_EAX]) 2)
    then write_reg (INS_OperandReg (register_ins 32 [REG_EBX, REG_ECX, REG_EAX]) 0) M a
    else write_reg (INS_OperandReg (register_ins 32 [REG_EBX, REG_ECX, REG_EAX]) 2) M a)"
  by (rule Instrument_CMPXCHG_registers) simp_all

text \<open>
  Compare-and-exchange on memory tests equality in both of its checks: when the memory
  word equals the accumulator both the memory and the accumulator get the source's marks,
  when it differs neither does.
\<close>

theorem Instrument_CMPXCHG_memory:
  assumes "INS_OperandWidth ins 0 = 32 \<or> INS_OperandWidth ins 0 = 64"
    and "\<not> INS_OperandIsReg ins 0" "INS_OperandIsMemory ins 0" "INS_IsMemoryRead ins"
  shows "implements (Instrument_CMPXCHG ins) (\<lambda>x a.
    let M = marks_of (regs a (INS_OperandReg ins 1)) in
    if deref_ADDRINT x (IARG_MEMORYREAD_EA x) = IARG_REG_VALUE x (INS_OperandReg ins 2)
    then write_reg (INS_OperandReg ins 2) M
      (write_mem (IARG_MEMORYWRITE_EA x) (IARG_MEMORYWRITE_SIZE x) M a)
    else a)"
proof -
  let ?r = "INS_OperandReg ins"
  have h: "Instrument_CMPXCHG ins = handler
      [load_rm ins 0 Dest, load_reg (?r 1) Src, load_reg (?r 2) Eax,
       if_then (CheckEqual_m_r (?r 2)) (Call_SetTaintForMemory [Src]),
       if_then (CheckNotEqual_m_r (?r 2)) (Call_SetTaintForRegister (?r 2) [Src])]"
    using assms by (auto simp: Instrument_CMPXCHG_def)
  have ok: "readable ins 0" using assms by (simp add: readable_def)
  show ?thesis
    unfolding h
    by (rule implements_handler, (rule carries_intros ok)+) (simp add: engine_simps Let_def)
qed

theorem Instrument_CMPXCHG_memory_witness:
  "implements (Instrument_CMPXCHG (store_ins REG_ECX)) (\<lambda>x a.
    let M = marks_of (regs a (INS_OperandReg (store_ins REG_ECX) 1)) in
    if deref_ADDRINT x (IARG_MEMORYREAD_EA x) =
       IARG_REG_VALUE x (INS_OperandReg (store_ins REG_ECX) 2)
    then write_reg (INS_OperandReg (store_ins REG_ECX) 2) M
      (write_mem (IARG_MEMORYWRITE_EA x) (IARG_MEMORYWRITE_SIZE x) M a)
    else a)"
  by (rule Instrument_CMPXCHG_memory) (simp_all add: store_ins_def)

text \<open>
  A string move gives the written bytes the marks of the bytes that Pin reports as read,
  and under a repeat prefix those of the count register too.
\<close>

theorem Instrument_MOVS_flow:
  assumes "h \<in> {Instrument_MOVSB, Instrument_MOVSW, Instrument_MOVSD}"
  shows "implements (h ins) (\<lambda>x a.
    write_mem (IARG_MEMORYWRITE_EA x) (IARG_MEMORYWRITE_SIZE x)
      (mem_marks a (IARG_MEMORYREAD_EA x) (IARG_MEMORYREAD_SIZE x) \<union>
       (if INS_HasRealRep ins then marks_of (regs a REG_ECX) else {})) a)"
proof -
  have h: "h ins = Instrument_MOVS ins"
    using assms by (auto simp: Instrument_MOVSB_def Instrument_MOVSW_def Instrument_MOVSD_def)
  show ?thesis
  proof (cases "INS_HasRealRep ins")
    case True
    then show ?thesis
      unfolding h Instrument_MOVS_def
      by (simp only: if_True append.simps)
        (rule implements_handler, (rule carries_intros)+, simp add: engine_simps)
  next
    case False
    then show ?thesis
      unfolding h Instrument_MOVS_def
      by (simp only: if_False append.simps)
        (rule implements_handler, (rule carries_intros)+, simp add: engine_simps)
  qed
qed

theorem Instrument_MOVS_flow_witness:
  "implements (Instrument_MOVSB (store_ins REG_ECX)) (\<lambda>x a.
    write_mem (IARG_MEMORYWRITE_EA x) (IARG_MEMORYWRITE_SIZE x)
      (mem_marks a (IARG_MEMORYREAD_EA x) (IARG_MEMORYREAD_SIZE x) \<union>
       (if INS_HasRealRep (store_ins REG_ECX) then marks_of (regs a REG_ECX) else {})) a)"
  by (rule Instrument_MOVS_flow) simp

end
