(* ===== verification/Dispatch.thy ===== *)
theory Dispatch
  imports Instrument_Move
begin

text \<open>
  The dispatch table of \<open>main\<close> (\<open>src/dytan.cpp\<close>, lines 1206--1475) and the instruction
  callback \<open>Dataflow\<close> (lines 879--884). The index is Pin's instruction class, here its
  name without the prefix \<open>XED_ICLASS_\<close>; assignments inside \<open>#if 0\<close> and comments
  are not part of the table.
\<close>

section \<open>The table\<close>

definition instrument_table_1 :: "(string \<times> (ins \<Rightarrow> call list result)) list" where
  "instrument_table_1 =
     [(''ADD'', Instrument_ADD), (''PUSH'', Instrument_PUSH), (''POP'', Instrument_POP),
      (''OR'', Instrument_OR), (''ADC'', Instrument_ADC), (''SBB'', Instrument_SBB),
      (''AND'', Instrument_AND), (''SUB'', Instrument_SUB), (''XOR'', Instrument_XOR),
      (''CMP'', Instrument_CMP), (''INC'', Instrument_INC), (''DEC'', Instrument_DEC),
      (''IMUL'', Instrument_IMUL), (''JO'', Instrument_Jcc), (''JNO'', Instrument_Jcc),
      (''JB'', Instrument_Jcc), (''JNB'', Instrument_Jcc), (''JZ'', Instrument_Jcc),
      (''JNZ'', Instrument_Jcc), (''JBE'', Instrument_Jcc), (''JNBE'', Instrument_Jcc),
      (''JS'', Instrument_Jcc), (''JNS'', Instrument_Jcc), (''JP'', Instrument_Jcc),
      (''JNP'', Instrument_Jcc), (''JL'', Instrument_Jcc), (''JNL'', Instrument_Jcc),
      (''JLE'', Instrument_Jcc), (''JNLE'', Instrument_Jcc), (''TEST'', Instrument_TEST),
      (''XCHG'', Instrument_XCHG), (''MOV'', Instrument_MOV), (''MOVDQU'', Instrument_MOVDQU),
      (''LDDQU'', Instrument_LDDQU), (''LEA'', Instrument_LEA), (''PAUSE'', Instrument_PAUSE),
      (''CWDE'', Instrument_CWDE), (''CDQ'', Instrument_CDQ), (''PUSHFD'', Instrument_PUSHFD),
      (''POPFD'', Instrument_POPFD), (''SAHF'', Instrument_SAHF), (''LAHF'', Instrument_LAHF),
      (''MOVSB'', Instrument_MOVSB), (''MOVSW'', Instrument_MOVSW),
      (''MOVSD'', Instrument_MOVSD), (''CMPSB'', Instrument_CMPSB),
      (''STOSB'', Instrument_STOSB), (''STOSD'', Instrument_STOSD),
      (''SCASB'', Instrument_SCASB), (''RET_NEAR'', Instrument_RET_NEAR),
      (''LEAVE'', Instrument_LEAVE), (''INT'', Instrument_INT), (''JRCXZ'', Instrument_Jcc),
      (''CALL_NEAR'', Instrument_CALL_NEAR), (''JMP'', Instrument_JMP),
      (''HLT'', Instrument_HLT), (''CLD'', Instrument_CLD), (''STD'', Instrument_STD)]"

definition instrument_table_2 :: "(string \<times> (ins \<Rightarrow> call list result)) list" where
  "instrument_table_2 =
     [(''RDTSC'', Instrument_RDTSC), (''SETB'', Instrument_SETcc),
      (''SETNB'', Instrument_SETcc), (''SETZ'', Instrument_SETcc),
      (''SETNZ'', Instrument_SETcc), (''SETBE'', Instrument_SETcc),
      (''SETNBE'', Instrument_SETcc), (''CPUID'', Instrument_CPUID), (''BT'', Instrument_BT),
      (''SHLD'', Instrument_SHLD), (''CMPXCHG'', Instrument_CMPXCHG), (''NOP'', Instrument_NOP),
      (''NOP2'', Instrument_NOP), (''NOP3'', Instrument_NOP), (''NOP4'', Instrument_NOP),
      (''NOP5'', Instrument_NOP), (''NOP6'', Instrument_NOP), (''NOP7'', Instrument_NOP),
      (''NOP8'', Instrument_NOP), (''NOP9'', Instrument_NOP), (''MOVZX'', Instrument_MOVZX),
      (''XADD'', Instrument_XADD), (''SETS'', Instrument_SETcc), (''SETL'', Instrument_SETcc),
      (''SETNL'', Instrument_SETcc), (''SETLE'', Instrument_SETcc),
      (''SETNLE'', Instrument_SETcc), (''SHRD'', Instrument_SHRD), (''BSF'', Instrument_BSF),
      (''BSR'', Instrument_BSR), (''MOVSX'', Instrument_MOVSX), (''BSWAP'', Instrument_BSWAP),
      (''ROL'', Instrument_ROL), (''ROR'', Instrument_ROR), (''SHL'', Instrument_SHL),
      (''SHR'', Instrument_SHR), (''SAR'', Instrument_SAR), (''NOT'', Instrument_NOT),
      (''NEG'', Instrument_NEG), (''MUL'', Instrument_MUL), (''DIV'', Instrument_DIV),
      (''IDIV'', Instrument_IDIV), (''LDMXCSR'', Instrument_LDMXCSR),
      (''STMXCSR'', Instrument_STMXCSR), (''FDIV'', Instrument_FDIV), (''FLD'', Instrument_FLD),
      (''FST'', Instrument_FST), (''FSTP'', Instrument_FSTP), (''FLDCW'', Instrument_FLDCW),
      (''FNSTCW'', Instrument_FNSTCW), (''FXCH'', Instrument_FXCH), (''FLDZ'', Instrument_FLDZ),
      (''FILD'', Instrument_FILD), (''FISTP'', Instrument_FISTP),
      (''FNSTSW'', Instrument_FNSTSW), (''FUCOM'', Instrument_FUCOM),
      (''FADDP'', Instrument_FADDP), (''FDIVRP'', Instrument_FDIVRP), (''FDIVP'', EmptyHandler),
      (''FIDIVR'', EmptyHandler), (''FIADD'', EmptyHandler), (''FIST'', EmptyHandler),
      (''FCOMI'', Instrument_Eflags), (''FCOMIP'', Instrument_Eflags),
      (''FUCOMI'', Instrument_Eflags), (''FUCOMIP'', Instrument_Eflags)]"

text \<open>The default for every class, then the assignments in their order.\<close>

definition instrument_functions :: "string \<Rightarrow> ins \<Rightarrow> call list result" where
  "instrument_functions =
     fold (\<lambda>(k, h) f. f(k := h)) (instrument_table_1 @ instrument_table_2)
       (\<lambda>_. UnimplementedInstruction)"

definition Dataflow :: "ins \<Rightarrow> call list result" where
  "Dataflow ins = instrument_functions (INS_Opcode ins) ins"

section \<open>What the table does\<close>

lemma fold_assign:
  "fold (\<lambda>(k, h) f. f(k := h)) kvs f k = (case map_of (rev kvs) k of None \<Rightarrow> f k | Some h \<Rightarrow> h)"
  by (induction kvs arbitrary: f) (auto simp: map_add_def split: option.splits)

lemma assigned_value:
  assumes "distinct (map fst kvs)" "(k, h) \<in> set kvs"
  shows "fold (\<lambda>(k, h) f. f(k := h)) kvs f k = h"
  using assms by (simp add: fold_assign rev_map [symmetric] map_of_is_SomeI)

lemma unassigned_value:
  "k \<notin> fst ` set kvs \<Longrightarrow> fold (\<lambda>(k, h) f. f(k := h)) kvs f k = f k"
  by (induction kvs arbitrary: f) auto

lemma table_keys_distinct: "distinct (map fst (instrument_table_1 @ instrument_table_2))"
  by (simp add: instrument_table_1_def instrument_table_2_def)

lemma Dataflow_listed:
  "(INS_Opcode ins, h) \<in> set (instrument_table_1 @ instrument_table_2) \<Longrightarrow> Dataflow ins = h ins"
  unfolding Dataflow_def instrument_functions_def by (simp only: assigned_value [OF table_keys_distinct])

lemma instrument_functions_cases:
  "instrument_functions k = UnimplementedInstruction \<or>
   (\<exists>h. (k, h) \<in> set (instrument_table_1 @ instrument_table_2) \<and> instrument_functions k = h)"
proof -
  let ?t = "instrument_table_1 @ instrument_table_2"
  have f: "instrument_functions k =
      (case map_of (rev ?t) k of None \<Rightarrow> UnimplementedInstruction | Some h \<Rightarrow> h)"
    unfolding instrument_functions_def by (rule fold_assign)
  show ?thesis
  proof (cases "map_of (rev ?t) k")
    case None
    then show ?thesis by (simp only: f option.case simp_thms)
  next
    case (Some h)
    have "(k, h) \<in> set ?t"
      using map_of_SomeD [OF Some] by (simp only: set_rev)
    then show ?thesis unfolding f Some option.case by blast
  qed
qed

text \<open>The only way in which instrumenting an instruction stops is \<open>abort()\<close>.\<close>

definition only_abort :: "'a result \<Rightarrow> bool" where
  "only_abort r \<longleftrightarrow> (\<forall>e. r = Inl e \<longrightarrow> e = Abort_Called)"

definition step_only_abort :: "step \<Rightarrow> bool" where
  "step_only_abort s \<longleftrightarrow> (\<forall>e. s = Stop e \<longrightarrow> e = Abort_Called)"

named_theorems abort_simps \<open>fragments and handlers that can only abort\<close>

lemma only_abort_simps [abort_simps]:
  "only_abort (Inr r)" "only_abort (Inl Abort_Called)"
  by (simp_all add: only_abort_def)

lemma step_only_abort_seq [abort_simps]:
  "step_only_abort s \<Longrightarrow> step_only_abort t \<Longrightarrow> step_only_abort (seq s t)"
  by (cases s; cases t) (auto simp: step_only_abort_def)

lemma step_only_abort_steps [abort_simps]:
  "step_only_abort (Go cs)" "step_only_abort (Return cs)" "step_only_abort abort_step"
  "step_only_abort (insert_call c)" "step_only_abort (return_unless b)"
  "step_only_abort (load_reg r s)" "step_only_abort (store_reg r ss)"
  "step_only_abort (clear_reg_step r)" "step_only_abort (if_then cd c)"
  by (simp_all add: step_only_abort_def abort_step_def insert_call_def return_unless_def
      load_reg_def store_reg_def clear_reg_step_def if_then_def)

lemma step_only_abort_operands [abort_simps]:
  "step_only_abort (load_mem ins k s)" "step_only_abort (load_rm ins k s)"
  "step_only_abort (load_rmi ins k s)" "step_only_abort (load_ri ins k s)"
  "step_only_abort (store_rm ins k ss)" "step_only_abort (write_mem_step ins ss)"
  "step_only_abort (read_mem_step ins ea b s)"
  by (simp_all add: load_mem_def load_rm_def load_rmi_def load_ri_def store_rm_def
      write_mem_step_def read_mem_step_def abort_simps)

lemma step_only_abort_block:
  "(\<And>s. s \<in> set ss \<Longrightarrow> step_only_abort s) \<Longrightarrow> step_only_abort (block ss)"
  by (induction ss) (auto simp: abort_simps)

lemma only_abort_handler [abort_simps]:
  "list_all step_only_abort ss \<Longrightarrow> only_abort (handler ss)"
  using step_only_abort_block [of ss]
  by (auto simp: list_all_iff handler_def only_abort_def step_only_abort_def split: step.splits)

lemma only_abort_if [abort_simps]:
  "only_abort (if b then r else s) \<longleftrightarrow> (if b then only_abort r else only_abort s)"
  "step_only_abort (if b then p else q) \<longleftrightarrow> (if b then step_only_abort p else step_only_abort q)"
  by simp_all

lemma only_abort_arith [abort_simps]:
  "only_abort (Instrument_ADD ins)" "only_abort (Instrument_AND ins)"
  "only_abort (Instrument_OR ins)" "only_abort (Instrument_ADC ins)"
  "only_abort (Instrument_SBB ins)" "only_abort (Instrument_SUB ins)"
  "only_abort (Instrument_XOR ins)" "only_abort (Instrument_CMP ins)"
  "only_abort (Instrument_DEC ins)" "only_abort (Instrument_INC ins)"
  "only_abort (Instrument_TEST ins)" "only_abort (Instrument_NEG ins)"
  "only_abort (Instrument_SAR ins)" "only_abort (Instrument_SHL ins)"
  "only_abort (Instrument_SHR ins)" "only_abort (Instrument_SHLD ins)"
  "only_abort (Instrument_SHRD ins)"
  by (simp_all add: abort_simps step_if_def
      Instrument_ADD_def Instrument_AND_def Instrument_OR_def Instrument_ADC_def Instrument_SBB_def Instrument_SUB_def Instrument_XOR_def Instrument_CMP_def Instrument_DEC_def Instrument_INC_def Instrument_TEST_def Instrument_NEG_def Instrument_SAR_def Instrument_SHL_def Instrument_SHR_def Instrument_SHLD_def Instrument_SHRD_def)

lemma only_abort_move [abort_simps]:
  "only_abort (Instrument_PUSH ins)" "only_abort (Instrument_POP ins)"
  "only_abort (Instrument_XCHG ins)" "only_abort (Instrument_MOV ins)"
  "only_abort (Instrument_MOVDQU ins)" "only_abort (Instrument_LDDQU ins)"
  "only_abort (Instrument_LEA ins)" "only_abort (Instrument_CWDE ins)"
  "only_abort (Instrument_CDQ ins)" "only_abort (Instrument_MOVZX ins)"
  "only_abort (Instrument_MOVSX ins)"
  by (simp_all add: abort_simps step_if_def
      Instrument_PUSH_def Instrument_POP_def Instrument_XCHG_def Instrument_MOV_def Instrument_MOVDQU_def Instrument_LDDQU_def Instrument_LEA_def Instrument_CWDE_def Instrument_CDQ_def Instrument_MOVZX_def Instrument_MOVSX_def)

lemma only_abort_flags [abort_simps]:
  "only_abort (Instrument_PUSHFD ins)" "only_abort (Instrument_POPFD ins)"
  "only_abort (Instrument_CLD ins)" "only_abort (Instrument_STD ins)"
  "only_abort (Instrument_SETcc ins)" "only_abort (Instrument_CMPXCHG ins)"
  "only_abort (Instrument_XADD ins)"
  by (simp_all add: abort_simps step_if_def
      Instrument_PUSHFD_def Instrument_POPFD_def Instrument_CLD_def Instrument_STD_def Instrument_SETcc_def Instrument_CMPXCHG_def Instrument_XADD_def)

lemma only_abort_strings [abort_simps]:
  "only_abort (Instrument_MOVS ins)" "only_abort (Instrument_MOVSB ins)"
  "only_abort (Instrument_MOVSD ins)" "only_abort (Instrument_MOVSW ins)"
  "only_abort (Instrument_CMPSB ins)" "only_abort (Instrument_STOSB ins)"
  "only_abort (Instrument_STOSD ins)" "only_abort (Instrument_SCASB ins)"
  by (simp_all add: abort_simps step_if_def
      Instrument_MOVS_def Instrument_MOVSB_def Instrument_MOVSD_def Instrument_MOVSW_def Instrument_CMPSB_def Instrument_STOSB_def Instrument_STOSD_def Instrument_SCASB_def)

lemma only_abort_clear [abort_simps]:
  "only_abort (Instrument_RDTSC ins)" "only_abort (Instrument_CPUID ins)"
  "only_abort (Instrument_FNSTCW ins)" "only_abort (Instrument_STMXCSR ins)"
  "only_abort (Instrument_BSF ins)" "only_abort (Instrument_BSR ins)"
  "only_abort (Instrument_FNSTSW ins)"
  by (simp_all add: abort_simps step_if_def
      Instrument_RDTSC_def Instrument_CPUID_def Instrument_FNSTCW_def Instrument_STMXCSR_def Instrument_BSF_def Instrument_BSR_def Instrument_FNSTSW_def)

lemma only_abort_mul [abort_simps]:
  "only_abort (Instrument_MUL ins)" "only_abort (Instrument_IMUL ins)"
  "only_abort (Instrument_DIV ins)" "only_abort (Instrument_IDIV ins)"
  by (auto simp: abort_simps Instrument_MUL_def Instrument_IMUL_def imul_source_def
      Instrument_DIV_def Instrument_IDIV_def Let_def split: option.split prod.split)

lemmas empty_handlers =
  UnimplementedInstruction_def EmptyHandler_def
  Instrument_Jcc_def Instrument_PAUSE_def Instrument_SAHF_def
  Instrument_LAHF_def Instrument_RET_NEAR_def Instrument_LEAVE_def
  Instrument_INT_def Instrument_CALL_NEAR_def Instrument_JMP_def
  Instrument_HLT_def Instrument_BT_def Instrument_NOP_def
  Instrument_BSWAP_def Instrument_FLDCW_def Instrument_FLDZ_def
  Instrument_LDMXCSR_def Instrument_NOT_def Instrument_Eflags_def
  Instrument_FLD_def Instrument_FST_def Instrument_FSTP_def
  Instrument_FXCH_def Instrument_ROL_def Instrument_ROR_def
  Instrument_FILD_def Instrument_FISTP_def Instrument_FDIV_def
  Instrument_FADDP_def Instrument_FUCOM_def Instrument_FDIVRP_def

lemma table_only_abort:
  "list_all (\<lambda>(k, h). \<forall>ins. only_abort (h ins)) instrument_table_1"
  "list_all (\<lambda>(k, h). \<forall>ins. only_abort (h ins)) instrument_table_2"
  by (simp_all add: instrument_table_1_def instrument_table_2_def abort_simps empty_handlers)

lemma Dataflow_only_abort: "only_abort (Dataflow ins)"
proof -
  have "only_abort (h ins)" if "(k, h) \<in> set (instrument_table_1 @ instrument_table_2)" for k h
    using table_only_abort that by (auto simp: list_all_iff)
  then show ?thesis
    using instrument_functions_cases [of "INS_Opcode ins"]
    by (auto simp: Dataflow_def abort_simps empty_handlers)
qed

section \<open>Classes without an entry\<close>

text \<open>
  An instruction whose class has no entry in the table, such as the conditional moves,
  is not reported: it inserts no call, so the marks of what it reads never reach what it
  writes.
\<close>

theorem unlisted_instruction_inserts_nothing:
  assumes "INS_Opcode ins \<notin> fst ` set (instrument_table_1 @ instrument_table_2)"
  shows "Dataflow ins = Inr [] \<and> flow x [] a = a"
proof -
  have "instrument_functions (INS_Opcode ins) = UnimplementedInstruction"
    using instrument_functions_cases [of "INS_Opcode ins"] assms by force
  then show ?thesis by (simp add: Dataflow_def UnimplementedInstruction_def flow_def)
qed

theorem unlisted_instruction_inserts_nothing_witness:
  "Dataflow ((register_ins 32 [REG_EAX, REG_EBX])\<lparr>INS_Opcode := ''CMOVZ''\<rparr>) = Inr [] \<and>
    flow (at_address 0) [] (abs_state (init_state 16 None)) = abs_state (init_state 16 None)"
  by (rule unlisted_instruction_inserts_nothing)
    (simp add: instrument_table_1_def instrument_table_2_def)

end
