(* ===== verification/Syscall_Monitor.thy ===== *)
theory Syscall_Monitor
  imports Taint_Engine
begin

text \<open>
  System-call observation: \<open>src/include/syscall_monitor.H\<close>. The monitor remembers the
  arguments of the call that each thread has begun and runs the callbacks registered for
  its number when it ends. A callback with its \<open>void *\<close> argument is a function on the state
  \<open>'s\<close> of the tool. The lock, which only serialises the two entry points, is not modelled.
\<close>

section \<open>Registries of callbacks\<close>

text \<open>\<open>map<K, vector<callback>>\<close>, with \<open>observers[k].push_back(c)\<close>\<close>

type_synonym ('k, 'c) registry = "'k \<Rightarrow> 'c list option"

definition add_callback :: "'k \<Rightarrow> 'c \<Rightarrow> ('k, 'c) registry \<Rightarrow> ('k, 'c) registry" where
  "add_callback k c m = m(k \<mapsto> (case m k of None \<Rightarrow> [] | Some cs \<Rightarrow> cs) @ [c])"

definition callbacks :: "('k, 'c) registry \<Rightarrow> 'k \<Rightarrow> 'c list" where
  "callbacks m k = (case m k of None \<Rightarrow> [] | Some cs \<Rightarrow> cs)"

text \<open>
  The interface: registering appends to the callbacks of one key. A client that registers a
  list of callbacks finds those of each key, in the order of registration.
\<close>

locale callback_registry =
  fixes register :: "'k \<Rightarrow> 'c \<Rightarrow> 'm \<Rightarrow> 'm"
    and registered :: "'m \<Rightarrow> 'k \<Rightarrow> 'c list"
  assumes registered_register:
    "registered (register k c m) j = (if j = k then registered m k @ [c] else registered m j)"
begin

lemma registered_all:
  "registered (fold (\<lambda>(k, c). register k c) kcs m) j =
    registered m j @ map snd (filter (\<lambda>p. fst p = j) kcs)"
proof (induction kcs arbitrary: m)
  case (Cons p kcs)
  then show ?case by (cases p) (auto simp: registered_register)
qed simp

lemma registered_keeps:
  "c \<in> set (registered m j) \<Longrightarrow> c \<in> set (registered (register k d m) j)"
  by (auto simp: registered_register)

end

interpretation registry: callback_registry add_callback callbacks
  by unfold_locales (auto simp: add_callback_def callbacks_def)

section \<open>The monitor\<close>

record syscall_arguments =
  num :: addrint
  arg0 :: addrint
  arg1 :: addrint
  arg2 :: addrint
  arg3 :: addrint
  arg4 :: addrint
  arg5 :: addrint
  ret :: addrint
  err :: addrint

type_synonym 's syscall_callback = "int \<Rightarrow> syscall_arguments \<Rightarrow> 's \<Rightarrow> 's result"

text \<open>
  \<open>defaultObserver\<close> is \<open>None\<close> while it is uninitialised, which it is until the first
  \<open>setDefaultObserver\<close>: the constructor does not set it.
\<close>

record 's syscall_monitor =
  pendingSyscalls :: "32 word \<Rightarrow> syscall_arguments option"
  observers :: "(int, 's syscall_callback) registry"
  defaultObserver :: "'s syscall_callback option option"

definition new_SyscallMonitor :: "'s syscall_monitor" where
  "new_SyscallMonitor =
     \<lparr>pendingSyscalls = Map.empty, observers = Map.empty, defaultObserver = None\<rparr>"

definition addObserver ::
  "int \<Rightarrow> 's syscall_callback \<Rightarrow> 's syscall_monitor \<Rightarrow> 's syscall_monitor" where
  "addObserver syscall_number cb m =
     m\<lparr>observers := add_callback syscall_number cb (observers m)\<rparr>"

definition setDefaultObserver :: "'s syscall_callback \<Rightarrow> 's syscall_monitor \<Rightarrow> 's syscall_monitor" where
  "setDefaultObserver cb m = m\<lparr>defaultObserver := Some (Some cb)\<rparr>"

definition zero_arguments :: syscall_arguments where
  "zero_arguments =
     \<lparr>num = 0, arg0 = 0, arg1 = 0, arg2 = 0, arg3 = 0, arg4 = 0, arg5 = 0, ret = 0, err = 0\<rparr>"

definition beginSyscall ::
  "32 word \<Rightarrow> int \<Rightarrow> addrint \<Rightarrow> addrint \<Rightarrow> addrint \<Rightarrow> addrint \<Rightarrow> addrint \<Rightarrow> addrint \<Rightarrow>
   's syscall_monitor \<Rightarrow> 's syscall_monitor" where
  "beginSyscall tid n a0 a1 a2 a3 a4 a5 m =
     m\<lparr>pendingSyscalls := (pendingSyscalls m)(tid \<mapsto>
        \<lparr>num = word_of_int n, arg0 = a0, arg1 = a1, arg2 = a2, arg3 = a3, arg4 = a4,
         arg5 = a5, ret = 0, err = 0\<rparr>)\<rparr>"

text \<open>\<open>pendingSyscalls[tid]\<close> inserts zeros for a thread that has not begun a call.\<close>

definition pending :: "'s syscall_monitor \<Rightarrow> 32 word \<Rightarrow> syscall_arguments" where
  "pending m tid = (case pendingSyscalls m tid of None \<Rightarrow> zero_arguments | Some a \<Rightarrow> a)"

definition endSyscall ::
  "32 word \<Rightarrow> addrint \<Rightarrow> addrint \<Rightarrow> 's syscall_monitor \<times> 's \<Rightarrow> ('s syscall_monitor \<times> 's) result" where
  "endSyscall tid r e = (\<lambda>(m, s).
     let args = (pending m tid)\<lparr>ret := r, err := e\<rparr>;
         m' = m\<lparr>pendingSyscalls := (pendingSyscalls m)(tid \<mapsto> pending m tid)\<rparr>;
         n = c_int (num args) in
     and_then
       (case observers m n of
          Some cbs \<Rightarrow> fold_res (\<lambda>cb. cb n args) cbs s
        | None \<Rightarrow> (case defaultObserver m of
              None \<Rightarrow> Inl Uninitialised_Read
            | Some None \<Rightarrow> Inr s
            | Some (Some cb) \<Rightarrow> cb n args s))
       (\<lambda>s'. Inr (m', s')))"

text \<open>The entry points that Pin calls: \<open>SysBefore\<close> and \<open>SysAfter\<close> of \<open>src/dytan.cpp\<close>\<close>

record syscall_context =
  PIN_GetSyscallNumber :: int
  PIN_GetSyscallArgument :: "nat \<Rightarrow> addrint"
  PIN_GetSyscallReturn :: addrint
  PIN_GetSyscallErrno :: addrint

definition SysBefore :: "32 word \<Rightarrow> syscall_context \<Rightarrow> 's syscall_monitor \<Rightarrow> 's syscall_monitor" where
  "SysBefore threadIndex ctxt monitor =
     beginSyscall threadIndex (PIN_GetSyscallNumber ctxt)
       (PIN_GetSyscallArgument ctxt 0) (PIN_GetSyscallArgument ctxt 1)
       (PIN_GetSyscallArgument ctxt 2) (PIN_GetSyscallArgument ctxt 3)
       (PIN_GetSyscallArgument ctxt 4) (PIN_GetSyscallArgument ctxt 5) monitor"

definition SysAfter ::
  "32 word \<Rightarrow> syscall_context \<Rightarrow> 's syscall_monitor \<times> 's \<Rightarrow> ('s syscall_monitor \<times> 's) result" where
  "SysAfter threadIndex ctxt =
     endSyscall threadIndex (PIN_GetSyscallReturn ctxt) (PIN_GetSyscallErrno ctxt)"

section \<open>Properties\<close>

lemma c_int_of_int:
  "- (2 ^ 31) \<le> n \<Longrightarrow> n < 2 ^ 31 \<Longrightarrow> c_int (word_of_int n :: addrint) = n"
  by (simp add: c_int_def sint_uint unsigned_ucast_eq unsigned_of_int signed_take_bit_take_bit
      signed_take_bit_int_eq_self)

definition begun :: "syscall_context \<Rightarrow> syscall_arguments" where
  "begun ctxt =
     \<lparr>num = word_of_int (PIN_GetSyscallNumber ctxt),
      arg0 = PIN_GetSyscallArgument ctxt 0, arg1 = PIN_GetSyscallArgument ctxt 1,
      arg2 = PIN_GetSyscallArgument ctxt 2, arg3 = PIN_GetSyscallArgument ctxt 3,
      arg4 = PIN_GetSyscallArgument ctxt 4, arg5 = PIN_GetSyscallArgument ctxt 5,
      ret = 0, err = 0\<rparr>"

lemma SysBefore_pending: "pendingSyscalls (SysBefore t c m) = (pendingSyscalls m)(t \<mapsto> begun c)"
  by (simp add: SysBefore_def beginSyscall_def begun_def)

lemma SysBefore_observers [simp]:
  "observers (SysBefore t c m) = observers m"
  "defaultObserver (SysBefore t c m) = defaultObserver m"
  by (simp_all add: SysBefore_def beginSyscall_def)

lemma SysBefore_others:
  "t \<notin> fst ` set others \<Longrightarrow>
    pendingSyscalls (fold (\<lambda>(t, c). SysBefore t c) others m) t = pendingSyscalls m t \<and>
    observers (fold (\<lambda>(t, c). SysBefore t c) others m) = observers m"
  by (induction others arbitrary: m) (auto simp: SysBefore_pending)

lemma endSyscall_observed:
  assumes "observers m (c_int (num (pending m tid))) = Some cbs"
  shows "endSyscall tid r e (m, s) =
    and_then (fold_res (\<lambda>cb. cb (c_int (num (pending m tid)))
        ((pending m tid)\<lparr>ret := r, err := e\<rparr>)) cbs s)
      (\<lambda>s'. Inr (m\<lparr>pendingSyscalls := (pendingSyscalls m)(tid \<mapsto> pending m tid)\<rparr>, s'))"
  using assms by (simp add: endSyscall_def Let_def)

text \<open>
  C28: when a thread's system call ends, the callbacks registered for the number with which
  that thread began it run once each, in the order of registration, with that thread's
  arguments and the returned value, whatever calls other threads have begun in between.
\<close>

theorem SysAfter_runs_callbacks:
  assumes "- (2 ^ 31) \<le> PIN_GetSyscallNumber c" "PIN_GetSyscallNumber c < 2 ^ 31"
    and "tid \<notin> fst ` set others"
    and "callbacks (observers m) (PIN_GetSyscallNumber c) \<noteq> []"
    and "fold_res (\<lambda>cb. cb (PIN_GetSyscallNumber c)
        ((begun c)\<lparr>ret := PIN_GetSyscallReturn d, err := PIN_GetSyscallErrno d\<rparr>))
      (callbacks (observers m) (PIN_GetSyscallNumber c)) s = Inr s'"
  shows "\<exists>m'. SysAfter tid d (fold (\<lambda>(t, c). SysBefore t c) others (SysBefore tid c m), s) =
    Inr (m', s')"
proof -
  let ?m = "fold (\<lambda>(t, c). SysBefore t c) others (SysBefore tid c m)"
  let ?n = "PIN_GetSyscallNumber c"
  have p: "pending ?m tid = begun c"
    using SysBefore_others [OF assms(3), of "SysBefore tid c m"]
    by (simp add: pending_def SysBefore_pending)
  have n: "c_int (num (pending ?m tid)) = ?n"
    using c_int_of_int [OF assms(1,2)] by (simp add: p begun_def)
  have "observers ?m ?n = Some (callbacks (observers m) ?n)"
    using SysBefore_others [OF assms(3), of "SysBefore tid c m"] assms(4)
    by (auto simp: callbacks_def split: option.splits)
  then show ?thesis
    using endSyscall_observed [of ?m tid, unfolded n] assms(5)
    by (simp add: SysAfter_def p)
qed

theorem SysAfter_runs_callbacks_witness:
  "\<exists>m'. SysAfter 7
     \<lparr>PIN_GetSyscallNumber = 3, PIN_GetSyscallArgument = (\<lambda>_. 0), PIN_GetSyscallReturn = 5,
      PIN_GetSyscallErrno = 0\<rparr>
     (fold (\<lambda>(t, c). SysBefore t c)
       [(8, \<lparr>PIN_GetSyscallNumber = 1, PIN_GetSyscallArgument = (\<lambda>_. 0), PIN_GetSyscallReturn = 0,
             PIN_GetSyscallErrno = 0\<rparr>)]
       (SysBefore 7
         \<lparr>PIN_GetSyscallNumber = 2, PIN_GetSyscallArgument = (\<lambda>_. 0), PIN_GetSyscallReturn = 0,
          PIN_GetSyscallErrno = 0\<rparr>
         (addObserver 2 (\<lambda>n args s. Inr (unat (ret args) + s)) new_SyscallMonitor)), 0) =
     Inr (m', 5)"
  by (rule SysAfter_runs_callbacks)
    (simp_all add: new_SyscallMonitor_def addObserver_def add_callback_def callbacks_def)

text \<open>
  The end of a system call that no beginning was seen for is taken for call number 0
  (on x86-64, \<open>read\<close>) with zero arguments: its callbacks run on the returned value.
\<close>

theorem endSyscall_without_begin:
  assumes "pendingSyscalls m tid = None" "observers m 0 = Some cbs"
  shows "endSyscall tid r e (m, s) =
    and_then (fold_res (\<lambda>cb. cb 0 (zero_arguments\<lparr>ret := r, err := e\<rparr>)) cbs s)
      (\<lambda>s'. Inr (m\<lparr>pendingSyscalls := (pendingSyscalls m)(tid \<mapsto> zero_arguments)\<rparr>, s'))"
proof -
  have p: "pending m tid = zero_arguments" using assms(1) by (simp add: pending_def)
  have n: "c_int (num zero_arguments) = 0" by (simp add: zero_arguments_def c_int_def)
  show ?thesis
    using endSyscall_observed [of m tid cbs r e s] assms(2) by (simp only: p n)
qed

theorem endSyscall_without_begin_witness:
  "\<exists>m'. endSyscall 1 9 0
     (addObserver 0 (\<lambda>n args s. Inr (unat (ret args) + s)) new_SyscallMonitor, 0) = Inr (m', 9)"
  using endSyscall_without_begin
    [of "addObserver 0 (\<lambda>n args s. Inr (unat (ret args) + s)) new_SyscallMonitor" 1
      "[\<lambda>n args s. Inr (unat (ret args) + s)]" 9 0 0]
  by (simp add: new_SyscallMonitor_def addObserver_def add_callback_def)

text \<open>
  A system call whose number has no callback makes the monitor test its default
  observer, which the constructor leaves uninitialised.
\<close>

theorem unobserved_syscall_reads_uninitialised:
  assumes "observers m (c_int (num (pending m tid))) = None" "defaultObserver m = None"
  shows "endSyscall tid r e (m, s) = Inl Uninitialised_Read"
  using assms by (simp add: endSyscall_def Let_def)

theorem unobserved_syscall_reads_uninitialised_witness:
  "endSyscall 1 0 0 (beginSyscall 1 35 0 0 0 0 0 0 new_SyscallMonitor, 0 :: nat) =
    Inl Uninitialised_Read"
  by (rule unobserved_syscall_reads_uninitialised)
    (simp_all add: new_SyscallMonitor_def beginSyscall_def)

end
