(* ===== verification/Path_Source.thy ===== *)
theory Path_Source
  imports Syscall_Monitor
begin

text \<open>
  Taint from files: the path monitor, which maps open descriptors to paths and a read to the
  callbacks of its path (\<open>src/monitor_path.cpp\<close>), and the callbacks that taint the bytes
  read, per read, per byte or per file offset (\<open>src/taint_source_path.cpp\<close>).

  The string that an address of the application holds is a parameter; so are the values of
  \<open>rand()\<close>, one per visited address. The offset of \<open>lseek\<close> only reaches the log.
\<close>

section \<open>Path monitor\<close>

type_synonym 's path_callback = "string \<Rightarrow> syscall_arguments \<Rightarrow> 's \<Rightarrow> 's result"

record 's path_monitor =
  observeEverything :: bool
  pathDefaultObserver :: "'s path_callback option"
  allObserver :: "'s path_callback option"
  pathObservers :: "(string, 's path_callback) registry"
  activeFileDescriptors :: "int \<Rightarrow> string option"

definition new_PathMonitor :: "bool \<Rightarrow> 's path_monitor" where
  "new_PathMonitor observeAll =
     \<lparr>observeEverything = observeAll, pathDefaultObserver = None, allObserver = None,
      pathObservers = Map.empty, activeFileDescriptors = Map.empty\<rparr>"

definition observePath :: "string \<Rightarrow> 's path_callback \<Rightarrow> 's path_monitor \<Rightarrow> 's path_monitor" where
  "observePath pathname cb pm = pm\<lparr>pathObservers := add_callback pathname cb (pathObservers pm)\<rparr>"

definition registerCallbackForAll :: "'s path_callback \<Rightarrow> 's path_monitor \<Rightarrow> 's path_monitor" where
  "registerCallbackForAll cb pm = pm\<lparr>allObserver := Some cb\<rparr>"

definition registerDefault :: "'s path_callback \<Rightarrow> 's path_monitor \<Rightarrow> 's path_monitor" where
  "registerDefault cb pm = pm\<lparr>pathDefaultObserver := Some cb\<rparr>"

definition addActiveFileDescriptor :: "int \<Rightarrow> string \<Rightarrow> 's path_monitor \<Rightarrow> 's path_monitor" where
  "addActiveFileDescriptor fd pathname pm =
     pm\<lparr>activeFileDescriptors := (activeFileDescriptors pm)(fd \<mapsto> pathname)\<rparr>"

definition removeActiveFileDescriptor :: "int \<Rightarrow> 's path_monitor \<Rightarrow> 's path_monitor" where
  "removeActiveFileDescriptor fd pm =
     pm\<lparr>activeFileDescriptors := (activeFileDescriptors pm)(fd := None)\<rparr>"

definition notifyForRead :: "'s path_monitor \<Rightarrow> syscall_arguments \<Rightarrow> 's \<Rightarrow> 's result" where
  "notifyForRead pm args s =
     (case activeFileDescriptors pm (c_int (arg0 args)) of
        None \<Rightarrow> Inr s
      | Some pathname \<Rightarrow>
          (case pathObservers pm pathname of
             None \<Rightarrow>
               (if observeEverything pm
                then (case allObserver pm of None \<Rightarrow> Inr s | Some cb \<Rightarrow> cb pathname args s)
                else (case pathDefaultObserver pm of None \<Rightarrow> Inr s | Some cb \<Rightarrow> cb pathname args s))
           | Some activeObservers \<Rightarrow> fold_res (\<lambda>cb. cb pathname args) activeObservers s))"

definition openCallback ::
  "(addrint \<Rightarrow> string) \<Rightarrow> syscall_arguments \<Rightarrow> 's path_monitor \<Rightarrow> 's path_monitor" where
  "openCallback cstring args pm =
     (if c_int (ret args) = -1 then pm
      else addActiveFileDescriptor (c_int (ret args)) (cstring (arg0 args)) pm)"

definition closeCallback :: "syscall_arguments \<Rightarrow> 's path_monitor \<Rightarrow> 's path_monitor" where
  "closeCallback args pm =
     (if c_int (ret args) = -1 then pm
      else removeActiveFileDescriptor (c_int (arg0 args)) pm)"

definition readCallback :: "syscall_arguments \<Rightarrow> 's path_monitor \<Rightarrow> 's \<Rightarrow> 's result" where
  "readCallback args pm s = (if c_int (ret args) = -1 then Inr s else notifyForRead pm args s)"

section \<open>Tainting the bytes of a read\<close>

text \<open>
  The state of the callbacks: the engine, the static counter of the per-offset callback and
  the offset ranges read from the rules file (\<open>datFile\<close>, arrays of 256 entries).
\<close>

record source =
  engine :: dytan
  offset_count :: int
  datFile_start :: "int list"
  datFile_end :: "int list"

definition next_tag :: "int \<Rightarrow> dytan \<Rightarrow> (int \<times> dytan) result" where
  "next_tag rnd st =
     (case taintGen st of
        None \<Rightarrow> Inl Null_Dereference
      | Some g \<Rightarrow> and_then (nextTaintMark rnd g) (\<lambda>(tag, g'). Inr (tag, st\<lparr>taintGen := Some g'\<rparr>)))"

definition put_mem :: "addrint \<Rightarrow> bitset \<Rightarrow> dytan \<Rightarrow> dytan" where
  "put_mem addr b st = st\<lparr>memTaintMap := (memTaintMap st)(addr \<mapsto> b)\<rparr>"

text \<open>\<open>bitset_set_bit(s, tag); memTaintMap[addr] = bitset_copy(s); bitset_reset(s);\<close>\<close>

definition taint_byte :: "int \<Rightarrow> addrint \<Rightarrow> bitset \<times> dytan \<Rightarrow> (bitset \<times> dytan) result" where
  "taint_byte tag addr = (\<lambda>(b, st).
     and_then (bitset_set_bit b (word_of_int tag)) (\<lambda>b.
     and_then (bitset_copy b) (\<lambda>c.
     and_then (bitset_reset b) (\<lambda>b. Inr (b, put_mem addr c st)))))"

text \<open>The addresses of the bytes read: from \<open>buf\<close> to \<open>buf + ret\<close>, \<open>ret\<close> an \<open>int\<close>\<close>

definition read_range :: "syscall_arguments \<Rightarrow> addrint list" where
  "read_range args = addr_loop (arg1 args) (arg1 args + word_of_int (c_int (ret args)))"

text \<open>The body of the per-byte loop, on the local \<open>s\<close> and the engine.\<close>

definition byte_body :: "(addrint \<Rightarrow> int) \<Rightarrow> addrint \<Rightarrow> bitset \<times> dytan \<Rightarrow> (bitset \<times> dytan) result" where
  "byte_body rnd addr = (\<lambda>(b, st).
     and_then (next_tag (rnd addr) st) (\<lambda>(tag, st). taint_byte tag addr (b, st)))"

definition pathSourceReadCallbackPerByte :: "(addrint \<Rightarrow> int) \<Rightarrow> source path_callback" where
  "pathSourceReadCallbackPerByte rnd pathname args src =
     (if c_int (ret args) \<le> 0 then Inr src
      else if taintGen (engine src) = None then Inl Assertion_Failed
      else and_then
        (fold_res (byte_body rnd) (read_range args) (fresh_set (engine src), engine src))
        (\<lambda>(b, st). Inr (src\<lparr>engine := st\<rparr>)))"

definition pathSourceReadCallbackPerRead :: "(addrint \<Rightarrow> int) \<Rightarrow> source path_callback" where
  "pathSourceReadCallbackPerRead rnd pathname args src =
     (if c_int (ret args) \<le> 0 then Inr src
      else if taintGen (engine src) = None then Inl Assertion_Failed
      else and_then (next_tag (rnd (arg1 args)) (engine src)) (\<lambda>(tag, st).
        and_then (bitset_set_bit (fresh_set st) (word_of_int tag)) (\<lambda>b.
        and_then
          (fold_res (\<lambda>addr st. and_then (bitset_copy b) (\<lambda>c. Inr (put_mem addr c st)))
             (read_range args) st)
          (\<lambda>st. Inr (src\<lparr>engine := st\<rparr>)))))"

definition pathSourceReadDefault :: "source path_callback" where
  "pathSourceReadDefault pathname args src = Inr src"

text \<open>
  The local variables of the per-offset loop. The range tests read
  \<open>datFile.start[index]\<close> and \<open>datFile.end[index]\<close>, of 256 entries each.
\<close>

record offset_loop =
  lcount :: int
  lflag :: bool
  lindex :: nat
  ltag :: int
  lset :: bitset
  lstate :: dytan

definition offset_body ::
  "(addrint \<Rightarrow> int) \<Rightarrow> int list \<Rightarrow> int list \<Rightarrow> addrint \<Rightarrow> offset_loop \<Rightarrow> offset_loop result" where
  "offset_body rnd starts ends addr l =
     and_then (int_add (lcount l) 1) (\<lambda>c.
     let i = lindex l in
     if \<not> (i < length starts \<and> i < length ends) then Inl Out_Of_Bounds
     else if c < starts ! i \<or> c > ends ! i then Inr (l\<lparr>lcount := c\<rparr>)
     else
       let fl = (if c = starts ! i then True else lflag l);
           i' = (if c = ends ! i then i + 1 else i) in
       and_then (if fl then next_tag (rnd addr) (lstate l) else Inr (ltag l, lstate l)) (\<lambda>(t, st).
       and_then (taint_byte t addr (lset l, st)) (\<lambda>(b, st).
         Inr (l\<lparr>lcount := c, lflag := False, lindex := i', ltag := t, lset := b, lstate := st\<rparr>))))"

definition pathSourceReadCallbackPerOffset :: "(addrint \<Rightarrow> int) \<Rightarrow> source path_callback" where
  "pathSourceReadCallbackPerOffset rnd pathname args src =
     (if c_int (ret args) \<le> 0 then Inr src
      else if taintGen (engine src) = None then Inl Assertion_Failed
      else and_then
        (fold_res (offset_body rnd (datFile_start src) (datFile_end src)) (read_range args)
           \<lparr>lcount = offset_count src, lflag = False, lindex = 0, ltag = -1,
            lset = fresh_set (engine src), lstate = engine src\<rparr>)
        (\<lambda>l. Inr (src\<lparr>engine := lstate l, offset_count := lcount l\<rparr>)))"

section \<open>Path taint sources\<close>

datatype taint_range_t = PerByte | PerRead | PerOffset

fun path_callback_for :: "(addrint \<Rightarrow> int) \<Rightarrow> taint_range_t \<Rightarrow> source path_callback" where
  "path_callback_for rnd PerByte = pathSourceReadCallbackPerByte rnd"
| "path_callback_for rnd PerRead = pathSourceReadCallbackPerRead rnd"
| "path_callback_for rnd PerOffset = pathSourceReadCallbackPerOffset rnd"

text \<open>The monitor that the constructor makes; registering its callbacks is \<open>activate\<close>.\<close>

definition new_PathTaintSource :: "bool \<Rightarrow> source path_monitor" where
  "new_PathTaintSource observeAll = registerDefault pathSourceReadDefault (new_PathMonitor observeAll)"

definition addObserverForAll ::
  "(addrint \<Rightarrow> int) \<Rightarrow> taint_range_t \<Rightarrow> source path_monitor \<Rightarrow> source path_monitor" where
  "addObserverForAll rnd t pm = registerCallbackForAll (path_callback_for rnd t) pm"

definition addPathSource ::
  "(addrint \<Rightarrow> int) \<Rightarrow> string \<Rightarrow> taint_range_t \<Rightarrow> source path_monitor \<Rightarrow> source path_monitor" where
  "addPathSource rnd pathname t pm = observePath pathname (path_callback_for rnd t) pm"

section \<open>Which reads are noticed\<close>

text \<open>
  C29: a read from a descriptor that was opened on a registered path runs exactly the
  callbacks registered for that path, in order; after the descriptor is closed a read from
  it runs none; failed opens, closes and reads change nothing.
\<close>

theorem path_monitor_tracks_descriptors:
  assumes "c_int (ret o_args) = fd" "fd \<noteq> -1" "c_int (arg0 r_args) = fd"
    and "c_int (ret r_args) \<noteq> -1" "c_int (arg0 c_args) = fd" "c_int (ret c_args) \<noteq> -1"
    and "callbacks (pathObservers pm) (cstring (arg0 o_args)) \<noteq> []"
    and "c_int (ret f_args) = -1"
  shows "readCallback r_args (openCallback cstring o_args pm) s =
      fold_res (\<lambda>cb. cb (cstring (arg0 o_args)) r_args)
        (callbacks (pathObservers pm) (cstring (arg0 o_args))) s \<and>
    readCallback r_args (closeCallback c_args (openCallback cstring o_args pm)) s = Inr s \<and>
    openCallback cstring f_args pm = pm \<and> closeCallback f_args pm = pm \<and>
    readCallback f_args pm s = Inr s"
  using assms
  by (auto simp: readCallback_def openCallback_def closeCallback_def notifyForRead_def
      addActiveFileDescriptor_def removeActiveFileDescriptor_def callbacks_def split: option.splits)

theorem path_monitor_tracks_descriptors_witness:
  "let args = zero_arguments\<lparr>arg0 := 3, ret := 3\<rparr>; failed = zero_arguments\<lparr>ret := -1\<rparr>;
       pm = observePath ''secret'' (\<lambda>p a s. Inr (s + 1)) (new_PathMonitor False) in
   readCallback args (openCallback (\<lambda>_. ''secret'') args pm) (0 :: nat) =
      fold_res (\<lambda>cb. cb ''secret'' args) (callbacks (pathObservers pm) ''secret'') 0 \<and>
    readCallback args (closeCallback args (openCallback (\<lambda>_. ''secret'') args pm)) 0 = Inr 0 \<and>
    openCallback (\<lambda>_. ''secret'') failed pm = pm \<and> closeCallback failed pm = pm \<and>
    readCallback failed pm 0 = Inr 0"
  unfolding Let_def
  by (rule path_monitor_tracks_descriptors [where fd = 3])
    (simp_all add: zero_arguments_def c_int_of_int [of 3, simplified]
      c_int_of_int [of "- 1", simplified] observePath_def new_PathMonitor_def
      add_callback_def callbacks_def)

section \<open>What a noticed read taints\<close>

lemma set_read_range:
  "set (read_range args) = {a. in_range (arg1 args) (word_of_int (c_int (ret args))) a}"
  by (auto simp: read_range_def set_addr_loop in_range_def)

lemma put_mem_simps [simp]:
  "n_marks (put_mem a b st) = n_marks st"
  "NUMBER_OF_TAINT_MARKS (put_mem a b st) = NUMBER_OF_TAINT_MARKS st"
  "taintGen (put_mem a b st) = taintGen st"
  "regTaintMap (put_mem a b st) = regTaintMap st"
  "memTaintMap (put_mem a b st) = (memTaintMap st)(a \<mapsto> b)"
  "fresh_set (put_mem a b st) = fresh_set st"
  by (simp_all add: put_mem_def fresh_set_def n_marks_def)

lemma fresh_set_taintGen [simp]: "fresh_set (st\<lparr>taintGen := g\<rparr>) = fresh_set st"
  by (simp add: fresh_set_def)

lemma taint_byte_ok:
  assumes "state_ok st" "0 \<le> t" "t < NUMBER_OF_TAINT_MARKS st"
  shows "\<exists>c. taint_byte t addr (fresh_set st, st) = Inr (fresh_set st, put_mem addr c st) \<and>
    wf_set (n_marks st) c \<and> marks c = {nat t} \<and> state_ok (put_mem addr c st)"
proof -
  obtain c where c: "bitset_set_bit (fresh_set st) (word_of_int t) = Inr c" "wf_set (n_marks st) c"
      "marks c = {nat t}"
    using fresh_mark_ok [OF assms] by blast
  then show ?thesis
    using wf_set_copy [OF c(2)] wf_set_reset [OF c(2)] state_ok_mem [OF assms(1) c(2), of addr]
    by (intro exI [of _ c]) (simp add: taint_byte_def fresh_set_def put_mem_def)
qed

lemma byte_body_counter:
  assumes "state_ok st" "taintGen st = Some (TaintGenerator c m)"
    and "-1 \<le> c" "0 < m" "m \<le> NUMBER_OF_TAINT_MARKS st" "c < INT_MAX"
  shows "\<exists>b. byte_body rnd a (fresh_set st, st) =
      Inr (fresh_set st, put_mem a b (st\<lparr>taintGen := Some (TaintGenerator (c + 1) m)\<rparr>)) \<and>
    marks b = {nat ((c + 1) mod m)} \<and>
    state_ok (put_mem a b (st\<lparr>taintGen := Some (TaintGenerator (c + 1) m)\<rparr>))"
proof -
  let ?st = "st\<lparr>taintGen := Some (TaintGenerator (c + 1) m)\<rparr>"
  have "next_tag (rnd a) st = Inr ((c + 1) mod m, ?st)"
    using next_counter [OF assms(3,4,6), of "rnd a"] assms(2) by (simp add: next_tag_def)
  moreover have "(c + 1) mod m < m" "0 \<le> (c + 1) mod m" using assms(4) by simp_all
  then have "(c + 1) mod m < NUMBER_OF_TAINT_MARKS ?st" using assms(5) by simp
  ultimately show ?thesis
    using taint_byte_ok [of ?st "(c + 1) mod m" a] assms(1) \<open>0 \<le> (c + 1) mod m\<close>
    by (auto simp: byte_body_def state_ok_gen)
qed

lemma byte_loop_counter:
  assumes "state_ok st" "taintGen st = Some (TaintGenerator c m)"
    and "-1 \<le> c" "0 < m" "m \<le> NUMBER_OF_TAINT_MARKS st" "c + int (length xs) \<le> INT_MAX"
    and "distinct xs"
  shows "\<exists>st'. fold_res (byte_body rnd) xs (fresh_set st, st) = Inr (fresh_set st, st') \<and>
    state_ok st' \<and> regTaintMap st' = regTaintMap st \<and>
    taintGen st' = Some (TaintGenerator (c + int (length xs)) m) \<and>
    (\<forall>i < length xs. map_option marks (memTaintMap st' (xs ! i)) = Some {nat ((c + 1 + int i) mod m)}) \<and>
    (\<forall>a. a \<notin> set xs \<longrightarrow> memTaintMap st' a = memTaintMap st a)"
  using assms
proof (induction xs arbitrary: st c)
  case (Cons x xs)
  obtain b where b: "byte_body rnd x (fresh_set st, st) =
      Inr (fresh_set st, put_mem x b (st\<lparr>taintGen := Some (TaintGenerator (c + 1) m)\<rparr>))"
    "marks b = {nat ((c + 1) mod m)}"
    "state_ok (put_mem x b (st\<lparr>taintGen := Some (TaintGenerator (c + 1) m)\<rparr>))"
    using byte_body_counter [of st c m rnd x] Cons.prems by auto
  let ?st = "put_mem x b (st\<lparr>taintGen := Some (TaintGenerator (c + 1) m)\<rparr>)"
  obtain st' where st': "fold_res (byte_body rnd) xs (fresh_set ?st, ?st) = Inr (fresh_set ?st, st')"
    "state_ok st'" "regTaintMap st' = regTaintMap ?st"
    "taintGen st' = Some (TaintGenerator (c + 1 + int (length xs)) m)"
    "\<forall>i < length xs. map_option marks (memTaintMap st' (xs ! i)) = Some {nat ((c + 1 + 1 + int i) mod m)}"
    "\<forall>a. a \<notin> set xs \<longrightarrow> memTaintMap st' a = memTaintMap ?st a"
    using Cons.IH [OF b(3), of "c + 1"] Cons.prems by auto
  have "map_option marks (memTaintMap st' ((x # xs) ! i)) = Some {nat ((c + 1 + int i) mod m)}"
    if "i < length (x # xs)" for i
  proof (cases i)
    case 0
    then show ?thesis using st'(6) Cons.prems(7) b(2) by simp
  next
    case (Suc j)
    then show ?thesis using st'(5) that by (simp add: add.assoc)
  qed
  with b st' show ?case by (intro exI [of _ st']) (auto simp: add.assoc)
qed simp

text \<open>
  A per-byte source whose counting generator has at least as many marks as the read has
  bytes gives every byte read its own mark, different from the marks of the other bytes;
  nothing else changes, and the state stays well-formed.
\<close>

theorem per_byte_marks_distinct:
  assumes "state_ok (engine src)" "taintGen (engine src) = Some (TaintGenerator c m)"
    and "-1 \<le> c" "m \<le> NUMBER_OF_TAINT_MARKS (engine src)" "0 < c_int (ret args)"
    and "int (length (read_range args)) \<le> m" "0 < m" "c + m \<le> INT_MAX"
  shows "\<exists>src' f. pathSourceReadCallbackPerByte rnd pathname args src = Inr src' \<and>
    state_ok (engine src') \<and> regTaintMap (engine src') = regTaintMap (engine src) \<and>
    inj_on f (set (read_range args)) \<and>
    mem (abs_state (engine src')) =
      (\<lambda>a. if a \<in> set (read_range args) then Some {f a} else mem (abs_state (engine src)) a)"
proof -
  let ?xs = "read_range args"
  let ?k = "\<lambda>i. nat ((c + 1 + int i) mod m)"
  have d: "distinct ?xs" using addr_loop_sorted by (auto simp: read_range_def)
  have "c + int (length ?xs) \<le> INT_MAX" using assms(6,8) by linarith
  then obtain st' where st': "fold_res (byte_body rnd) ?xs (fresh_set (engine src), engine src) =
      Inr (fresh_set (engine src), st')" "state_ok st'" "regTaintMap st' = regTaintMap (engine src)"
    "\<forall>i < length ?xs. map_option marks (memTaintMap st' (?xs ! i)) = Some {?k i}"
    "\<forall>a. a \<notin> set ?xs \<longrightarrow> memTaintMap st' a = memTaintMap (engine src) a"
    using byte_loop_counter [OF assms(1-3,7,4) _ d] by blast
  have run: "pathSourceReadCallbackPerByte rnd pathname args src = Inr (src\<lparr>engine := st'\<rparr>)"
    using st'(1) assms(2,5) by (simp add: pathSourceReadCallbackPerByte_def byte_body_def)
  define f where "f a = ?k (SOME i. i < length ?xs \<and> ?xs ! i = a)" for a
  have f: "f (?xs ! i) = ?k i" if "i < length ?xs" for i
  proof -
    have "(SOME j. j < length ?xs \<and> ?xs ! j = ?xs ! i) = i"
      using that d by (intro some_equality) (auto simp: nth_eq_iff_index_eq)
    then show ?thesis by (simp add: f_def)
  qed
  have "inj_on (\<lambda>i. (c + 1 + int i) mod m) {0..<length ?xs}"
  proof -
    have "inj_on (\<lambda>i. (c + 1 + int i) mod m) {0..<nat m}"
      using consecutive_marks_distinct(1) [OF assms(7), of "c + 1"] by (simp add: distinct_map)
    then show ?thesis by (rule inj_on_subset) (use assms(6) in auto)
  qed
  then have "inj_on ?k {0..<length ?xs}"
    using assms(7) by (auto simp: inj_on_def nat_eq_iff2)
  then have inj: "i = j" if "?k i = ?k j" "i < length ?xs" "j < length ?xs" for i j
    using that by (auto dest: inj_onD)
  have "inj_on f (set ?xs)"
  proof (rule inj_onI)
    fix a b assume "a \<in> set ?xs" "b \<in> set ?xs" "f a = f b"
    then show "a = b" using f inj by (metis in_set_conv_nth)
  qed
  moreover have "mem (abs_state st') a =
      (if a \<in> set ?xs then Some {f a} else mem (abs_state (engine src)) a)" for a
    using st'(4,5) f by (auto simp: in_set_conv_nth)
  ultimately show ?thesis
    using run st'(2,3) by (intro exI [of _ "src\<lparr>engine := st'\<rparr>"] exI [of _ f]) auto
qed

text \<open>A source before any read, with a generator of \<open>m\<close> marks and no offset ranges.\<close>

definition counter_source :: "int \<Rightarrow> source" where
  "counter_source m =
     \<lparr>engine = init_state m (Some (TaintGenerator 1 m)), offset_count = -1,
      datFile_start = replicate 256 0, datFile_end = replicate 256 0\<rparr>"

lemma counter_source_simps [simp]:
  "taintGen (engine (counter_source m)) = Some (TaintGenerator 1 m)"
  "NUMBER_OF_TAINT_MARKS (engine (counter_source m)) = m"
  "offset_count (counter_source m) = -1"
  by (simp_all add: counter_source_def init_state_def)

lemma counter_source_ok: "0 \<le> m \<Longrightarrow> m < 2 ^ 31 \<Longrightarrow> state_ok (engine (counter_source m))"
  by (simp add: counter_source_def state_ok_init)

lemma c_int_simps [simp]:
  "c_int (0 :: addrint) = 0" "c_int (1 :: addrint) = 1"
  "numeral k < (2 ^ 31 :: int) \<Longrightarrow> c_int (numeral k :: addrint) = numeral k"
  using c_int_of_int [of 0] c_int_of_int [of 1] c_int_of_int [of "numeral k"]
  by (simp_all add: less_imp_le order_trans [OF _ zero_le_numeral])

theorem per_byte_marks_distinct_witness:
  "let args = zero_arguments\<lparr>arg1 := 4096, ret := 2\<rparr> in
   \<exists>src' f. pathSourceReadCallbackPerByte (\<lambda>_. 0) ''secret'' args (counter_source 8) = Inr src' \<and>
    state_ok (engine src') \<and> regTaintMap (engine src') = regTaintMap (engine (counter_source 8)) \<and>
    inj_on f (set (read_range args)) \<and>
    mem (abs_state (engine src')) =
      (\<lambda>a. if a \<in> set (read_range args) then Some {f a}
           else mem (abs_state (engine (counter_source 8))) a)"
proof -
  have "read_range (zero_arguments\<lparr>arg1 := 4096, ret := 2\<rparr>) = [4096, 4097]"
    by (simp add: read_range_def addr_loop.simps)
  then show ?thesis
    unfolding Let_def
    by (intro per_byte_marks_distinct [where c = 1 and m = 8])
      (simp_all add: counter_source_ok INT_MAX_def)
qed

lemma next_tag_cases:
  assumes "gen_ok n g" "0 \<le> rnd" "taintGen st = Some g"
  shows "next_tag rnd st = Inl Signed_Overflow \<or>
    (\<exists>t g'. next_tag rnd st = Inr (t, st\<lparr>taintGen := Some g'\<rparr>) \<and> 0 \<le> t \<and> t < n \<and> gen_ok n g')"
  using assms(1,2)
proof (cases rule: taint_gen.next_cases)
  case (mark t g')
  then show ?thesis using assms(3) by (auto simp: next_tag_def)
next
  case overflow
  then show ?thesis using assms(3) by (simp add: next_tag_def)
qed

lemma PerRead_ok:
  assumes "state_ok (engine src)" "0 < c_int (ret args)" "taintGen (engine src) \<noteq> None"
    and t: "next_tag (rnd (arg1 args)) (engine src) = Inr (t, (engine src)\<lparr>taintGen := Some g'\<rparr>)"
      "0 \<le> t" "t < NUMBER_OF_TAINT_MARKS (engine src)"
  shows "\<exists>st'. pathSourceReadCallbackPerRead rnd pathname args src = Inr (src\<lparr>engine := st'\<rparr>) \<and>
    state_ok st' \<and> taintGen st' = Some g' \<and>
    abs_state st' = taint_range (arg1 args) (word_of_int (c_int (ret args))) (nat t)
      (abs_state (engine src))"
proof -
  let ?st = "(engine src)\<lparr>taintGen := Some g'\<rparr>"
  have ok: "state_ok ?st" using assms(1) by (simp add: state_ok_gen)
  obtain b where b: "bitset_set_bit (fresh_set ?st) (word_of_int t) = Inr b" "wf_set (n_marks ?st) b"
      "marks b = {nat t}"
    using fresh_mark_ok [OF ok t(2)] t(3) by auto
  let ?f = "\<lambda>addr st. and_then (bitset_copy b) (\<lambda>c. Inr (put_mem addr c st))"
  have "?f a st' = Inr (st'\<lparr>memTaintMap := (memTaintMap st')(a \<mapsto> b)\<rparr>)" for a st'
    using wf_set_copy [OF b(2)] by (simp add: put_mem_def)
  then obtain st' where st': "fold_res ?f (read_range args) ?st = Inr st'" "state_ok st'"
      "st' = ?st\<lparr>memTaintMap :=
        (\<lambda>x. if x \<in> set (read_range args) then Some b else memTaintMap ?st x)\<rparr>"
    using assign_loop [OF ok b(2), of ?f "read_range args"] by blast
  have "abs_state st' = taint_range (arg1 args) (word_of_int (c_int (ret args))) (nat t)
      (abs_state (engine src))"
    unfolding st'(3) using b(3)
    by (auto simp: abs_update_mem taint_range_def set_read_range intro!: taint_eqI)
  moreover have "pathSourceReadCallbackPerRead rnd pathname args src = Inr (src\<lparr>engine := st'\<rparr>)"
    using t(1) b(1) st'(1) assms(2,3) by (simp add: pathSourceReadCallbackPerRead_def)
  moreover have "taintGen st' = Some g'" by (simp add: st'(3))
  ultimately show ?thesis using st'(2) by blast
qed

text \<open>
  C30: a per-read source gives all bytes of a successful read one and the same mark, the one that
  the generator owes next (\<open>mark_spec\<close>), which is below the number of marks; the generator moves
  on, so the next read gets the mark after it. Nothing else changes. The only failure is that of
  a counter that has reached \<open>INT_MAX\<close>.
\<close>

theorem per_read_taints_buffer:
  assumes "state_ok (engine src)" "taintGen (engine src) = Some g"
    and "gen_ok (NUMBER_OF_TAINT_MARKS (engine src)) g" "0 < c_int (ret args)"
    and "0 \<le> rnd (arg1 args)"
  shows "case mark_spec (rnd (arg1 args)) g of
      None \<Rightarrow> pathSourceReadCallbackPerRead rnd pathname args src = Inl Signed_Overflow
    | Some (t, g') \<Rightarrow> 0 \<le> t \<and> t < NUMBER_OF_TAINT_MARKS (engine src) \<and>
        (\<exists>st'. pathSourceReadCallbackPerRead rnd pathname args src = Inr (src\<lparr>engine := st'\<rparr>) \<and>
           state_ok st' \<and> taintGen st' = Some g' \<and>
           abs_state st' = taint_range (arg1 args) (word_of_int (c_int (ret args))) (nat t)
             (abs_state (engine src)))"
proof -
  note draw = assms(3,5) state_okD(2) [OF assms(1)]
  note spec = nextTaintMark_spec [OF draw]
  show ?thesis
  proof (cases "mark_spec (rnd (arg1 args)) g")
    case None
    then show ?thesis
      using assms(2,4) spec by (simp add: pathSourceReadCallbackPerRead_def next_tag_def)
  next
    case (Some p)
    obtain t g' where p: "p = (t, g')" by (cases p)
    have t: "next_tag (rnd (arg1 args)) (engine src) = Inr (t, (engine src)\<lparr>taintGen := Some g'\<rparr>)"
        "0 \<le> t" "t < NUMBER_OF_TAINT_MARKS (engine src)"
      using mark_spec_legal [OF draw] Some p assms(2) spec by (auto simp: next_tag_def)
    then show ?thesis
      using PerRead_ok [of src args rnd t g', OF assms(1,4) _ t] assms(2) Some p by simp
  qed
qed

theorem per_read_taints_buffer_witness:
  "\<exists>st'. pathSourceReadCallbackPerRead (\<lambda>_. 0) ''secret'' (zero_arguments\<lparr>arg1 := 4096, ret := 2\<rparr>)
      (counter_source 8) = Inr ((counter_source 8)\<lparr>engine := st'\<rparr>) \<and>
    taintGen st' = Some (TaintGenerator 2 8) \<and>
    mem (abs_state st') 4097 = Some {2} \<and> mem (abs_state st') 4098 = None"
proof -
  let ?args = "zero_arguments\<lparr>arg1 := 4096, ret := 2\<rparr>"
  have m: "mem (abs_state (engine (counter_source 8))) a = None" for a
    by (simp add: counter_source_def init_state_def)
  have w: "(word_of_int (c_int (ret ?args)) :: addrint) = 2" by simp
  show ?thesis
    using per_read_taints_buffer [of "counter_source 8" "TaintGenerator 1 8" ?args "\<lambda>_. 0" "''secret''"]
    unfolding w by (auto simp: counter_source_ok gen_ok_def INT_MAX_def taint_range_def in_range_def m
        simp del: abs_state_sel)
qed

text \<open>A byte whose offset is past the end of the first range is skipped, whatever range it is in.\<close>

lemma past_first_range:
  assumes "lindex l = 0" "e \<le> lcount l" "lcount l + int (length xs) \<le> INT_MAX" "0 \<le> e"
  shows "fold_res (offset_body rnd (s # starts) (e # ends)) xs l =
    Inr (l\<lparr>lcount := lcount l + int (length xs)\<rparr>)"
  using assms
proof (induction xs arbitrary: l)
  case (Cons a xs)
  let ?l = "l\<lparr>lcount := lcount l + 1\<rparr>"
  have "int_add (lcount l) 1 = Inr (lcount l + 1)" using Cons.prems by (simp add: int_add_def)
  then have "offset_body rnd (s # starts) (e # ends) a l = Inr ?l"
    using Cons.prems by (simp add: offset_body_def)
  moreover have "fold_res (offset_body rnd (s # starts) (e # ends)) xs ?l =
      Inr (?l\<lparr>lcount := lcount ?l + int (length xs)\<rparr>)"
    using Cons.prems by (intro Cons.IH) simp_all
  ultimately show ?case by (simp add: algebra_simps)
qed simp

text \<open>
  C40: The per-offset callback fails in a later read of the file, because its counter of offsets
  is static but its position in the table of ranges starts again at the first one. When the
  first range continues into the read, the first byte is inside the range but not at its start:
  no mark is drawn, and setting the mark -1 makes the assertion of the bitset library stop the
  tool. When the first range has ended before the read, no byte of the read is marked, whatever
  the later ranges of the table are: only the counter moves.
\<close>

theorem per_offset_later_reads:
  assumes "state_ok (engine src)" "taintGen (engine src) \<noteq> None" "0 < c_int (ret args)"
    and "datFile_start src = s # starts" "datFile_end src = e # ends" "0 \<le> s" "s \<le> e"
  shows "(s \<le> offset_count src \<and> offset_count src < e \<and> e \<le> INT_MAX \<and> read_range args \<noteq> [] \<longrightarrow>
      pathSourceReadCallbackPerOffset rnd pathname args src = Inl Assertion_Failed) \<and>
    (e \<le> offset_count src \<and> offset_count src + int (length (read_range args)) \<le> INT_MAX \<longrightarrow>
      pathSourceReadCallbackPerOffset rnd pathname args src =
        Inr (src\<lparr>offset_count := offset_count src + int (length (read_range args))\<rparr>))"
proof (intro conjI impI)
  assume *: "s \<le> offset_count src \<and> offset_count src < e \<and> e \<le> INT_MAX \<and> read_range args \<noteq> []"
  then obtain a xs where xs: "read_range args = a # xs" by (auto simp: neq_Nil_conv)
  have f: "nbits (fresh_set (engine src)) = n_marks (engine src)"
    using fresh_set_ok [OF assms(1)] by (simp add: wf_set_def)
  have "unat (n_marks (engine src)) < 2 ^ 31"
    using state_ok_unat [OF assms(1)] state_okD(1,2) [OF assms(1)] by simp
  then have "\<not> (word_of_int (-1) :: size_t) < n_marks (engine src)"
    by (simp add: word_less_nat_alt unsigned_minus_1_eq_mask mask_eq_exp_minus_1)
  then have "taint_byte (-1) a (fresh_set (engine src), engine src) = Inl Assertion_Failed"
    by (simp add: taint_byte_def bitset_set_bit_def f)
  then show "pathSourceReadCallbackPerOffset rnd pathname args src = Inl Assertion_Failed"
    using assms(2-6) * xs by (simp add: pathSourceReadCallbackPerOffset_def offset_body_def int_add_def)
next
  assume *: "e \<le> offset_count src \<and> offset_count src + int (length (read_range args)) \<le> INT_MAX"
  then show "pathSourceReadCallbackPerOffset rnd pathname args src =
      Inr (src\<lparr>offset_count := offset_count src + int (length (read_range args))\<rparr>)"
    using assms(2-7) by (simp add: pathSourceReadCallbackPerOffset_def past_first_range)
qed

theorem per_offset_later_reads_witness:
  "let args = zero_arguments\<lparr>arg1 := 4096, ret := 2\<rparr>;
       src = (counter_source 8)\<lparr>datFile_start := [0, 20], datFile_end := [9, 29]\<rparr> in
   pathSourceReadCallbackPerOffset (\<lambda>_. 0) ''secret'' args (src\<lparr>offset_count := 4\<rparr>) = Inl Assertion_Failed \<and>
   pathSourceReadCallbackPerOffset (\<lambda>_. 0) ''secret'' args (src\<lparr>offset_count := 23\<rparr>) =
     Inr (src\<lparr>offset_count := 25\<rparr>)"
proof -
  let ?args = "zero_arguments\<lparr>arg1 := 4096, ret := 2\<rparr>"
  have r: "read_range ?args = [4096, 4097]" by (simp add: read_range_def addr_loop.simps)
  have "pathSourceReadCallbackPerOffset (\<lambda>_. 0) ''secret'' ?args
      ((counter_source 8)\<lparr>datFile_start := [0, 20], datFile_end := [9, 29], offset_count := 4\<rparr>) = Inl Assertion_Failed"
    using r counter_source_ok [of 8]
    by (intro per_offset_later_reads [where s = 0 and e = 9, THEN conjunct1, rule_format])
      (simp_all add: INT_MAX_def)
  moreover have "pathSourceReadCallbackPerOffset (\<lambda>_. 0) ''secret'' ?args
      ((counter_source 8)\<lparr>datFile_start := [0, 20], datFile_end := [9, 29], offset_count := 23\<rparr>) =
    Inr ((counter_source 8)\<lparr>datFile_start := [0, 20], datFile_end := [9, 29], offset_count := 25\<rparr>)"
    using r counter_source_ok [of 8] per_offset_later_reads [where s = 0 and e = 9 and args = ?args
      and src = "(counter_source 8)\<lparr>datFile_start := [0, 20], datFile_end := [9, 29], offset_count := 23\<rparr>"
      and rnd = "\<lambda>_. 0" and pathname = "''secret''", THEN conjunct2, rule_format]
    by (simp add: INT_MAX_def)
  ultimately show ?thesis unfolding Let_def by simp
qed

end
