(* ===== verification/C_Strings.thy ===== *)
theory C_Strings
  imports Dytan_Prelude
begin

text \<open>
  The functions of the C and C++ libraries with which the tool reads its configuration:
  \<open>strtok\<close> with the delimiters comma and newline, \<open>atoi\<close> and the extraction of an \<open>int\<close> from
  a stream (\<open>convertTo<int>\<close>, \<open>src/include/dytan.h\<close>, lines 130--158). Printing a number and
  reading it gives it back.
\<close>

section \<open>Tokens\<close>

definition delim :: "char \<Rightarrow> bool" where
  "delim c \<longleftrightarrow> c = CHR '','' \<or> c = CHR 0x0A"

text \<open>The successive results of \<open>strtok(s, ",\n")\<close>, \<open>strtok(NULL, ",\n")\<close>, \dots\<close>

function strtok_all :: "string \<Rightarrow> string list" where
  "strtok_all s =
     (case dropWhile delim s of
        [] \<Rightarrow> []
      | c # cs \<Rightarrow> (c # takeWhile (\<lambda>c. \<not> delim c) cs) # strtok_all (dropWhile (\<lambda>c. \<not> delim c) cs))"
  by auto
termination
proof (relation "measure length", simp)
  fix s :: string and c cs assume "dropWhile delim s = c # cs"
  then have "length (c # cs) \<le> length s" by (metis length_dropWhile_le)
  moreover have "length (dropWhile (\<lambda>c. \<not> delim c) cs) \<le> length cs" by (rule length_dropWhile_le)
  ultimately show "(dropWhile (\<lambda>c. \<not> delim c) cs, s) \<in> measure length" by simp
qed

declare strtok_all.simps [simp del]

text \<open>A token: not empty and without a delimiter.\<close>

definition is_token :: "string \<Rightarrow> bool" where
  "is_token t \<longleftrightarrow> t \<noteq> [] \<and> (\<forall>c \<in> set t. \<not> delim c)"

lemma strtok_Nil [simp]: "strtok_all [] = []"
  by (subst strtok_all.simps) simp

lemma strtok_delim: "delim d \<Longrightarrow> strtok_all (d # s) = strtok_all s"
  unfolding strtok_all.simps [of "d # s"] strtok_all.simps [of s] by simp

lemma strtok_token:
  assumes "is_token t" "delim d"
  shows "strtok_all (t @ d # s) = t # strtok_all s"
proof -
  obtain c cs where t: "t = c # cs" using assms(1) by (cases t) (auto simp: is_token_def)
  have "dropWhile delim (t @ d # s) = t @ d # s" "\<forall>x \<in> set cs. \<not> delim x"
    using assms(1) t by (auto simp: is_token_def)
  moreover from this have "takeWhile (\<lambda>c. \<not> delim c) (cs @ d # s) = cs"
    "dropWhile (\<lambda>c. \<not> delim c) (cs @ d # s) = d # s"
    using assms(2) by simp_all
  ultimately have "strtok_all (t @ d # s) = t # strtok_all (d # s)"
    using t by (subst strtok_all.simps) simp
  then show ?thesis using strtok_delim [OF assms(2)] by simp
qed

text \<open>Tokens that are each followed by a delimiter.\<close>

lemma strtok_tokens:
  "(\<And>t d. (t, d) \<in> set tds \<Longrightarrow> is_token t \<and> delim d) \<Longrightarrow>
    strtok_all (concat (map (\<lambda>(t, d). t @ [d]) tds)) = map fst tds"
proof (induction tds)
  case (Cons td tds)
  obtain t d where td: "td = (t, d)" by fastforce
  have "is_token t" "delim d" using Cons.prems td by auto
  moreover have "strtok_all (concat (map (\<lambda>(t, d). t @ [d]) tds)) = map fst tds"
    using Cons.prems by (intro Cons.IH) auto
  ultimately show ?case using td by (simp add: strtok_token)
qed simp

section \<open>Numbers\<close>

definition is_digit :: "char \<Rightarrow> bool" where
  "is_digit c \<longleftrightarrow> 48 \<le> (of_char c :: nat) \<and> (of_char c :: nat) \<le> 57"

definition is_space :: "char \<Rightarrow> bool" where
  "is_space c \<longleftrightarrow> c = CHR '' '' \<or> (9 \<le> (of_char c :: nat) \<and> (of_char c :: nat) \<le> 13)"

definition digits_value :: "string \<Rightarrow> int" where
  "digits_value s = foldl (\<lambda>n c. 10 * n + (int (of_char c) - 48)) 0 s"

text \<open>After white space, an optional sign and digits: the value, whether there was a digit, the rest.\<close>

definition scan_int :: "string \<Rightarrow> int \<times> bool \<times> string" where
  "scan_int s =
     (let s = dropWhile is_space s;
          (sign, s) = (case s of
              c # cs \<Rightarrow> if c = CHR ''-'' then (-1, cs) else if c = CHR ''+'' then (1, cs) else (1, s)
            | [] \<Rightarrow> (1, s));
          ds = takeWhile is_digit s in
      (sign * digits_value ds, ds \<noteq> [], dropWhile is_digit s))"

text \<open>\<open>atoi\<close>: the \<open>long\<close> that \<open>strtol\<close> returns, which saturates, cut down to an \<open>int\<close>.\<close>

definition atoi :: "string \<Rightarrow> int" where
  "atoi s = signed_take_bit 31 (max (- (2 ^ 63)) (min (2 ^ 63 - 1) (fst (scan_int s))))"

definition convertTo_int :: "string \<Rightarrow> int result" where
  "convertTo_int s =
     (case scan_int s of (v, found, rest) \<Rightarrow>
        if found \<and> rest = [] \<and> - (2 ^ 31) \<le> v \<and> v < 2 ^ 31 then Inr v else Inl Uncaught_Exception)"

section \<open>Printing numbers\<close>

definition digit_char :: "nat \<Rightarrow> char" where
  "digit_char d = char_of (48 + d)"

fun decimal :: "nat \<Rightarrow> string" where
  "decimal n = (if n < 10 then [digit_char n] else decimal (n div 10) @ [digit_char (n mod 10)])"

declare decimal.simps [simp del]

definition show_int :: "int \<Rightarrow> string" where
  "show_int i = (if i < 0 then CHR ''-'' # decimal (nat (- i)) else decimal (nat i))"

lemma digit_char_value: "d < 10 \<Longrightarrow> (of_char (digit_char d) :: nat) = 48 + d"
  by (simp add: digit_char_def)

lemma decimal_digits: "decimal n \<noteq> [] \<and> (\<forall>c \<in> set (decimal n). is_digit c) \<and> digits_value (decimal n) = int n"
proof (induction n rule: decimal.induct)
  case (1 n)
  have d: "is_digit (digit_char d)" "int (of_char (digit_char d)) - 48 = int d" if "d < 10" for d
    using that by (simp_all add: is_digit_def digit_char_value)
  show ?case
  proof (cases "n < 10")
    case True
    then show ?thesis using d by (simp add: decimal.simps [of n] digits_value_def)
  next
    case False
    have "10 * int (n div 10) + int (n mod 10) = int n" by (simp flip: of_nat_mult of_nat_add add: zdiv_int zmod_int)
    then show ?thesis
      using False 1 d [of "n mod 10"] by (subst (1 2 3) decimal.simps) (auto simp: digits_value_def)
  qed
qed

lemma digit_not:
  "is_digit c \<Longrightarrow> \<not> is_space c \<and> \<not> delim c \<and> c \<noteq> CHR ''-'' \<and> c \<noteq> CHR ''+'' \<and> c \<noteq> CHR 0x00"
  by (auto simp: is_digit_def is_space_def delim_def)

lemma scan_show_int: "scan_int (show_int i) = (i, True, [])"
proof -
  have scan: "scan_int (decimal n) = (int n, True, [])" and neg: "scan_int (CHR ''-'' # decimal n) = (- int n, True, [])" for n
  proof -
    note d = decimal_digits [of n]
    obtain c cs where c: "decimal n = c # cs" "is_digit c" using d by (cases "decimal n") auto
    have tw: "takeWhile is_digit cs = cs" "dropWhile is_digit cs = []"
      using d c(1) by (simp_all add: takeWhile_eq_all_conv)
    have "is_digit c" "digits_value (c # cs) = int n" using c d by simp_all
    then show "scan_int (decimal n) = (int n, True, [])" "scan_int (CHR ''-'' # decimal n) = (- int n, True, [])"
      using digit_not [OF c(2)] by (simp_all add: scan_int_def c(1) tw) (simp_all add: is_space_def tw)
  qed
  show ?thesis using scan [of "nat i"] neg [of "nat (- i)"] by (simp add: show_int_def)
qed

lemma show_int_samples: "show_int 1 = ''1''" "show_int 16 = ''16''"
  by code_simp+

text \<open>Reading back what was printed.\<close>

lemma atoi_show_int: "- (2 ^ 31) \<le> i \<Longrightarrow> i < 2 ^ 31 \<Longrightarrow> atoi (show_int i) = i"
  by (simp add: atoi_def scan_show_int signed_take_bit_int_eq_self)

lemma convertTo_show_int: "- (2 ^ 31) \<le> i \<Longrightarrow> i < 2 ^ 31 \<Longrightarrow> convertTo_int (show_int i) = Inr i"
  by (simp add: convertTo_int_def scan_show_int)

lemma show_int_token: "is_token (show_int i)"
proof -
  have "c \<in> set (decimal n) \<Longrightarrow> \<not> delim c" for c n using decimal_digits [of n] digit_not by blast
  then show ?thesis using decimal_digits by (auto simp: is_token_def show_int_def delim_def)
qed

text \<open>
  A 256-byte buffer of zeros, filled by one \<open>fread\<close> and then read as a string. When the file
  fills it and has no null byte in it, the string has no end.
\<close>

definition read_buffer :: "string \<Rightarrow> string result" where
  "read_buffer content =
     (let buf = take 256 content in
      if length buf = 256 \<and> CHR 0x00 \<notin> set buf then Inl Out_Of_Bounds
      else Inr (takeWhile (\<lambda>c. c \<noteq> CHR 0x00) buf))"

lemma read_buffer_short:
  "length s < 256 \<Longrightarrow> CHR 0x00 \<notin> set s \<Longrightarrow> read_buffer s = Inr s"
  by (auto simp: read_buffer_def takeWhile_eq_all_conv)

text \<open>A buffer has at most 128 tokens: each but the last is followed by a delimiter.\<close>

lemma strtok_all_length: "2 * length (strtok_all s) \<le> Suc (length s)"
proof (induction s rule: measure_induct_rule [of length])
  case (less s)
  show ?case
  proof (cases "dropWhile delim s")
    case Nil
    then have "strtok_all s = []" by (subst strtok_all.simps) (simp only: list.case)
    then show ?thesis by simp
  next
    case (Cons c cs)
    define r where "r = dropWhile (\<lambda>c. \<not> delim c) cs"
    have len: "Suc (length cs) \<le> length s"
      using Cons length_dropWhile_le [of delim s] by simp
    have "2 * length (strtok_all r) \<le> length cs"
    proof (cases r)
      case d: (Cons d ds)
      have le: "Suc (length ds) \<le> length cs"
        using d length_dropWhile_le [of "\<lambda>c. \<not> delim c" cs] by (simp add: r_def)
      have "delim d" using d hd_dropWhile [of "\<lambda>c. \<not> delim c" cs] by (simp add: r_def)
      then have "strtok_all r = strtok_all ds" using d strtok_delim by simp
      then show ?thesis using less.IH [of ds] le len by simp
    qed simp
    then show ?thesis using Cons len by (subst strtok_all.simps) (simp add: r_def)
  qed
qed

end
