(* ===== verification/Network_Source.thy ===== *)
theory Network_Source
  imports Path_Source C_Strings "HOL-Library.AList"
begin

text \<open>
  Taint from the network: the monitor that maps sockets to addresses and a receive to the
  callbacks of the address (\<open>src/monitor_network.cpp\<close>), and the callbacks that taint the
  bytes received (\<open>src/taint_source_network.cpp\<close>). The parameters: \<open>inet_addr\<close>, and what the
  application's memory holds, as words and as socket addresses. On the 64-bit build only
  \<open>readNetworkCallback\<close> and \<open>closeNetworkCallback\<close> are registered; \<open>socketcall\<close> is for
  32 bits.
\<close>

section \<open>Addresses\<close>

text \<open>\<open>strAddress\<close> only reaches the log.\<close>

record net_address =
  ip :: "32 word"
  port :: "16 word"

definition NetworkAddress_cmp :: "net_address \<Rightarrow> net_address \<Rightarrow> bool" where
  "NetworkAddress_cmp a b \<longleftrightarrow> ip a < ip b \<or> sint (port a) < sint (port b)"

text \<open>
  A \<open>map\<close> needs a strict order on its keys: two addresses of which each is less than the
  other make its behaviour undefined. Otherwise a key is found iff it is equal.
\<close>

type_synonym 'v net_map = "(net_address \<times> 'v) list"

definition ordered_with :: "net_address \<Rightarrow> 'v net_map \<Rightarrow> bool" where
  "ordered_with a m \<longleftrightarrow> (\<forall>(b, v) \<in> set m. \<not> (NetworkAddress_cmp a b \<and> NetworkAddress_cmp b a))"

definition net_find :: "net_address \<Rightarrow> 'v net_map \<Rightarrow> 'v option result" where
  "net_find a m = (if ordered_with a m then Inr (map_of m a) else Inl Undefined_Order)"

section \<open>Network monitor\<close>

type_synonym 's network_callback = "net_address \<Rightarrow> addrint \<Rightarrow> size_t \<Rightarrow> 's \<Rightarrow> 's result"

record 's network_monitor =
  net_observeEverything :: bool
  defaultAddressObserver :: "'s network_callback option"
  net_allObserver :: "'s network_callback option"
  addressObservers :: "'s network_callback list net_map"
  socketToAddress :: "32 word \<Rightarrow> net_address option"

definition new_NetworkMonitor :: "bool \<Rightarrow> 's network_monitor" where
  "new_NetworkMonitor observeAll =
     \<lparr>net_observeEverything = observeAll, defaultAddressObserver = None, net_allObserver = None,
      addressObservers = [], socketToAddress = Map.empty\<rparr>"

definition registerAddressDefault :: "'s network_callback \<Rightarrow> 's network_monitor \<Rightarrow> 's network_monitor" where
  "registerAddressDefault cb nm = nm\<lparr>defaultAddressObserver := Some cb\<rparr>"

definition net_registerCallbackForAll :: "'s network_callback \<Rightarrow> 's network_monitor \<Rightarrow> 's network_monitor" where
  "net_registerCallbackForAll cb nm = nm\<lparr>net_allObserver := Some cb\<rparr>"

definition observeAddress ::
  "(string \<Rightarrow> 32 word) \<Rightarrow> string \<Rightarrow> string \<Rightarrow> 's network_callback \<Rightarrow> 's network_monitor \<Rightarrow>
   's network_monitor result" where
  "observeAddress inet_addr ip_text port_text cb nm =
     (let addr = \<lparr>ip = inet_addr ip_text, port = word_of_int (atoi port_text)\<rparr> in
      and_then (net_find addr (addressObservers nm)) (\<lambda>found.
        Inr (nm\<lparr>addressObservers :=
          AList.update addr ((case found of None \<Rightarrow> [] | Some cbs \<Rightarrow> cbs) @ [cb]) (addressObservers nm)\<rparr>)))"

text \<open>An iterator at the end of the map is dereferenced when the address is not observed.\<close>

definition net_notifyForRead ::
  "'s network_monitor \<Rightarrow> net_address \<Rightarrow> addrint \<Rightarrow> size_t \<Rightarrow> 's \<Rightarrow> 's result" where
  "net_notifyForRead nm address start bytesRead s =
     and_then (net_find address (addressObservers nm)) (\<lambda>found.
       case found of
         None \<Rightarrow> Inl Null_Dereference
       | Some activeObservers \<Rightarrow> fold_res (\<lambda>cb. cb address start bytesRead) activeObservers s)"

definition closeNetworkCallback :: "syscall_arguments \<Rightarrow> 's network_monitor \<Rightarrow> 's network_monitor" where
  "closeNetworkCallback args nm =
     (if c_int (ret args) = -1 then nm
      else nm\<lparr>socketToAddress := (socketToAddress nm)(word_of_int (c_int (arg0 args)) := None)\<rparr>)"

definition readNetworkCallback :: "syscall_arguments \<Rightarrow> 's network_monitor \<Rightarrow> 's \<Rightarrow> 's result" where
  "readNetworkCallback args nm s =
     (if c_int (ret args) = -1 then Inr s
      else (case socketToAddress nm (word_of_int (c_int (arg0 args))) of
              None \<Rightarrow> Inr s
            | Some address \<Rightarrow>
                net_notifyForRead nm address (arg1 args) (word_of_int (c_int (ret args))) s))"

section \<open>The socketcall system call of 32-bit builds\<close>

text \<open>What the application's memory holds: words, and socket addresses in host byte order.\<close>

record app_memory =
  word_at :: "addrint \<Rightarrow> addrint"
  sin_addr :: "addrint \<Rightarrow> 32 word"
  sin_port :: "addrint \<Rightarrow> 16 word"

text \<open>Argument \<open>i\<close> of \<open>socketcall\<close>; what the memory of the application holds is a parameter.\<close>

definition sock_arg :: "app_memory \<Rightarrow> syscall_arguments \<Rightarrow> nat \<Rightarrow> addrint" where
  "sock_arg am args i = word_at am (arg1 args + of_nat (8 * i))"

text \<open>The address of a socket is saved when it is observed and everything is observed.\<close>

definition save_socket ::
  "app_memory \<Rightarrow> syscall_arguments \<Rightarrow> nat \<Rightarrow> 's network_monitor \<Rightarrow> 's network_monitor result" where
  "save_socket am args i nm =
     (let addr = sock_arg am args i; address = \<lparr>ip = sin_addr am addr, port = sin_port am addr\<rparr> in
      and_then (net_find address (addressObservers nm)) (\<lambda>found.
        Inr (if found \<noteq> None \<and> net_observeEverything nm
             then nm\<lparr>socketToAddress := (socketToAddress nm)(ucast (sock_arg am args 0) \<mapsto> address)\<rparr>
             else nm)))"

text \<open>\<open>socketToAddress[sock]\<close> makes an entry with a zero address when there is none.\<close>

definition receive ::
  "app_memory \<Rightarrow> syscall_arguments \<Rightarrow> 's network_monitor \<Rightarrow> 's \<Rightarrow> ('s network_monitor \<times> 's) result" where
  "receive am args nm s =
     (let sock = ucast (sock_arg am args 0) in
      if socketToAddress nm sock = None \<and> \<not> net_observeEverything nm then Inr (nm, s)
      else (let address = (case socketToAddress nm sock of None \<Rightarrow> \<lparr>ip = 0, port = 0\<rparr> | Some a \<Rightarrow> a);
                nm = nm\<lparr>socketToAddress := (socketToAddress nm)(sock \<mapsto> address)\<rparr> in
            and_then (net_notifyForRead nm address (sock_arg am args 1) (word_of_int (c_int (ret args))) s)
              (\<lambda>s. Inr (nm, s))))"

text \<open>The numbers of \<open>linux/net.h\<close>: 3 is connect, 12 recvfrom (which falls through), 10 recv.\<close>

definition socketcallNetworkCallback ::
  "app_memory \<Rightarrow> syscall_arguments \<Rightarrow> 's network_monitor \<Rightarrow> 's \<Rightarrow> ('s network_monitor \<times> 's) result" where
  "socketcallNetworkCallback am args nm s =
     (let call = c_int (arg0 args) in
      if call = 1 then Inr (nm, s)
      else if call = 3 then and_then (save_socket am args 1 nm) (\<lambda>nm. Inr (nm, s))
      else if call \<in> {2, 4, 5, 6, 7, 9} then Inr (nm, s)
      else if call = 12 then and_then (save_socket am args 4 nm) (\<lambda>nm. receive am args nm s)
      else if call = 10 then receive am args nm s
      else if call \<in> {11, 13, 14, 15, 16} then Inr (nm, s)
      else Inl Abort_Called)"

section \<open>Network taint sources\<close>

definition networkReadCallbackPerByte :: "(addrint \<Rightarrow> int) \<Rightarrow> source network_callback" where
  "networkReadCallbackPerByte rnd networkAddr start len src =
     (if taintGen (engine src) = None then Inl Assertion_Failed
      else and_then
        (fold_res (byte_body rnd) (addr_loop start (start + len)) (fresh_set (engine src), engine src))
        (\<lambda>(b, st). Inr (src\<lparr>engine := st\<rparr>)))"

definition networkReadCallbackPerRead :: "(addrint \<Rightarrow> int) \<Rightarrow> source network_callback" where
  "networkReadCallbackPerRead rnd networkAddr start len src =
     (if taintGen (engine src) = None then Inl Assertion_Failed
      else and_then (next_tag (rnd start) (engine src)) (\<lambda>(tag, st).
        and_then (bitset_set_bit (fresh_set st) (word_of_int tag)) (\<lambda>b.
        and_then
          (fold_res (\<lambda>addr st. and_then (bitset_copy b) (\<lambda>c. Inr (put_mem addr c st)))
             (addr_loop start (start + len)) st)
          (\<lambda>st. Inr (src\<lparr>engine := st\<rparr>)))))"

definition networkReadDefault :: "source network_callback" where
  "networkReadDefault networkAddr start len src = Inr src"

definition new_NetworkTaintSource :: "bool \<Rightarrow> source network_monitor" where
  "new_NetworkTaintSource observeAll =
     registerAddressDefault networkReadDefault (new_NetworkMonitor observeAll)"

fun network_callback_for :: "(addrint \<Rightarrow> int) \<Rightarrow> taint_range_t \<Rightarrow> source network_callback result" where
  "network_callback_for rnd PerByte = Inr (networkReadCallbackPerByte rnd)"
| "network_callback_for rnd PerRead = Inr (networkReadCallbackPerRead rnd)"
| "network_callback_for rnd PerOffset = Inl Abort_Called"

definition net_addObserverForAll ::
  "(addrint \<Rightarrow> int) \<Rightarrow> taint_range_t \<Rightarrow> source network_monitor \<Rightarrow> source network_monitor result" where
  "net_addObserverForAll rnd t nm =
     and_then (network_callback_for rnd t) (\<lambda>cb. Inr (net_registerCallbackForAll cb nm))"

definition addNetworkSource ::
  "(addrint \<Rightarrow> int) \<Rightarrow> (string \<Rightarrow> 32 word) \<Rightarrow> string \<Rightarrow> string \<Rightarrow> taint_range_t \<Rightarrow>
   source network_monitor \<Rightarrow> source network_monitor result" where
  "addNetworkSource rnd inet_addr host_ip host_port t nm =
     and_then (network_callback_for rnd t) (\<lambda>cb. observeAddress inet_addr host_ip host_port cb nm)"

end
