(* ===== verification/Syscall_Functions.thy ===== *)
theory Syscall_Functions
  imports Network_Source
begin

text \<open>
  The callbacks for system calls (\<open>src/syscall_functions.cpp\<close>) and their registration in
  \<open>main\<close> (\<open>src/dytan.cpp\<close>, lines 1478--1541): a call that fills a buffer of the
  application takes the taint off it, \<open>dup\<close> and \<open>open\<close> maintain a map of file names, the
  others do nothing. Sizes and numbers are those of x86-64 Linux with glibc.
\<close>

section \<open>State\<close>

record tool =
  source_state :: source
  openFiles :: "int \<Rightarrow> string option"
  path_monitors :: "source path_monitor list"
  network_monitors :: "source network_monitor list"

definition with_engine :: "(dytan \<Rightarrow> dytan) \<Rightarrow> tool \<Rightarrow> tool" where
  "with_engine f s =
     s\<lparr>source_state := (source_state s)\<lparr>engine := f (engine (source_state s))\<rparr>\<rparr>"

text \<open>\<open>for (addr = start; addr < end; addr++) if (found) { bitset_free; erase; }\<close>\<close>

definition erase_mem :: "addrint \<Rightarrow> addrint \<Rightarrow> dytan \<Rightarrow> dytan" where
  "erase_mem start stop st =
     st\<lparr>memTaintMap := fold (\<lambda>addr m. case m addr of Some _ \<Rightarrow> m(addr := None) | None \<Rightarrow> m)
        (addr_loop start stop) (memTaintMap st)\<rparr>"

definition remove_taint :: "addrint \<Rightarrow> addrint \<Rightarrow> tool \<Rightarrow> tool result" where
  "remove_taint start stop s = Inr (with_engine (erase_mem start stop) s)"

definition sizeof_stat64 :: addrint where "sizeof_stat64 = 144"
definition sizeof_timeval :: addrint where "sizeof_timeval = 16"
definition sizeof_timezone :: addrint where "sizeof_timezone = 8"
definition sizeof_sigaction :: addrint where "sizeof_sigaction = 152"
definition sizeof_sigset_t :: addrint where "sizeof_sigset_t = 128"
definition sizeof_time_t :: addrint where "sizeof_time_t = 8"
definition sizeof_utsname :: addrint where "sizeof_utsname = 390"

section \<open>Callbacks that take taint off a buffer\<close>

definition Handle_FSTAT64 :: "tool syscall_callback" where
  "Handle_FSTAT64 n args = remove_taint (arg1 args) (arg1 args + sizeof_stat64)"

definition Handle_GETDENTS64 :: "tool syscall_callback" where
  "Handle_GETDENTS64 n args =
     remove_taint (arg1 args) (arg1 args + ucast (ucast (arg2 args) :: 32 word))"

definition Handle_GETTIMEOFDAY :: "tool syscall_callback" where
  "Handle_GETTIMEOFDAY n args s =
     and_then (remove_taint (arg0 args) (arg0 args + sizeof_timeval) s)
       (remove_taint (arg1 args) (arg1 args + sizeof_timezone))"

definition Handle_LSTAT64 :: "tool syscall_callback" where
  "Handle_LSTAT64 n args = remove_taint (arg1 args) (arg1 args + sizeof_stat64)"

definition Handle_MMAP :: "tool syscall_callback" where
  "Handle_MMAP n args = remove_taint (ret args) (ret args + arg1 args)"

definition Handle_MMAP2 :: "tool syscall_callback" where
  "Handle_MMAP2 n args = remove_taint (ret args) (ret args + arg1 args)"

definition Handle_READLINK :: "tool syscall_callback" where
  "Handle_READLINK n args =
     remove_taint (arg1 args) (arg1 args + word_of_int (c_int (ret args)))"

definition Handle_RT_SIGACTION :: "tool syscall_callback" where
  "Handle_RT_SIGACTION n args s =
     (if arg2 args \<noteq> 0 then remove_taint (arg2 args) (arg2 args + sizeof_sigaction) s else Inr s)"

definition Handle_RT_SIGPROCMASK :: "tool syscall_callback" where
  "Handle_RT_SIGPROCMASK n args s =
     (if arg2 args \<noteq> 0 then remove_taint (arg2 args) (arg2 args + sizeof_sigset_t) s else Inr s)"

definition Handle_STAT64 :: "tool syscall_callback" where
  "Handle_STAT64 n args = remove_taint (arg1 args) (arg1 args + sizeof_stat64)"

definition Handle_TIME :: "tool syscall_callback" where
  "Handle_TIME n args s =
     (if arg0 args \<noteq> 0 then remove_taint (arg0 args) (arg0 args + sizeof_time_t) s else Inr s)"

definition Handle_UNAME :: "tool syscall_callback" where
  "Handle_UNAME n args = remove_taint (arg0 args) (arg0 args + sizeof_utsname)"

section \<open>File names and the others\<close>

text \<open>\<open>openFiles[fd2] = openFiles[fd1]\<close>: reading an absent entry inserts the empty string.\<close>

definition Handle_DUP :: "tool syscall_callback" where
  "Handle_DUP n args s =
     (let fd1 = c_int (arg0 args); fd2 = c_int (ret args);
          name = (case openFiles s fd1 of None \<Rightarrow> [] | Some f \<Rightarrow> f) in
      Inr (s\<lparr>openFiles := ((openFiles s)(fd1 \<mapsto> name))(fd2 \<mapsto> name)\<rparr>))"

definition Handle_OPEN :: "(addrint \<Rightarrow> string) \<Rightarrow> tool syscall_callback" where
  "Handle_OPEN cstring n args s =
     Inr (s\<lparr>openFiles := (openFiles s)(c_int (ret args) \<mapsto> cstring (arg0 args))\<rparr>)"

text \<open>The calls 1 to 17 of \<open>socketcall\<close> are known, \<open>SYS_SOCKETPAIR\<close> (8) apart.\<close>

definition Handle_SOCKETCALL :: "tool syscall_callback" where
  "Handle_SOCKETCALL n args s =
     (if c_int (arg0 args) \<in> {1, 2, 3, 4, 5, 6, 7, 9, 10, 11, 12, 13, 14, 15, 16, 17}
      then Inr s else Inl Abort_Called)"

definition UnimplementedSystemCall :: "tool syscall_callback" where
  "UnimplementedSystemCall n args s = Inr s"

definition Handle_ACCESS :: "tool syscall_callback" where
  "Handle_ACCESS n args s = Inr s"

definition Handle_ALARM :: "tool syscall_callback" where
  "Handle_ALARM n args s = Inr s"

definition Handle_BRK :: "tool syscall_callback" where
  "Handle_BRK n args s = Inr s"

definition Handle_CHMOD :: "tool syscall_callback" where
  "Handle_CHMOD n args s = Inr s"

definition Handle_CLOSE :: "tool syscall_callback" where
  "Handle_CLOSE n args s = Inr s"

definition Handle_TGKILL :: "tool syscall_callback" where
  "Handle_TGKILL n args s = Inr s"

definition Handle_FCNTL64 :: "tool syscall_callback" where
  "Handle_FCNTL64 n args s = Inr s"

definition Handle_FLOCK :: "tool syscall_callback" where
  "Handle_FLOCK n args s = Inr s"

definition Handle_FSYNC :: "tool syscall_callback" where
  "Handle_FSYNC n args s = Inr s"

definition Handle_FTRUNCATE :: "tool syscall_callback" where
  "Handle_FTRUNCATE n args s = Inr s"

definition Handle_GETPID :: "tool syscall_callback" where
  "Handle_GETPID n args s = Inr s"

definition Handle_GETTID :: "tool syscall_callback" where
  "Handle_GETTID n args s = Inr s"

definition Handle_GETUID32 :: "tool syscall_callback" where
  "Handle_GETUID32 n args s = Inr s"

definition Handle_IOCTL :: "tool syscall_callback" where
  "Handle_IOCTL n args s = Inr s"

definition Handle_LINK :: "tool syscall_callback" where
  "Handle_LINK n args s = Inr s"

definition Handle_LLSEEK :: "tool syscall_callback" where
  "Handle_LLSEEK n args s = Inr s"

definition Handle_LSEEK :: "tool syscall_callback" where
  "Handle_LSEEK n args s = Inr s"

definition Handle_MUNMAP :: "tool syscall_callback" where
  "Handle_MUNMAP n args s = Inr s"

definition Handle_MPROTECT :: "tool syscall_callback" where
  "Handle_MPROTECT n args s = Inr s"

definition Handle_READ :: "tool syscall_callback" where
  "Handle_READ n args s = Inr s"

definition Handle_RENAME :: "tool syscall_callback" where
  "Handle_RENAME n args s = Inr s"

definition Handle_SET_THREAD_AREA :: "tool syscall_callback" where
  "Handle_SET_THREAD_AREA n args s = Inr s"

definition Handle_UNLINK :: "tool syscall_callback" where
  "Handle_UNLINK n args s = Inr s"

definition Handle_UTIME :: "tool syscall_callback" where
  "Handle_UTIME n args s = Inr s"

definition Handle_WRITE :: "tool syscall_callback" where
  "Handle_WRITE n args s = Inr s"

definition Handle_WRITEV :: "tool syscall_callback" where
  "Handle_WRITEV n args s = Inr s"

definition Handle_POLL :: "tool syscall_callback" where
  "Handle_POLL n args s = Inr s"

section \<open>Registration\<close>

text \<open>
  The calls of \<open>monitor->addObserver\<close> in \<open>main\<close>, in order: fcntl, fstat, getuid, lstat, stat,
  access, alarm, brk, chmod, close, dup, flock, fsync, ftruncate, getdents64, getpid,
  gettimeofday, ioctl, link, lseek, mmap, mprotect, munmap, open, read, readlink, rename,
  rt\_sigaction, rt\_sigprocmask, set\_thread\_area, time, uname, unlink, utime, write, writev,
  poll, gettid, tgkill.
\<close>

definition main_observers :: "(addrint \<Rightarrow> string) \<Rightarrow> (int \<times> tool syscall_callback) list" where
  "main_observers cstring =
     [(72, Handle_FSTAT64), (5, Handle_FSTAT64), (102, Handle_GETUID32), (6, Handle_LSTAT64),
      (4, Handle_STAT64), (21, Handle_ACCESS), (37, Handle_ALARM), (12, Handle_BRK),
      (90, Handle_CHMOD), (3, Handle_CLOSE), (32, Handle_DUP), (73, Handle_FLOCK),
      (74, Handle_FSYNC), (77, Handle_FTRUNCATE), (217, Handle_GETDENTS64), (39, Handle_GETPID),
      (96, Handle_GETTIMEOFDAY), (16, Handle_IOCTL), (86, Handle_LINK), (8, Handle_LSEEK),
      (9, Handle_MMAP), (10, Handle_MPROTECT), (11, Handle_MUNMAP), (2, Handle_OPEN cstring),
      (0, Handle_READ), (89, Handle_READLINK), (82, Handle_RENAME), (13, Handle_RT_SIGACTION),
      (14, Handle_RT_SIGPROCMASK), (205, Handle_SET_THREAD_AREA), (201, Handle_TIME),
      (63, Handle_UNAME), (87, Handle_UNLINK), (132, Handle_UTIME), (1, Handle_WRITE),
      (20, Handle_WRITEV), (7, Handle_POLL), (186, Handle_GETTID), (234, Handle_TGKILL)]"

definition register_main_observers ::
  "(addrint \<Rightarrow> string) \<Rightarrow> tool syscall_monitor \<Rightarrow> tool syscall_monitor" where
  "register_main_observers cstring m =
     fold (\<lambda>(n, cb) m. addObserver n cb m) (main_observers cstring) m"

text \<open>
  The three callbacks that \<open>PathMonitor::activate\<close> registers, for the path monitor at
  position \<open>i\<close> of the state.
\<close>

definition path_open :: "(addrint \<Rightarrow> string) \<Rightarrow> nat \<Rightarrow> tool syscall_callback" where
  "path_open cstring i n args s =
     (if i < length (path_monitors s)
      then Inr (s\<lparr>path_monitors := (path_monitors s)
                  [i := openCallback cstring args (path_monitors s ! i)]\<rparr>)
      else Inl Null_Dereference)"

definition path_close :: "nat \<Rightarrow> tool syscall_callback" where
  "path_close i n args s =
     (if i < length (path_monitors s)
      then Inr (s\<lparr>path_monitors := (path_monitors s)[i := closeCallback args (path_monitors s ! i)]\<rparr>)
      else Inl Null_Dereference)"

definition path_read :: "nat \<Rightarrow> tool syscall_callback" where
  "path_read i n args s =
     (if i < length (path_monitors s)
      then and_then (readCallback args (path_monitors s ! i) (source_state s)) (\<lambda>src.
             Inr (s\<lparr>source_state := src\<rparr>))
      else Inl Null_Dereference)"

definition activate ::
  "(addrint \<Rightarrow> string) \<Rightarrow> nat \<Rightarrow> tool syscall_monitor \<Rightarrow> tool syscall_monitor" where
  "activate cstring i m =
     addObserver 0 (path_read i) (addObserver 3 (path_close i) (addObserver 2 (path_open cstring i) m))"

text \<open>The two callbacks that \<open>NetworkMonitor::activate\<close> registers on the 64-bit build.\<close>

definition network_close :: "nat \<Rightarrow> tool syscall_callback" where
  "network_close i n args s =
     (if i < length (network_monitors s)
      then Inr (s\<lparr>network_monitors := (network_monitors s)
                  [i := closeNetworkCallback args (network_monitors s ! i)]\<rparr>)
      else Inl Null_Dereference)"

definition network_read :: "nat \<Rightarrow> tool syscall_callback" where
  "network_read i n args s =
     (if i < length (network_monitors s)
      then and_then (readNetworkCallback args (network_monitors s ! i) (source_state s)) (\<lambda>src.
             Inr (s\<lparr>source_state := src\<rparr>))
      else Inl Null_Dereference)"

definition activate_network :: "nat \<Rightarrow> tool syscall_monitor \<Rightarrow> tool syscall_monitor" where
  "activate_network i m = addObserver 3 (network_close i) (addObserver 0 (network_read i) m)"

section \<open>What the callbacks do\<close>

text \<open>
  The bytes that the callback of each call takes the taint off. This is what the callbacks do,
  not what the kernel fills: \<open>fcntl\<close> (72) is registered with the callback of \<open>fstat\<close>,
  \<open>getdents64\<close> (217) erases as many bytes as were asked for, \<open>read\<close> (0) none.
\<close>

definition buffer :: "addrint \<Rightarrow> addrint \<Rightarrow> addrint set" where
  "buffer start sz = {a. in_range start sz a}"

definition erased_bytes :: "int \<Rightarrow> syscall_arguments \<Rightarrow> addrint set" where
  "erased_bytes n args =
     (if n \<in> {72, 5, 6, 4} then buffer (arg1 args) 144
      else if n = 217 then buffer (arg1 args) (ucast (ucast (arg2 args) :: 32 word))
      else if n = 96 then buffer (arg0 args) 16 \<union> buffer (arg1 args) 8
      else if n = 9 then buffer (ret args) (arg1 args)
      else if n = 89 then buffer (arg1 args) (word_of_int (c_int (ret args)))
      else if n = 13 \<and> arg2 args \<noteq> 0 then buffer (arg2 args) 152
      else if n = 14 \<and> arg2 args \<noteq> 0 then buffer (arg2 args) 128
      else if n = 201 \<and> arg0 args \<noteq> 0 then buffer (arg0 args) 8
      else if n = 63 then buffer (arg0 args) 390
      else {})"

definition forget :: "addrint set \<Rightarrow> dytan \<Rightarrow> dytan" where
  "forget A st = st\<lparr>memTaintMap := (\<lambda>a. if a \<in> A then None else memTaintMap st a)\<rparr>"

lemma forget_empty [simp]: "forget {} st = st"
  by (simp add: forget_def)

lemma forget_forget: "forget B (forget A st) = forget (A \<union> B) st"
  by (auto simp: forget_def fun_eq_iff)

lemma state_ok_forget: "state_ok st \<Longrightarrow> state_ok (forget A st)"
  by (auto simp: state_ok_def forget_def)

lemma NUMBER_OF_TAINT_MARKS_forget [simp]:
  "NUMBER_OF_TAINT_MARKS (forget A st) = NUMBER_OF_TAINT_MARKS st"
  "taintGen (forget A st) = taintGen st"
  by (simp_all add: forget_def)

lemma erase_mem_forget: "erase_mem start (start + sz) st = forget (buffer start sz) st"
proof -
  have "(\<lambda>addr m. case m addr of Some _ \<Rightarrow> m(addr := None) | None \<Rightarrow> m) =
      (\<lambda>addr (m :: addrint \<Rightarrow> bitset option). m(addr := None))"
    by (auto simp: fun_eq_iff split: option.split)
  then show ?thesis
    using fmap.find_fold_erase [of "addr_loop start (start + sz)" "memTaintMap st"]
    by (simp add: erase_mem_def forget_def buffer_def set_addr_loop in_range_def)
qed

lemma remove_taint_forget:
  "remove_taint start (start + sz) s = Inr (with_engine (forget (buffer start sz)) s)"
  by (simp add: remove_taint_def with_engine_def erase_mem_forget)

lemma with_engine_sel [simp]:
  "engine (source_state (with_engine f s)) = f (engine (source_state s))"
  "openFiles (with_engine f s) = openFiles s"
  "path_monitors (with_engine f s) = path_monitors s"
  "network_monitors (with_engine f s) = network_monitors s"
  "with_engine g (with_engine f s) = with_engine (\<lambda>st. g (f st)) s"
  "with_engine (\<lambda>st. st) s = s"
  by (simp_all add: with_engine_def)

text \<open>The map of file names after a call: \<open>open\<close> adds a name, \<open>dup\<close> copies one.\<close>

definition names_after ::
  "(addrint \<Rightarrow> string) \<Rightarrow> int \<Rightarrow> syscall_arguments \<Rightarrow> (int \<Rightarrow> string option) \<Rightarrow> int \<Rightarrow> string option" where
  "names_after cstring n args names =
     (if n = 2 then names(c_int (ret args) \<mapsto> cstring (arg0 args))
      else if n = 32 then
        (let name = (case names (c_int (arg0 args)) of None \<Rightarrow> [] | Some f \<Rightarrow> f) in
         names(c_int (arg0 args) \<mapsto> name, c_int (ret args) \<mapsto> name))
      else names)"

definition after_call ::
  "(addrint \<Rightarrow> string) \<Rightarrow> int \<Rightarrow> syscall_arguments \<Rightarrow> tool \<Rightarrow> tool" where
  "after_call cstring n args s =
     (with_engine (forget (erased_bytes n args)) s)
       \<lparr>openFiles := names_after cstring n args (openFiles s)\<rparr>"

lemma openFiles_same [simp]: "s\<lparr>openFiles := openFiles s\<rparr> = s" for s :: tool
  by simp

lemma with_engine_openFiles: "(with_engine f s)\<lparr>openFiles := openFiles s\<rparr> = with_engine f s"
  by (simp add: with_engine_def)

lemma with_engine_forget_none [simp]: "with_engine (forget {}) s = s"
  by (simp add: with_engine_def)

lemmas silent_callbacks =
  Handle_GETUID32_def Handle_ACCESS_def Handle_ALARM_def Handle_BRK_def Handle_CHMOD_def
  Handle_CLOSE_def Handle_FLOCK_def Handle_FSYNC_def Handle_FTRUNCATE_def Handle_GETPID_def
  Handle_IOCTL_def Handle_LINK_def Handle_LSEEK_def Handle_MPROTECT_def Handle_MUNMAP_def
  Handle_READ_def Handle_RENAME_def Handle_SET_THREAD_AREA_def Handle_UNLINK_def
  Handle_UTIME_def Handle_WRITE_def Handle_WRITEV_def Handle_POLL_def Handle_GETTID_def
  Handle_TGKILL_def

lemmas clearing_callbacks =
  Handle_FSTAT64_def Handle_LSTAT64_def Handle_STAT64_def Handle_GETDENTS64_def
  Handle_GETTIMEOFDAY_def Handle_MMAP_def Handle_READLINK_def Handle_RT_SIGACTION_def
  Handle_RT_SIGPROCMASK_def Handle_TIME_def Handle_UNAME_def

lemmas sizes =
  sizeof_stat64_def sizeof_timeval_def sizeof_timezone_def sizeof_sigaction_def
  sizeof_sigset_t_def sizeof_time_t_def sizeof_utsname_def

text \<open>Each callback succeeds, for all arguments, and changes nothing but these bytes and the file names.\<close>

lemma observer_effect:
  assumes "(n, cb) \<in> set (main_observers cstring)"
  shows "cb n args s = Inr (after_call cstring n args s)"
proof -
  have "list_all (\<lambda>(n, cb). cb n args s = Inr (after_call cstring n args s)) (main_observers cstring)"
    unfolding main_observers_def list.pred_inject prod.case
    by (intro conjI TrueI)
      (simp_all add: after_call_def erased_bytes_def names_after_def silent_callbacks
        clearing_callbacks sizes remove_taint_forget forget_forget with_engine_openFiles
        Handle_DUP_def Handle_OPEN_def Let_def)
  with assms show ?thesis by (auto simp: list_all_iff)
qed

end
