(* ===== verification/Config_Parser.thy ===== *)
theory Config_Parser
  imports C_Strings
begin

text \<open>
  Reading the configuration (\<open>src/config_parser.cpp\<close>): the rules file and the file of offset
  ranges, cut into tokens, and \<open>config.xml\<close>, walked as the tree of libxml nodes. The contents
  of the two files (or that they cannot be opened) and the tree are arguments; the two
  libxml functions that the code calls on a node are parameters. Sending a null string to the
  log, as the code does for an element without text, is undefined. What is printed or logged
  is left out.
\<close>

section \<open>Rules file\<close>

text \<open>\<open>new rules\<close> leaves the flag undefined.\<close>

record rules =
  overwrite :: "bool option"
  srcArgs :: "int list"
  destArgs :: "int list"

definition new_rules :: rules where
  "new_rules = \<lparr>overwrite = None, srcArgs = [], destArgs = []\<rparr>"

type_synonym rules_images = "string \<Rightarrow> (string \<Rightarrow> rules option) option"

text \<open>Which of the five flags is set.\<close>

datatype expected = Flag_imgName | Flag_APIname | Flag_overwrite | Flag_sourceArg | Flag_destArg

record rules_reader =
  expected :: expected
  imgName :: string
  APIname :: string
  rulesImageMap :: rules_images

text \<open>\<open>(*(rulesImageMap[imgName]))[APIname]->\<close>\<close>

definition update_rules :: "(rules \<Rightarrow> rules) \<Rightarrow> rules_reader \<Rightarrow> rules_reader result" where
  "update_rules f r =
     (case rulesImageMap r (imgName r) of
        None \<Rightarrow> Inl Null_Dereference
      | Some apis \<Rightarrow>
          (case apis (APIname r) of
             None \<Rightarrow> Inl Null_Dereference
           | Some ru \<Rightarrow> Inr (r\<lparr>rulesImageMap :=
               (rulesImageMap r)(imgName r \<mapsto> apis(APIname r \<mapsto> f ru))\<rparr>)))"

definition rules_token :: "string \<Rightarrow> rules_reader \<Rightarrow> rules_reader result" where
  "rules_token token r =
     (case expected r of
        Flag_imgName \<Rightarrow>
          Inr (r\<lparr>imgName := token, rulesImageMap := (rulesImageMap r)(token \<mapsto> Map.empty),
                 expected := Flag_APIname\<rparr>)
      | Flag_APIname \<Rightarrow>
          (case rulesImageMap r (imgName r) of
             None \<Rightarrow> Inl Null_Dereference
           | Some apis \<Rightarrow>
               Inr (r\<lparr>APIname := token, expected := Flag_overwrite,
                      rulesImageMap := (rulesImageMap r)(imgName r \<mapsto> apis(token \<mapsto> new_rules))\<rparr>))
      | Flag_overwrite \<Rightarrow>
          and_then (update_rules (\<lambda>ru. ru\<lparr>overwrite := Some (atoi token \<noteq> 0)\<rparr>) r) (\<lambda>r.
            Inr (r\<lparr>expected := Flag_sourceArg\<rparr>))
      | Flag_sourceArg \<Rightarrow>
          (if atoi token = -1 then Inr (r\<lparr>expected := Flag_destArg\<rparr>)
           else update_rules (\<lambda>ru. ru\<lparr>srcArgs := srcArgs ru @ [atoi token]\<rparr>) r)
      | Flag_destArg \<Rightarrow>
          (if atoi token = -1 then Inr (r\<lparr>expected := Flag_imgName\<rparr>)
           else update_rules (\<lambda>ru. ru\<lparr>destArgs := destArgs ru @ [atoi token]\<rparr>) r))"

definition parseRulesFile :: "string option \<Rightarrow> rules_images \<Rightarrow> rules_images result" where
  "parseRulesFile content images =
     (case content of
        None \<Rightarrow> Inr images
      | Some c \<Rightarrow>
          and_then (read_buffer c) (\<lambda>buf.
          and_then (fold_res rules_token (strtok_all buf)
              \<lparr>expected = Flag_imgName, imgName = [], APIname = [], rulesImageMap = images\<rparr>)
            (\<lambda>r. Inr (rulesImageMap r))))"

section \<open>File of offset ranges\<close>

record datfile =
  dat_index :: int
  dat_start :: "int list"
  dat_end :: "int list"

text \<open>A global variable starts as zeros.\<close>

definition zero_datfile :: datfile where
  "zero_datfile = \<lparr>dat_index = 0, dat_start = replicate 256 0, dat_end = replicate 256 0\<rparr>"

text \<open>The state of the loop: \<open>count\<close>, \<open>index\<close> and the arrays.\<close>

definition dat_token :: "string \<Rightarrow> nat \<times> nat \<times> datfile \<Rightarrow> (nat \<times> nat \<times> datfile) result" where
  "dat_token token = (\<lambda>(count, index, d).
     if count mod 3 = 1 then
       (if index < length (dat_start d)
        then Inr (count + 1, index, d\<lparr>dat_start := (dat_start d)[index := atoi token]\<rparr>)
        else Inl Out_Of_Bounds)
     else if count mod 3 = 2 then
       (if index < length (dat_end d)
        then Inr (count + 1, index + 1, d\<lparr>dat_end := (dat_end d)[index := atoi token]\<rparr>)
        else Inl Out_Of_Bounds)
     else Inr (count + 1, index, d))"

definition parseDatFiles :: "string option \<Rightarrow> datfile \<Rightarrow> datfile result" where
  "parseDatFiles content d =
     (case content of
        None \<Rightarrow> Inr d
      | Some c \<Rightarrow>
          and_then (read_buffer c) (\<lambda>buf.
          and_then (fold_res dat_token (strtok_all buf) (0, 0, d)) (\<lambda>(count, index, d).
            Inr (d\<lparr>dat_index := int index - 1\<rparr>))))"

section \<open>The XML tree\<close>

text \<open>
  libxml calls a text node \<open>text\<close> and a comment \<open>comment\<close>. Of the functions of libxml,
  \<open>xmlNodeListGetString\<close> gives the text of a list of nodes, if any, and \<open>xmlGetProp\<close> the value
  of an attribute.
\<close>

datatype xml =
    Element string "(string \<times> string) list" "xml list"
  | Text string
  | Comment string

fun node_name :: "xml \<Rightarrow> string" where
  "node_name (Element n as cs) = n"
| "node_name (Text t) = ''text''"
| "node_name (Comment t) = ''comment''"

fun node_children :: "xml \<Rightarrow> xml list" where
  "node_children (Element n as cs) = cs"
| "node_children (Text t) = []"
| "node_children (Comment t) = []"

fun is_element :: "xml \<Rightarrow> bool" where
  "is_element (Element n as cs) = True"
| "is_element (Text t) = False"
| "is_element (Comment t) = False"

record libxml =
  xmlNodeListGetString :: "xml list \<Rightarrow> string option"
  xmlGetProp :: "xml \<Rightarrow> string \<Rightarrow> string option"

definition get_text :: "libxml \<Rightarrow> xml \<Rightarrow> string result" where
  "get_text lx n =
     (case xmlNodeListGetString lx (node_children n) of
        None \<Rightarrow> Inl Null_Dereference
      | Some t \<Rightarrow> Inr t)"

section \<open>Configuration\<close>

record config_source =
  src_type :: string
  granularity :: string
  details :: "string list"

record propagation =
  dataflow :: bool
  controlflow :: bool
  prop_tracing :: bool

record sink =
  sink_id :: string
  loc_type :: string
  actual_location :: "string list"
  action :: string

text \<open>\<open>new config\<close> leaves the flags of the propagation undefined.\<close>

record dytan_config =
  sources :: "config_source list"
  num_markings :: string
  conf_prop :: "propagation option"
  sinks :: "sink list"

definition new_config :: dytan_config where
  "new_config = \<lparr>sources = [], num_markings = [], conf_prop = None, sinks = []\<rparr>"

text \<open>A child of a \<open>source\<close> element.\<close>

definition source_child ::
  "libxml \<Rightarrow> string option \<Rightarrow> xml \<Rightarrow> config_source \<times> datfile \<Rightarrow> (config_source \<times> datfile) result" where
  "source_child lx offsets sub = (\<lambda>(src, d).
     if \<not> is_element sub then Inr (src, d)
     else and_then (get_text lx sub) (\<lambda>subtext.
       if node_name sub = ''granularity'' then
         and_then (if subtext = ''PerOffset'' then parseDatFiles offsets d else Inr d) (\<lambda>d.
           Inr (src\<lparr>granularity := subtext\<rparr>, d))
       else Inr (src\<lparr>details := details src @ [subtext]\<rparr>, d)))"

definition sources_child ::
  "libxml \<Rightarrow> string option \<Rightarrow> xml \<Rightarrow> dytan_config \<times> datfile \<Rightarrow> (dytan_config \<times> datfile) result" where
  "sources_child lx offsets cur = (\<lambda>(conf, d).
     if node_name cur = ''source'' then
       (let src = \<lparr>src_type = [], granularity = [], details = []\<rparr> in
        and_then (case xmlGetProp lx cur ''type'' of
            Some t \<Rightarrow> fold_res (source_child lx offsets) (node_children cur) (src\<lparr>src_type := t\<rparr>, d)
          | None \<Rightarrow> Inr (src, d)) (\<lambda>(src, d).
          Inr (conf\<lparr>sources := sources conf @ [src]\<rparr>, d)))
     else if node_name cur = ''taint-marks'' then
       and_then (get_text lx cur) (\<lambda>txt. Inr (conf\<lparr>num_markings := txt\<rparr>, d))
     else Inr (conf, d))"

definition parseSources ::
  "libxml \<Rightarrow> string option \<Rightarrow> xml \<Rightarrow> dytan_config \<times> datfile \<Rightarrow> (dytan_config \<times> datfile) result" where
  "parseSources lx offsets cur = fold_res (sources_child lx offsets) (node_children cur)"

definition propagation_child :: "libxml \<Rightarrow> xml \<Rightarrow> propagation \<Rightarrow> propagation result" where
  "propagation_child lx cur p =
     (if node_name cur = ''dataflow'' then
        and_then (get_text lx cur) (\<lambda>key. Inr (p\<lparr>dataflow := (key = ''true'')\<rparr>))
      else if node_name cur = ''controlflow'' then
        and_then (get_text lx cur) (\<lambda>key. Inr (p\<lparr>controlflow := (key = ''true'')\<rparr>))
      else if node_name cur = ''tracing'' then
        and_then (get_text lx cur) (\<lambda>key. Inr (p\<lparr>prop_tracing := (key = ''true'')\<rparr>))
      else Inr p)"

definition parsePropagation :: "libxml \<Rightarrow> xml \<Rightarrow> dytan_config \<Rightarrow> dytan_config result" where
  "parsePropagation lx cur conf =
     and_then (fold_res (propagation_child lx) (node_children cur)
        \<lparr>dataflow = False, controlflow = False, prop_tracing = False\<rparr>) (\<lambda>p.
       Inr (conf\<lparr>conf_prop := Some p\<rparr>))"

text \<open>The sinks are only logged.\<close>

definition sink_child :: "libxml \<Rightarrow> xml \<Rightarrow> dytan_config \<Rightarrow> dytan_config result" where
  "sink_child lx sub conf =
     (if node_name sub = ''id'' then and_then (get_text lx sub) (\<lambda>txt. Inr conf)
      else if node_name sub = ''location'' \<and> xmlGetProp lx sub ''type'' \<noteq> None then
        fold_res (\<lambda>subsub conf. if is_element subsub then and_then (get_text lx subsub) (\<lambda>txt. Inr conf)
           else Inr conf) (node_children sub) conf
      else Inr conf)"

definition parseSinks :: "libxml \<Rightarrow> xml \<Rightarrow> dytan_config \<Rightarrow> dytan_config result" where
  "parseSinks lx cur =
     fold_res (\<lambda>cur conf. if node_name cur = ''sink''
       then fold_res (sink_child lx) (node_children cur) conf else Inr conf) (node_children cur)"

text \<open>What the parser leaves behind: the configuration, the offset ranges and the rules.\<close>

record parsed =
  conf :: dytan_config
  datFile :: datfile
  rule_images :: rules_images

text \<open>What has been parsed when \<open>main\<close> begins.\<close>

definition start_parsed :: parsed where
  "start_parsed = \<lparr>conf = new_config, datFile = zero_datfile, rule_images = Map.empty\<rparr>"

definition config_child :: "libxml \<Rightarrow> string option \<Rightarrow> xml \<Rightarrow> parsed \<Rightarrow> parsed result" where
  "config_child lx offsets sub p =
     (if node_name sub = ''sources'' then
        and_then (parseSources lx offsets sub (conf p, datFile p)) (\<lambda>(c, d).
          Inr (p\<lparr>conf := c, datFile := d\<rparr>))
      else if node_name sub = ''propagation'' then
        and_then (parsePropagation lx sub (conf p)) (\<lambda>c. Inr (p\<lparr>conf := c\<rparr>))
      else if node_name sub = ''sinks'' then
        and_then (parseSinks lx sub (conf p)) (\<lambda>c. Inr (p\<lparr>conf := c\<rparr>))
      else Inr p)"

text \<open>
  The result is the returned number and what was parsed. The document is \<open>None\<close> when the file
  cannot be parsed, its root \<open>None\<close> when it is empty.
\<close>

definition parseConfig ::
  "libxml \<Rightarrow> string option \<Rightarrow> string option \<Rightarrow> xml option option \<Rightarrow> parsed \<Rightarrow> (int \<times> parsed) result" where
  "parseConfig lx rules_content offsets doc p =
     and_then (parseRulesFile rules_content (rule_images p)) (\<lambda>images.
       let p = p\<lparr>rule_images := images\<rparr> in
       case doc of
         None \<Rightarrow> Inr (-1, p)
       | Some None \<Rightarrow> Inr (-1, p)
       | Some (Some cur) \<Rightarrow>
           if node_name cur \<noteq> ''dytan-config'' then Inr (-1, p)
           else and_then (fold_res (config_child lx offsets) (node_children cur) p) (\<lambda>p. Inr (0, p)))"

section \<open>Writing a rules file and reading it\<close>

record rule =
  rule_image :: string
  rule_api :: string
  rule_overwrite :: bool
  rule_srcs :: "int list"
  rule_dests :: "int list"

definition rule_body :: "rule \<Rightarrow> rules" where
  "rule_body r = \<lparr>overwrite = Some (rule_overwrite r), srcArgs = rule_srcs r, destArgs = rule_dests r\<rparr>"

definition put_rule :: "rule \<Rightarrow> rules_images \<Rightarrow> rules_images" where
  "put_rule r m = m(rule_image r \<mapsto> [rule_api r \<mapsto> rule_body r])"

definition rule_tokens :: "rule \<Rightarrow> string list" where
  "rule_tokens r = [rule_image r, rule_api r, show_int (of_bool (rule_overwrite r))] @
     map show_int (rule_srcs r) @ [show_int (-1)] @ map show_int (rule_dests r) @ [show_int (-1)]"

text \<open>Tokens with commas between them on a line of their own.\<close>

fun text_line :: "string list \<Rightarrow> string" where
  "text_line [] = []"
| "text_line [t] = t @ [CHR 0x0A]"
| "text_line (t # ts) = t @ CHR '','' # text_line ts"

definition rules_text :: "rule list \<Rightarrow> string" where
  "rules_text rs = concat (map (text_line \<circ> rule_tokens) rs)"

definition name_ok :: "string \<Rightarrow> bool" where
  "name_ok s \<longleftrightarrow> is_token s \<and> CHR 0x00 \<notin> set s"

definition arg_ok :: "int \<Rightarrow> bool" where
  "arg_ok i \<longleftrightarrow> - (2 ^ 31) \<le> i \<and> i < 2 ^ 31 \<and> i \<noteq> -1"

definition rule_ok :: "rule \<Rightarrow> bool" where
  "rule_ok r \<longleftrightarrow> name_ok (rule_image r) \<and> name_ok (rule_api r) \<and>
     (\<forall>i \<in> set (rule_srcs r @ rule_dests r). arg_ok i)"

lemma show_int_name_ok: "name_ok (show_int i)"
proof -
  have "c \<in> set (decimal n) \<Longrightarrow> c \<noteq> CHR 0x00" for c n using decimal_digits [of n] digit_not by blast
  then show ?thesis using show_int_token by (auto simp: name_ok_def show_int_def)
qed

lemma strtok_line:
  "(\<And>t. t \<in> set ts \<Longrightarrow> is_token t) \<Longrightarrow> strtok_all (text_line ts @ s) = ts @ strtok_all s"
proof (induction ts rule: text_line.induct)
  case (2 t)
  then show ?case using strtok_token [of t "CHR 0x0A" s] by (simp add: delim_def)
next
  case (3 t u us)
  then show ?case using strtok_token [of t "CHR '',''" "text_line (u # us) @ s"] by (simp add: delim_def)
qed simp

lemma strtok_lines:
  assumes "\<And>x t. x \<in> set xs \<Longrightarrow> t \<in> set (f x) \<Longrightarrow> is_token t"
  shows "strtok_all (concat (map (text_line \<circ> f) xs)) = concat (map f xs)"
  using assms
proof (induction xs)
  case (Cons x xs)
  have "strtok_all (concat (map (text_line \<circ> f) xs)) = concat (map f xs)"
    by (rule Cons.IH) (rule Cons.prems, auto)
  moreover have "strtok_all (text_line (f x) @ s) = f x @ strtok_all s" for s
    by (rule strtok_line) (rule Cons.prems [of x], simp_all)
  ultimately show ?case by (simp add: comp_def)
qed simp

lemma text_line_no_null:
  "(\<And>t. t \<in> set ts \<Longrightarrow> CHR 0x00 \<notin> set t) \<Longrightarrow> CHR 0x00 \<notin> set (text_line ts)"
  by (induction ts rule: text_line.induct) auto

lemma read_lines:
  assumes "\<And>x t. x \<in> set xs \<Longrightarrow> t \<in> set (f x) \<Longrightarrow> name_ok t"
    and "length (concat (map (text_line \<circ> f) xs)) < 256"
  shows "\<exists>buf. read_buffer (concat (map (text_line \<circ> f) xs)) = Inr buf \<and> strtok_all buf = concat (map f xs)"
proof -
  have "CHR 0x00 \<notin> set (concat (map (text_line \<circ> f) xs))"
    using assms(1) text_line_no_null by (fastforce simp: name_ok_def)
  from read_buffer_short [OF assms(2) this] show ?thesis
    using strtok_lines [of xs f] assms(1) by (auto simp: name_ok_def)
qed

text \<open>The argument lists: numbers up to the closing -1.\<close>

definition reading :: "rules_images \<Rightarrow> string \<Rightarrow> string \<Rightarrow> rules \<Rightarrow> expected \<Rightarrow> rules_reader" where
  "reading m i a ru e =
     \<lparr>expected = e, imgName = i, APIname = a, rulesImageMap = m(i \<mapsto> [a \<mapsto> ru])\<rparr>"

lemma update_reading: "update_rules f (reading m i a ru e) = Inr (reading m i a (f ru) e)"
  by (simp add: update_rules_def reading_def)

lemma read_arg:
  assumes "arg_ok x"
  shows "rules_token (show_int x) (reading m i a ru Flag_sourceArg) =
      Inr (reading m i a (ru\<lparr>srcArgs := srcArgs ru @ [x]\<rparr>) Flag_sourceArg)"
    and "rules_token (show_int x) (reading m i a ru Flag_destArg) =
      Inr (reading m i a (ru\<lparr>destArgs := destArgs ru @ [x]\<rparr>) Flag_destArg)"
proof -
  have "expected (reading m i a ru e) = e" for e by (simp add: reading_def)
  then show "rules_token (show_int x) (reading m i a ru Flag_sourceArg) =
      Inr (reading m i a (ru\<lparr>srcArgs := srcArgs ru @ [x]\<rparr>) Flag_sourceArg)"
    "rules_token (show_int x) (reading m i a ru Flag_destArg) =
      Inr (reading m i a (ru\<lparr>destArgs := destArgs ru @ [x]\<rparr>) Flag_destArg)"
    using assms by (simp_all add: rules_token_def update_reading atoi_show_int arg_ok_def)
qed

lemma read_args_end:
  "rules_token (show_int (-1)) (reading m i a ru Flag_sourceArg) = Inr (reading m i a ru Flag_destArg)"
  "rules_token (show_int (-1)) (reading m i a ru Flag_destArg) = Inr (reading m i a ru Flag_imgName)"
  by (simp_all add: rules_token_def reading_def atoi_show_int)

lemma read_srcArgs:
  assumes "\<forall>x \<in> set xs. arg_ok x"
  shows "fold_res rules_token (map show_int xs @ [show_int (-1)]) (reading m i a ru Flag_sourceArg) =
    Inr (reading m i a (ru\<lparr>srcArgs := srcArgs ru @ xs\<rparr>) Flag_destArg)"
  using assms by (induction xs arbitrary: ru) (simp_all add: read_arg read_args_end)

lemma read_destArgs:
  assumes "\<forall>x \<in> set xs. arg_ok x"
  shows "fold_res rules_token (map show_int xs @ [show_int (-1)]) (reading m i a ru Flag_destArg) =
    Inr (reading m i a (ru\<lparr>destArgs := destArgs ru @ xs\<rparr>) Flag_imgName)"
  using assms by (induction xs arbitrary: ru) (simp_all add: read_arg read_args_end)

lemma read_rule_head:
  assumes "expected s = Flag_imgName"
  shows "fold_res rules_token [i, a, show_int (of_bool b)] s =
    Inr (reading (rulesImageMap s) i a (new_rules\<lparr>overwrite := Some b\<rparr>) Flag_sourceArg)"
  using assms by (cases s) (simp add: rules_token_def update_rules_def atoi_show_int reading_def)

lemma read_rule:
  assumes "rule_ok r" "expected s = Flag_imgName"
  shows "\<exists>s'. fold_res rules_token (rule_tokens r) s = Inr s' \<and> expected s' = Flag_imgName \<and>
    rulesImageMap s' = put_rule r (rulesImageMap s)"
proof -
  let ?s = "reading (rulesImageMap s) (rule_image r) (rule_api r)"
  have ok: "\<forall>x \<in> set (rule_srcs r). arg_ok x" "\<forall>x \<in> set (rule_dests r). arg_ok x"
    using assms(1) by (simp_all add: rule_ok_def)
  have tokens: "rule_tokens r = [rule_image r, rule_api r, show_int (of_bool (rule_overwrite r))] @
      (map show_int (rule_srcs r) @ [show_int (-1)]) @ (map show_int (rule_dests r) @ [show_int (-1)])"
    by (simp add: rule_tokens_def)
  have "fold_res rules_token (rule_tokens r) s =
      Inr (?s (new_rules\<lparr>overwrite := Some (rule_overwrite r), srcArgs := [] @ rule_srcs r,
        destArgs := [] @ rule_dests r\<rparr>) Flag_imgName)"
    unfolding tokens fold_res_append [of _ "[_, _, _]"] fold_res_append [of _ "_ @ [_]"]
      read_rule_head [OF assms(2)] and_then.simps read_srcArgs [OF ok(1)] read_destArgs [OF ok(2)]
    by (simp add: new_rules_def)
  then show ?thesis
    by (auto simp: reading_def put_rule_def new_rules_def rule_body_def)
qed

text \<open>
  C32: a rules file of less than 256 bytes, the size of the buffer, with one line per rule, is read
  back exactly: every line
  gives its image the one function with its flag and its two argument lists, a later line of
  the same image in place of the earlier ones.
\<close>

theorem rules_file_roundtrip:
  assumes "\<forall>r \<in> set rs. rule_ok r" "length (rules_text rs) < 256"
  shows "parseRulesFile (Some (rules_text rs)) m =
    Inr (fold put_rule rs m)"
proof -
  have loop: "\<exists>s'. fold_res rules_token (concat (map rule_tokens rs)) s = Inr s' \<and>
      rulesImageMap s' = fold put_rule rs (rulesImageMap s)"
    if "expected s = Flag_imgName" for s
    using assms(1) that
  proof (induction rs arbitrary: s)
    case (Cons r rs)
    then obtain s1 where "fold_res rules_token (rule_tokens r) s = Inr s1" "expected s1 = Flag_imgName"
      "rulesImageMap s1 = put_rule r (rulesImageMap s)"
      using read_rule [of r s] by auto
    with Cons.IH [of s1] Cons.prems(1) show ?case by (simp add: fold_res_append)
  qed simp
  have "name_ok t" if "r \<in> set rs" "t \<in> set (rule_tokens r)" for r t
    using that assms(1) show_int_name_ok by (auto simp: rule_tokens_def rule_ok_def)
  then obtain buf where "read_buffer (rules_text rs) = Inr buf"
    "strtok_all buf = concat (map rule_tokens rs)"
    using read_lines [of rs rule_tokens] assms(2) by (auto simp: rules_text_def)
  then show ?thesis
    using loop [of "\<lparr>expected = Flag_imgName, imgName = [], APIname = [], rulesImageMap = m\<rparr>"]
    by (auto simp: parseRulesFile_def)
qed

definition sample_rule :: rule where
  "sample_rule = \<lparr>rule_image = ''libc.so'', rule_api = ''atoi'', rule_overwrite = True,
     rule_srcs = [1], rule_dests = [0]\<rparr>"

theorem rules_file_roundtrip_witness:
  "parseRulesFile (Some (rules_text [sample_rule])) Map.empty =
    Inr [''libc.so'' \<mapsto> [''atoi'' \<mapsto> \<lparr>overwrite = Some True, srcArgs = [1], destArgs = [0]\<rparr>]]"
proof -
  have ok: "\<forall>r \<in> set [sample_rule]. rule_ok r"
    by (simp add: sample_rule_def rule_ok_def name_ok_def is_token_def delim_def arg_ok_def)
  have "length (rules_text [sample_rule]) < 256"
    by (simp add: rules_text_def rule_tokens_def sample_rule_def show_int_def decimal.simps)
  from rules_file_roundtrip [OF ok this, of Map.empty] show ?thesis
    by (simp add: put_rule_def rule_body_def sample_rule_def)
qed

text \<open>
  Of two rules for functions of the same image only the later one is kept: each line
  makes a new map for its image, so the earlier function is no longer known.
\<close>

theorem rules_of_an_image_lost:
  assumes "rule_ok r" "rule_ok q" "rule_image r = rule_image q" "rule_api r \<noteq> rule_api q"
    and "length (rules_text [r, q]) < 256"
  shows "\<exists>m' apis. parseRulesFile (Some (rules_text [r, q])) m = Inr m' \<and>
    m' (rule_image r) = Some apis \<and> apis (rule_api r) = None \<and> apis (rule_api q) = Some (rule_body q)"
proof -
  have buf: "\<exists>buf. read_buffer (rules_text [r, q]) = Inr buf \<and> strtok_all buf = concat (map rule_tokens [r, q])"
    unfolding rules_text_def
  proof (rule read_lines)
    show "name_ok t" if "x \<in> set [r, q]" "t \<in> set (rule_tokens x)" for x t
      using that assms(1,2) show_int_name_ok by (auto simp: rule_tokens_def rule_ok_def)
  qed (use assms(5) in \<open>simp add: rules_text_def\<close>)
  obtain s1 where s1: "fold_res rules_token (rule_tokens r)
      \<lparr>expected = Flag_imgName, imgName = [], APIname = [], rulesImageMap = m\<rparr> = Inr s1"
    "expected s1 = Flag_imgName"
    using read_rule [OF assms(1)] by force
  obtain s2 where "fold_res rules_token (rule_tokens q) s1 = Inr s2"
    "rulesImageMap s2 = put_rule q (rulesImageMap s1)"
    using read_rule [OF assms(2) s1(2)] by blast
  then show ?thesis
    using buf s1(1) assms(3,4) by (auto simp: parseRulesFile_def fold_res_append put_rule_def)
qed

theorem rules_of_an_image_lost_witness:
  "\<exists>m' apis. parseRulesFile (Some (rules_text [sample_rule, sample_rule\<lparr>rule_api := ''atol''\<rparr>])) Map.empty = Inr m' \<and>
    m' ''libc.so'' = Some apis \<and> apis ''atoi'' = None"
proof -
  let ?q = "sample_rule\<lparr>rule_api := ''atol''\<rparr>"
  have ok: "rule_ok sample_rule" "rule_ok ?q"
    by (simp_all add: sample_rule_def rule_ok_def name_ok_def is_token_def delim_def arg_ok_def)
  have "length (rules_text [sample_rule, ?q]) < 256" "rule_api sample_rule \<noteq> rule_api ?q"
    by (simp_all add: rules_text_def rule_tokens_def sample_rule_def show_int_def decimal.simps)
  from rules_of_an_image_lost [OF ok _ this(2,1)] show ?thesis
    by (fastforce simp: sample_rule_def)
qed

section \<open>Writing offset ranges and reading them\<close>

definition range_tokens :: "string \<times> int \<times> int \<Rightarrow> string list" where
  "range_tokens = (\<lambda>(name, s, e). [name, show_int s, show_int e])"

definition ranges_text :: "(string \<times> int \<times> int) list \<Rightarrow> string" where
  "ranges_text rs = concat (map (text_line \<circ> range_tokens) rs)"

definition int_range :: "int \<Rightarrow> bool" where
  "int_range i \<longleftrightarrow> - (2 ^ 31) \<le> i \<and> i < 2 ^ 31"

definition arrays_ok :: "datfile \<Rightarrow> bool" where
  "arrays_ok d \<longleftrightarrow> length (dat_start d) = 256 \<and> length (dat_end d) = 256"

text \<open>
  The tokens of a 256-byte buffer never reach the end of the arrays: before token \<open>k\<close> the
  index is \<open>k div 3\<close>.
\<close>

lemma dat_tokens_ok:
  assumes "arrays_ok d" "k + length ts \<le> 768"
  shows "\<exists>d'. fold_res dat_token ts (k, k div 3, d) = Inr (k + length ts, (k + length ts) div 3, d') \<and>
    arrays_ok d'"
  using assms
proof (induction ts arbitrary: k d)
  case (Cons t ts)
  have "\<exists>d1. dat_token t (k, k div 3, d) = Inr (Suc k, Suc k div 3, d1) \<and> arrays_ok d1"
  proof -
    have i: "k div 3 < 256" using Cons.prems(2) by simp
    consider "k mod 3 = 0" | "k mod 3 = 1" | "k mod 3 = 2" by linarith
    then show ?thesis
    proof cases
      case 1
      then show ?thesis using Cons.prems(1) by (simp add: dat_token_def div_Suc mod_Suc)
    next
      case 2
      then show ?thesis using Cons.prems(1) i by (simp add: dat_token_def arrays_ok_def div_Suc mod_Suc)
    next
      case 3
      then show ?thesis using Cons.prems(1) i by (simp add: dat_token_def arrays_ok_def div_Suc mod_Suc)
    qed
  qed
  then obtain d1 where "dat_token t (k, k div 3, d) = Inr (Suc k, Suc k div 3, d1)" "arrays_ok d1" by blast
  with Cons.IH [of d1 "Suc k"] Cons.prems(2) show ?case by simp
qed simp

text \<open>Whether the offset file can be read.\<close>

definition readable_offsets :: "string option \<Rightarrow> bool" where
  "readable_offsets content \<longleftrightarrow>
     (\<forall>c. content = Some c \<longrightarrow> \<not> (256 \<le> length c \<and> CHR 0x00 \<notin> set (take 256 c)))"

lemma parseDatFiles_readable:
  assumes "arrays_ok d" "readable_offsets content"
  shows "\<exists>d'. parseDatFiles content d = Inr d' \<and> arrays_ok d'"
proof (cases content)
  case (Some c)
  define buf where "buf = takeWhile (\<lambda>c. c \<noteq> CHR 0x00) (take 256 c)"
  have buf: "read_buffer c = Inr buf"
    using assms(2) Some by (auto simp: read_buffer_def buf_def readable_offsets_def)
  have "length buf \<le> 256"
    using length_takeWhile_le [of "\<lambda>c. c \<noteq> CHR 0x00" "take 256 c"] by (simp add: buf_def)
  then have "length (strtok_all buf) \<le> 768" using strtok_all_length [of buf] by simp
  from dat_tokens_ok [OF assms(1), of 0] this show ?thesis
    using Some buf by (fastforce simp: parseDatFiles_def arrays_ok_def)
qed (use assms in \<open>simp add: parseDatFiles_def\<close>)

text \<open>
  C34: reading the offset file never writes outside its arrays of 256 entries, whatever the
  file holds: the only failure is a file that fills the 256-byte buffer and leaves it without
  an end.
\<close>

theorem parseDatFiles_in_bounds:
  assumes "arrays_ok d"
  shows "(\<exists>c. content = Some c \<and> 256 \<le> length c \<and> CHR 0x00 \<notin> set (take 256 c) \<and>
       parseDatFiles content d = Inl Out_Of_Bounds) \<or>
    (\<exists>d'. parseDatFiles content d = Inr d' \<and> arrays_ok d')"
proof (cases "readable_offsets content")
  case False
  then show ?thesis by (auto simp: readable_offsets_def parseDatFiles_def read_buffer_def)
qed (use parseDatFiles_readable [OF assms] in blast)

theorem parseDatFiles_in_bounds_witness:
  "\<exists>d'. parseDatFiles (Some ''test,21719,21751'') zero_datfile = Inr d' \<and> arrays_ok d'"
proof -
  have "arrays_ok zero_datfile" by (simp add: arrays_ok_def zero_datfile_def)
  from parseDatFiles_in_bounds [OF this, of "Some ''test,21719,21751''"] show ?thesis by simp
qed

lemma read_range_tokens:
  assumes "int_range s" "int_range e" "length ss = i" "length es = i" "i < 256" "arrays_ok d0"
  shows "fold_res dat_token (range_tokens (name, s, e))
      (3 * i, i, d0\<lparr>dat_start := ss @ drop i (dat_start d0), dat_end := es @ drop i (dat_end d0)\<rparr>) =
    Inr (3 * Suc i, Suc i, d0\<lparr>dat_start := (ss @ [s]) @ drop (Suc i) (dat_start d0),
      dat_end := (es @ [e]) @ drop (Suc i) (dat_end d0)\<rparr>)"
proof -
  have upd: "(xs @ drop i ys)[i := v] = xs @ v # drop (Suc i) ys" if "length xs = i" "length ys = 256"
    for xs ys :: "int list" and v
    using that assms(5) by (simp add: list_update_append Cons_nth_drop_Suc [symmetric])
  have m: "Suc (3 * i) mod 3 = 1" "Suc (Suc (3 * i)) mod 3 = 2" by presburger+
  have "atoi (show_int s) = s" "atoi (show_int e) = e"
    using assms(1,2) atoi_show_int by (simp_all add: int_range_def)
  then show ?thesis
    using assms(3-6) upd by (simp add: range_tokens_def dat_token_def m arrays_ok_def)
qed

lemma read_ranges:
  assumes "\<forall>(name, s, e) \<in> set rs. int_range s \<and> int_range e" "length ss = length es"
    "length ss + length rs \<le> 256" "arrays_ok d0"
  shows "fold_res dat_token (concat (map range_tokens rs))
      (3 * length ss, length ss, d0\<lparr>dat_start := ss @ drop (length ss) (dat_start d0),
         dat_end := es @ drop (length es) (dat_end d0)\<rparr>) =
    Inr (3 * (length ss + length rs), length ss + length rs,
      d0\<lparr>dat_start := (ss @ map (\<lambda>(_, s, _). s) rs) @ drop (length ss + length rs) (dat_start d0),
         dat_end := (es @ map (\<lambda>(_, _, e). e) rs) @ drop (length ss + length rs) (dat_end d0)\<rparr>)"
  using assms
proof (induction rs arbitrary: ss es)
  case (Cons r rs)
  obtain name s e where r: "r = (name, s, e)" by (cases r) auto
  have "fold_res dat_token (range_tokens r)
      (3 * length ss, length ss, d0\<lparr>dat_start := ss @ drop (length ss) (dat_start d0),
         dat_end := es @ drop (length es) (dat_end d0)\<rparr>) =
    Inr (3 * Suc (length ss), Suc (length ss), d0\<lparr>dat_start := (ss @ [s]) @ drop (Suc (length ss)) (dat_start d0),
      dat_end := (es @ [e]) @ drop (Suc (length ss)) (dat_end d0)\<rparr>)"
    unfolding r Cons.prems(2) [symmetric]
    by (rule read_range_tokens) (use Cons.prems r in simp_all)
  moreover have "fold_res dat_token (concat (map range_tokens rs))
      (3 * Suc (length ss), Suc (length ss), d0\<lparr>dat_start := (ss @ [s]) @ drop (Suc (length ss)) (dat_start d0),
         dat_end := (es @ [e]) @ drop (Suc (length ss)) (dat_end d0)\<rparr>) =
    Inr (3 * (length ss + length (r # rs)), length ss + length (r # rs),
      d0\<lparr>dat_start := (ss @ map (\<lambda>(_, s, _). s) (r # rs)) @ drop (length ss + length (r # rs)) (dat_start d0),
         dat_end := (es @ map (\<lambda>(_, _, e). e) (r # rs)) @ drop (length ss + length (r # rs)) (dat_end d0)\<rparr>)"
    using Cons.IH [of "ss @ [s]" "es @ [e]"] Cons.prems r
    by (simp only: length_append append_assoc) (simp del: fold_res.simps)
  ultimately show ?case by (simp only: list.map concat.simps fold_res_append and_then.simps)
qed simp

text \<open>
  C33: the offset ranges of a file of less than 256 bytes with one \<open>name,start,end\<close> line per
  range are read back exactly, from the first entries of the arrays on, and the index is that of the last one.
\<close>

theorem offset_ranges_roundtrip:
  assumes "\<forall>(name, s, e) \<in> set rs. name_ok name \<and> int_range s \<and> int_range e"
    and "length (ranges_text rs) < 256" "arrays_ok d"
  shows "parseDatFiles (Some (ranges_text rs)) d =
    Inr (d\<lparr>dat_index := int (length rs) - 1,
           dat_start := map (\<lambda>(_, s, _). s) rs @ drop (length rs) (dat_start d),
           dat_end := map (\<lambda>(_, _, e). e) rs @ drop (length rs) (dat_end d)\<rparr>)"
proof -
  have names: "name_ok t" if "r \<in> set rs" "t \<in> set (range_tokens r)" for r t
    using that assms(1) show_int_name_ok by (auto simp: range_tokens_def)
  obtain buf where buf: "read_buffer (ranges_text rs) = Inr buf" "strtok_all buf = concat (map range_tokens rs)"
    using read_lines [of rs range_tokens] names assms(2) unfolding ranges_text_def by blast
  have "length (concat (map range_tokens rs)) = 3 * length rs"
    by (induction rs) (auto simp: range_tokens_def)
  moreover have "length buf < 256" using buf(1) assms(2)
    by (auto simp: read_buffer_def Let_def split: if_splits intro: le_less_trans [OF length_takeWhile_le])
  ultimately have "length rs \<le> 256" using strtok_all_length [of buf] buf(2) by simp
  moreover have "\<forall>(name, s, e) \<in> set rs. int_range s \<and> int_range e" using assms(1) by auto
  ultimately show ?thesis
    using read_ranges [of rs "[]" "[]" d] assms(3) buf by (simp add: parseDatFiles_def)
qed

theorem offset_ranges_roundtrip_witness:
  "\<exists>d. parseDatFiles (Some (ranges_text [(''test'', 21719, 21751)])) zero_datfile = Inr d \<and>
    dat_start d ! 0 = 21719 \<and> dat_end d ! 0 = 21751 \<and> dat_index d = 0"
proof -
  have "arrays_ok zero_datfile" by (simp add: arrays_ok_def zero_datfile_def)
  moreover have "length (ranges_text [(''test'', 21719, 21751)]) < 256"
    by (simp add: ranges_text_def range_tokens_def show_int_def decimal.simps)
  ultimately show ?thesis
    using offset_ranges_roundtrip [of "[(''test'', 21719, 21751)]" zero_datfile]
    by (simp add: name_ok_def is_token_def delim_def int_range_def)
qed

section \<open>Writing a configuration and reading it\<close>

text \<open>What libxml documents of the two functions.\<close>

definition libxml_ok :: "libxml \<Rightarrow> bool" where
  "libxml_ok lx \<longleftrightarrow> (\<forall>t. t \<noteq> [] \<longrightarrow> xmlNodeListGetString lx [Text t] = Some t) \<and>
     (\<forall>n as cs k. xmlGetProp lx (Element n as cs) k = map_of as k)"

definition leaf :: "string \<Rightarrow> string \<Rightarrow> xml" where
  "leaf n t = Element n [] [Text t]"

text \<open>The text nodes that indentation leaves between the elements, \<open>ws\<close> by depth.\<close>

definition spaced :: "string \<Rightarrow> xml list \<Rightarrow> xml list" where
  "spaced w cs = (if w = [] then cs else concat (map (\<lambda>c. [Text w, c]) cs) @ [Text w])"

text \<open>The details of a network source are its host and its port, those of a path source files.\<close>

definition detail_name :: "string \<Rightarrow> nat \<Rightarrow> string" where
  "detail_name ty i = (if ty \<noteq> ''network'' then ''file'' else if i = 0 then ''host'' else ''port'')"

definition source_xml :: "(nat \<Rightarrow> string) \<Rightarrow> config_source \<Rightarrow> xml" where
  "source_xml ws src = Element ''source'' [(''type'', src_type src)]
     (spaced (ws 3) (map (\<lambda>(i, d). leaf (detail_name (src_type src) i) d) (enumerate 0 (details src)) @
      (if granularity src = [] then [] else [leaf ''granularity'' (granularity src)])))"

definition flag_text :: "bool \<Rightarrow> string" where
  "flag_text b = (if b then ''true'' else ''false'')"

definition propagation_xml :: "(nat \<Rightarrow> string) \<Rightarrow> propagation \<Rightarrow> xml" where
  "propagation_xml ws p = Element ''propagation'' []
     (spaced (ws 2) [leaf ''dataflow'' (flag_text (dataflow p)),
        leaf ''controlflow'' (flag_text (controlflow p)), leaf ''tracing'' (flag_text (prop_tracing p))])"

definition sink_xml :: "(nat \<Rightarrow> string) \<Rightarrow> sink \<Rightarrow> xml" where
  "sink_xml ws sk = Element ''sink'' []
     (spaced (ws 3) [leaf ''id'' (sink_id sk),
        Element ''location'' [(''type'', loc_type sk)]
          (spaced (ws 4) (map (leaf ''instruction'') (actual_location sk))),
        leaf ''action'' (action sk)])"

definition config_xml :: "(nat \<Rightarrow> string) \<Rightarrow> dytan_config \<Rightarrow> xml" where
  "config_xml ws c = Element ''dytan-config'' [] (spaced (ws 1)
     [Element ''sources'' [] (spaced (ws 2) (map (source_xml ws) (sources c) @
        (if num_markings c = [] then [] else [leaf ''taint-marks'' (num_markings c)]))),
      propagation_xml ws (the (conf_prop c)),
      Element ''sinks'' [] (spaced (ws 2) (map (sink_xml ws) (sinks c)))])"

text \<open>Every text that is read is not empty: libxml has no node for an empty text.\<close>

definition config_printable :: "dytan_config \<Rightarrow> bool" where
  "config_printable c \<longleftrightarrow> (\<forall>src \<in> set (sources c). [] \<notin> set (details src)) \<and> conf_prop c \<noteq> None \<and>
     (\<forall>sk \<in> set (sinks c). sink_id sk \<noteq> [] \<and> [] \<notin> set (actual_location sk))"

lemma get_leaf: "libxml_ok lx \<Longrightarrow> t \<noteq> [] \<Longrightarrow> get_text lx (leaf n t) = Inr t"
  by (simp add: get_text_def leaf_def libxml_ok_def)

lemma leaf_element [simp]: "is_element (leaf n t)" "node_name (leaf n t) = n"
  by (simp_all add: leaf_def)

lemma fold_spaced:
  assumes "\<And>s. f (Text w) s = Inr s"
  shows "fold_res f (spaced w cs) s = fold_res f cs s"
proof -
  have "fold_res f (concat (map (\<lambda>c. [Text w, c]) cs) @ [Text w]) s = fold_res f cs s" for s
  proof (induction cs arbitrary: s)
    case (Cons c cs)
    then show ?case by (cases "f c s") (simp_all add: assms)
  qed (simp add: assms)
  then show ?thesis by (simp add: spaced_def)
qed

lemma fold_same: "(\<And>x. x \<in> set xs \<Longrightarrow> f x s = Inr s) \<Longrightarrow> fold_res f xs s = Inr s"
  by (induction xs) simp_all

lemma text_skipped [simp]:
  "source_child lx offsets (Text w) = Inr" "sources_child lx offsets (Text w) = Inr"
  "propagation_child lx (Text w) p = Inr p" "sink_child lx (Text w) c = Inr c"
  "config_child lx offsets (Text w) q = Inr q"
  by (auto simp: source_child_def sources_child_def propagation_child_def sink_child_def config_child_def)

lemma read_source_details:
  "libxml_ok lx \<Longrightarrow> [] \<notin> set ds \<Longrightarrow>
    fold_res (source_child lx offsets) (map (\<lambda>(i, d). leaf (detail_name ty i) d) (enumerate k ds)) (src, d) =
      Inr (src\<lparr>details := details src @ ds\<rparr>, d)"
  by (induction ds arbitrary: src k) (auto simp: source_child_def get_leaf detail_name_def)

lemma read_source:
  assumes "libxml_ok lx" "[] \<notin> set (details src)" "readable_offsets offsets" "arrays_ok d"
  shows "\<exists>d'. sources_child lx offsets (source_xml ws src) (c, d) =
      Inr (c\<lparr>sources := sources c @ [src]\<rparr>, d') \<and> arrays_ok d'"
proof -
  let ?s = "\<lparr>src_type = src_type src, granularity = [], details = []\<rparr>"
  let ?gs = "if granularity src = [] then [] else [leaf ''granularity'' (granularity src)]"
  obtain d1 where d1: "parseDatFiles offsets d = Inr d1" "arrays_ok d1"
    using parseDatFiles_readable [OF assms(4,3)] by blast
  have "\<exists>d'. fold_res (source_child lx offsets) ?gs (?s\<lparr>details := details src\<rparr>, d) = Inr (src, d') \<and> arrays_ok d'"
    using d1 assms(1,4) by (cases src) (simp add: source_child_def get_leaf)
  then obtain d' where "fold_res (source_child lx offsets) ?gs (?s\<lparr>details := details src\<rparr>, d) = Inr (src, d')"
    "arrays_ok d'" by blast
  then have "fold_res (source_child lx offsets) (node_children (source_xml ws src)) (?s, d) = Inr (src, d')"
    using read_source_details [OF assms(1,2), of offsets "src_type src" 0 ?s d]
    by (simp add: source_xml_def fold_res_append fold_spaced)
  moreover have "xmlGetProp lx (source_xml ws src) ''type'' = Some (src_type src)"
    using assms(1) by (simp add: libxml_ok_def source_xml_def)
  moreover have "node_name (source_xml ws src) = ''source''" by (simp add: source_xml_def)
  ultimately show ?thesis using \<open>arrays_ok d'\<close> by (simp add: sources_child_def Let_def)
qed

lemma read_sources:
  assumes "libxml_ok lx" "readable_offsets offsets" "\<forall>src \<in> set srcs. [] \<notin> set (details src)" "arrays_ok d"
  shows "\<exists>d'. fold_res (sources_child lx offsets) (map (source_xml ws) srcs) (c, d) =
      Inr (c\<lparr>sources := sources c @ srcs\<rparr>, d') \<and> arrays_ok d'"
  using assms(3,4)
proof (induction srcs arbitrary: c d)
  case (Cons src srcs)
  then obtain d1 where "sources_child lx offsets (source_xml ws src) (c, d) =
      Inr (c\<lparr>sources := sources c @ [src]\<rparr>, d1)" "arrays_ok d1"
    using read_source [OF assms(1) _ assms(2), of src d ws c] by auto
  with Cons.IH [of d1 "c\<lparr>sources := sources c @ [src]\<rparr>"] Cons.prems show ?case by simp
qed simp

lemma read_propagation:
  assumes "libxml_ok lx"
  shows "parsePropagation lx (propagation_xml ws p) c = Inr (c\<lparr>conf_prop := Some p\<rparr>)"
proof -
  have t: "flag_text b \<noteq> []" "(flag_text b = ''true'') = b" for b by (simp_all add: flag_text_def)
  show ?thesis
    by (cases p) (simp add: parsePropagation_def propagation_xml_def propagation_child_def [abs_def] fold_spaced
        get_leaf [OF assms t(1)] t(2))
qed

text \<open>A sink is read without an error, and nothing of it is kept.\<close>

lemma read_sink:
  assumes "libxml_ok lx" "sink_id sk \<noteq> []" "[] \<notin> set (actual_location sk)"
  shows "fold_res (sink_child lx) (node_children (sink_xml ws sk)) c = Inr c"
proof -
  let ?loc = "Element ''location'' [(''type'', loc_type sk)] (spaced (ws 4) (map (leaf ''instruction'') (actual_location sk)))"
  let ?f = "\<lambda>subsub conf. if is_element subsub then and_then (get_text lx subsub) (\<lambda>txt. Inr conf) else Inr conf"
  have "?f (leaf ''instruction'' t) c = Inr c" if "t \<in> set (actual_location sk)" for t
    using that assms(1,3) by (cases "t = []") (auto simp: get_leaf)
  then have "fold_res ?f (node_children ?loc) c = Inr c"
    by (simp add: fold_spaced) (rule fold_same, auto)
  then have "sink_child lx ?loc c = Inr c" by (simp add: sink_child_def)
  then show ?thesis
    using assms(1,2) by (simp add: sink_xml_def fold_spaced) (simp add: sink_child_def get_leaf)
qed

lemma read_sinks:
  assumes "libxml_ok lx" "\<forall>sk \<in> set sks. sink_id sk \<noteq> [] \<and> [] \<notin> set (actual_location sk)"
  shows "parseSinks lx (Element ''sinks'' [] (spaced w (map (sink_xml ws) sks))) c = Inr c"
proof -
  have "node_name (sink_xml ws sk) = ''sink''" for sk by (simp add: sink_xml_def)
  then show ?thesis
    using assms(2) by (simp add: parseSinks_def fold_spaced) (rule fold_same, auto simp: read_sink [OF assms(1)])
qed

text \<open>
  C6: a configuration file in the form of the shipped ones, with sources, marks, propagation and
  sinks and any indentation, is read without an error for every implementation of the two
  libxml functions that does what libxml documents. Sources, number of marks and propagation
  come back exactly as written; the sinks do not come back at all: \<open>parseSinks\<close> logs them and
  stores none. The offset arrays keep their sizes, the rules are those of the rules file.
\<close>

theorem config_file_roundtrip:
  assumes "libxml_ok lx" "config_printable c" "readable_offsets offsets" "arrays_ok (datFile p)"
    and "conf p = new_config" "parseRulesFile rules_content (rule_images p) = Inr images"
  shows "\<exists>d. parseConfig lx rules_content offsets (Some (Some (config_xml ws c))) p =
      Inr (0, \<lparr>conf = c\<lparr>sinks := []\<rparr>, datFile = d, rule_images = images\<rparr>) \<and> arrays_ok d"
proof -
  let ?ms = "if num_markings c = [] then [] else [leaf ''taint-marks'' (num_markings c)]"
  let ?sx = "Element ''sources'' [] (spaced (ws 2) (map (source_xml ws) (sources c) @ ?ms))"
  let ?kx = "Element ''sinks'' [] (spaced (ws 2) (map (sink_xml ws) (sinks c)))"
  obtain pr where pr: "conf_prop c = Some pr" using assms(2) by (auto simp: config_printable_def)
  obtain d where d: "fold_res (sources_child lx offsets) (map (source_xml ws) (sources c)) (new_config, datFile p) =
      Inr (new_config\<lparr>sources := sources c\<rparr>, d)" "arrays_ok d"
    using read_sources [OF assms(1,3) _ assms(4), of "sources c" ws new_config] assms(2)
    by (auto simp: config_printable_def new_config_def)
  have "parseSources lx offsets ?sx (new_config, datFile p) =
      Inr (new_config\<lparr>sources := sources c, num_markings := num_markings c\<rparr>, d)"
    using assms(1) by (simp add: parseSources_def fold_spaced fold_res_append d sources_child_def get_leaf)
      (simp add: new_config_def)
  then have "config_child lx offsets ?sx (p\<lparr>rule_images := images\<rparr>) =
      Inr (p\<lparr>rule_images := images, conf := new_config\<lparr>sources := sources c, num_markings := num_markings c\<rparr>,
             datFile := d\<rparr>)"
    using assms(5) by (simp add: config_child_def)
  moreover have "config_child lx offsets (propagation_xml ws pr) q =
      Inr (q\<lparr>conf := (conf q)\<lparr>conf_prop := Some pr\<rparr>\<rparr>)" for q
    using read_propagation [OF assms(1), of ws pr "conf q"]
    by (simp add: config_child_def) (simp add: propagation_xml_def)
  moreover have "config_child lx offsets ?kx q = Inr q" for q
    using read_sinks [OF assms(1), of "sinks c" "ws 2" ws "conf q"] assms(2)
    by (simp add: config_child_def config_printable_def)
  moreover have "new_config\<lparr>sources := sources c, num_markings := num_markings c, conf_prop := Some pr\<rparr> =
      c\<lparr>sinks := []\<rparr>"
    using pr by (cases c) (simp add: new_config_def)
  ultimately show ?thesis
    using d(2) assms(6) pr by (cases p) (simp add: parseConfig_def config_xml_def fold_spaced)
qed

text \<open>The two functions on the nodes of the model.\<close>

definition list_string :: "xml list \<Rightarrow> string option" where
  "list_string ns =
     (if ns = [] then None else Some (concat (map (\<lambda>n. case n of Text t \<Rightarrow> t | _ \<Rightarrow> []) ns)))"

fun prop_of :: "xml \<Rightarrow> string \<Rightarrow> string option" where
  "prop_of (Element n as cs) k = map_of as k"
| "prop_of (Text t) k = None"
| "prop_of (Comment t) k = None"

definition sample_libxml :: libxml where
  "sample_libxml = \<lparr>xmlNodeListGetString = list_string, xmlGetProp = prop_of\<rparr>"

lemma sample_libxml_ok: "libxml_ok sample_libxml"
  by (simp add: libxml_ok_def sample_libxml_def list_string_def)

text \<open>The configuration of the repository, \<open>src/config.xml\<close>, and its indentation.\<close>

definition sample_config :: dytan_config where
  "sample_config =
     \<lparr>sources = [\<lparr>src_type = ''path'', granularity = ''PerOffset'', details = [''squid.conf'']\<rparr>],
      num_markings = ''32'',
      conf_prop = Some \<lparr>dataflow = True, controlflow = False, prop_tracing = False\<rparr>,
      sinks = [\<lparr>sink_id = ''36'', loc_type = ''instruction'', actual_location = [''ret'', ''jmp''],
                action = ''validate-absence''\<rparr>]\<rparr>"

definition indentation :: "nat \<Rightarrow> string" where
  "indentation n = CHR 0x0A # replicate (4 * n) CHR '' ''"

theorem config_file_roundtrip_witness:
  "\<exists>p. parseConfig sample_libxml None None (Some (Some (config_xml indentation sample_config))) start_parsed =
      Inr (0, p) \<and> conf p = sample_config\<lparr>sinks := []\<rparr> \<and> sinks sample_config \<noteq> []"
proof -
  have "config_printable sample_config" "arrays_ok (datFile start_parsed)" "readable_offsets None"
    "conf start_parsed = new_config" "parseRulesFile None (rule_images start_parsed) = Inr Map.empty"
    by (simp_all add: config_printable_def sample_config_def arrays_ok_def start_parsed_def zero_datfile_def
        readable_offsets_def parseRulesFile_def)
  moreover have "sinks sample_config \<noteq> []" by (simp add: sample_config_def)
  ultimately show ?thesis
    using config_file_roundtrip [OF sample_libxml_ok, of sample_config None start_parsed None Map.empty indentation]
    by force
qed

end
