(* ===== verification/Framework_Options.thy ===== *)
theory Framework_Options
  imports Syscall_Functions Config_Parser
begin

text \<open>
  From the configuration to the running tool (\<open>src/dytan.cpp\<close>): \<open>set_framework_options\<close>
  makes the taint generator, the path and network sources and their monitors, which register
  their callbacks as they are made, and \<open>main\<close> puts the parts together. The parameters are
  those of the parts: the string at an address of the application, \<open>rand()\<close>, \<open>inet_addr\<close> and
  libxml.
\<close>

section \<open>Taint sources\<close>

text \<open>The global variables that are set, with the number of marks they start with.\<close>

record framework =
  fw_monitor :: "tool syscall_monitor"
  fw_paths :: "source path_monitor list"
  fw_networks :: "source network_monitor list"
  fw_marks :: int
  fw_gen :: "taint_generator option"

definition new_framework :: framework where
  "new_framework = \<lparr>fw_monitor = new_SyscallMonitor, fw_paths = [], fw_networks = [],
     fw_marks = 4096, fw_gen = None\<rparr>"

definition taint_granularity :: "string \<Rightarrow> taint_range_t" where
  "taint_granularity g =
     (if g = ''PerRead'' then PerRead else if g = ''PerByte'' then PerByte
      else if g = ''PerOffset'' then PerOffset else PerRead)"

definition set_taint_marks :: "string \<Rightarrow> framework \<Rightarrow> framework result" where
  "set_taint_marks markings fw =
     (if markings = ''1'' then Inr (fw\<lparr>fw_gen := Some (ConstantTaintGenerator 5)\<rparr>)
      else if markings \<noteq> [] then
        and_then (convertTo_int markings) (\<lambda>n.
          if n < 1 \<or> n > fw_marks fw then Inl Exit_Called
          else Inr (fw\<lparr>fw_marks := n, fw_gen := Some (TaintGenerator 1 n)\<rparr>))
      else Inr fw)"

definition make_path_source ::
  "(addrint \<Rightarrow> int) \<Rightarrow> taint_range_t \<Rightarrow> string list \<Rightarrow> source path_monitor result" where
  "make_path_source rnd t ds =
     (case ds of
        [] \<Rightarrow> Inl Out_Of_Bounds
      | d # _ \<Rightarrow>
          if d = ''*'' then Inr (addObserverForAll rnd t (new_PathTaintSource True))
          else Inr (fold (\<lambda>p. addPathSource rnd p t) ds (new_PathTaintSource False)))"

text \<open>The details are taken in pairs, the second one without a test.\<close>

fun add_network_sources ::
  "(addrint \<Rightarrow> int) \<Rightarrow> (string \<Rightarrow> 32 word) \<Rightarrow> taint_range_t \<Rightarrow> string list \<Rightarrow>
   source network_monitor \<Rightarrow> source network_monitor result" where
  "add_network_sources rnd inet_addr t [] nm = Inr nm"
| "add_network_sources rnd inet_addr t [host_ip] nm = Inl Out_Of_Bounds"
| "add_network_sources rnd inet_addr t (host_ip # host_port # ds) nm =
     and_then (addNetworkSource rnd inet_addr host_ip host_port t nm)
       (add_network_sources rnd inet_addr t ds)"

definition make_network_source ::
  "(addrint \<Rightarrow> int) \<Rightarrow> (string \<Rightarrow> 32 word) \<Rightarrow> taint_range_t \<Rightarrow> string list \<Rightarrow>
   source network_monitor result" where
  "make_network_source rnd inet_addr t ds =
     (case ds of
        [] \<Rightarrow> Inl Out_Of_Bounds
      | d # _ \<Rightarrow>
          if d = ''*'' then net_addObserverForAll rnd t (new_NetworkTaintSource True)
          else add_network_sources rnd inet_addr t ds (new_NetworkTaintSource False))"

text \<open>A function source registers a callback for images, which taints nothing.\<close>

definition make_source ::
  "(addrint \<Rightarrow> string) \<Rightarrow> (addrint \<Rightarrow> int) \<Rightarrow> (string \<Rightarrow> 32 word) \<Rightarrow> config_source \<Rightarrow>
   framework \<Rightarrow> framework result" where
  "make_source cstring rnd inet_addr src fw =
     (let t = taint_granularity (granularity src) in
      if src_type src = ''path'' then
        and_then (make_path_source rnd t (details src)) (\<lambda>pm.
          Inr (fw\<lparr>fw_monitor := activate cstring (length (fw_paths fw)) (fw_monitor fw),
                  fw_paths := fw_paths fw @ [pm]\<rparr>))
      else if src_type src = ''network'' then
        and_then (make_network_source rnd inet_addr t (details src)) (\<lambda>nm.
          Inr (fw\<lparr>fw_monitor := activate_network (length (fw_networks fw)) (fw_monitor fw),
                  fw_networks := fw_networks fw @ [nm]\<rparr>))
      else Inr fw)"

definition set_framework_options ::
  "(addrint \<Rightarrow> string) \<Rightarrow> (addrint \<Rightarrow> int) \<Rightarrow> (string \<Rightarrow> 32 word) \<Rightarrow> dytan_config \<Rightarrow>
   framework \<Rightarrow> framework result" where
  "set_framework_options cstring rnd inet_addr c =
     fold_res (\<lambda>src fw. and_then (set_taint_marks (num_markings c) fw)
       (make_source cstring rnd inet_addr src)) (sources c)"

section \<open>Starting the tool\<close>

type_synonym config = "tool syscall_monitor \<times> tool"

text \<open>
  The configuration when \<open>PIN_StartProgram\<close> is called: the sources have registered their
  callbacks when they were made, then \<open>main\<close> has registered its own.
\<close>

definition start_tool :: "(addrint \<Rightarrow> string) \<Rightarrow> framework \<Rightarrow> datfile \<Rightarrow> config" where
  "start_tool cstring fw d =
     (register_main_observers cstring (fw_monitor fw),
      \<lparr>source_state = \<lparr>engine = init_state (fw_marks fw) (fw_gen fw), offset_count = -1,
         datFile_start = dat_start d, datFile_end = dat_end d\<rparr>,
       openFiles = Map.empty, path_monitors = fw_paths fw, network_monitors = fw_networks fw\<rparr>)"

text \<open>
  What \<open>main\<close> leaves when the application starts: the configuration and whether \<open>Dataflow\<close>
  and \<open>Controlflow\<close> have been registered.
\<close>

record started =
  running :: config
  dataflow_registered :: bool
  controlFlowTainting :: bool
  tracing_on :: bool

definition main ::
  "(addrint \<Rightarrow> string) \<Rightarrow> (addrint \<Rightarrow> int) \<Rightarrow> (string \<Rightarrow> 32 word) \<Rightarrow> libxml \<Rightarrow> string option \<Rightarrow>
   string option \<Rightarrow> xml option option \<Rightarrow> started result" where
  "main cstring rnd inet_addr lx rules_content offsets doc =
     and_then (parseConfig lx rules_content offsets doc start_parsed) (\<lambda>(result, p).
       if result = -1 then Inl Exit_Called
       else and_then (set_framework_options cstring rnd inet_addr (conf p) new_framework) (\<lambda>fw.
         case conf_prop (conf p) of
           None \<Rightarrow> Inl Uninitialised_Read
         | Some pr \<Rightarrow>
             Inr \<lparr>running = start_tool cstring fw (datFile p), dataflow_registered = dataflow pr,
                  controlFlowTainting = controlflow pr, tracing_on = prop_tracing pr\<rparr>))"

end
