(* ===== verification/Tool_Run.thy ===== *)
theory Tool_Run
  imports Dispatch Framework_Options
begin

text \<open>
  The running tool: what Pin makes happen between two instructions of the application (the
  calls inserted before an instruction, the calls inserted at branches and meeting points,
  the entry and exit of system calls, the marking functions that an application calls) as
  events that change the engine, the monitors and the callbacks' state. The invariant of
  the whole state is proved step by step from the components' lemmas.
\<close>

section \<open>Events\<close>

datatype event =
    Instruction ins execution
  | Branch addrint
  | Meet "addrint list"
  | Mark int addrint size_t int
  | Enter "32 word" syscall_context
  | Leave "32 word" syscall_context

definition on_engine :: "(dytan \<Rightarrow> dytan result) \<Rightarrow> config \<Rightarrow> config result" where
  "on_engine f = (\<lambda>(m, s). and_then (f (engine (source_state s))) (\<lambda>st.
     Inr (m, with_engine (\<lambda>_. st) s)))"

fun happen :: "event \<Rightarrow> config \<Rightarrow> config result" where
  "happen (Instruction ins x) c =
     and_then (Dataflow ins) (\<lambda>cs. on_engine (run_calls x cs) c)"
| "happen (Branch addr) c = on_engine (PushControl addr) c"
| "happen (Meet addrs) c = on_engine (\<lambda>st. Inr (PopControl addrs st)) c"
| "happen (Mark rnd addr sz m) c = on_engine (SetNewTaintForMemory rnd addr sz m) c"
| "happen (Enter tid ctxt) c = Inr (SysBefore tid ctxt (fst c), snd c)"
| "happen (Leave tid ctxt) c = SysAfter tid ctxt c"

text \<open>
  The events that can occur: writes of an instruction are shorter than two gigabytes,
  \<open>rand()\<close> is not negative, and the marks that an application asks for are not below -1.
  Instructions and branches can occur whatever the configuration says of data and control flow,
  so what holds of all runs holds in particular of the tool that instruments only one of them.
\<close>

fun possible :: "event \<Rightarrow> bool" where
  "possible (Instruction ins x) = writes_ok x"
| "possible (Mark rnd addr sz m) = (0 \<le> rnd \<and> -1 \<le> m)"
| "possible _ = True"

inductive tool_step :: "config \<Rightarrow> event \<Rightarrow> config \<Rightarrow> bool" where
  step: "possible e \<Longrightarrow> happen e c = Inr c' \<Longrightarrow> tool_step c e c'"

inductive_cases tool_stepE: "tool_step c e c'"

inductive_simps tool_step_iff: "tool_step c e c'"

inductive tool_run :: "config \<Rightarrow> event list \<Rightarrow> config \<Rightarrow> bool" where
  run_Nil: "tool_run c [] c"
| run_snoc: "tool_run c es c' \<Longrightarrow> tool_step c' e c'' \<Longrightarrow> tool_run c (es @ [e]) c''"

section \<open>The invariant of the engine and its generator\<close>

definition engine_ok :: "dytan \<Rightarrow> bool" where
  "engine_ok st \<longleftrightarrow> state_ok st \<and>
     (\<forall>g. taintGen st = Some g \<longrightarrow> gen_ok (NUMBER_OF_TAINT_MARKS st) g)"

text \<open>A step of the engine that keeps the number of marks, the generator and the invariant.\<close>

definition same_marks :: "dytan \<Rightarrow> dytan \<Rightarrow> bool" where
  "same_marks st st' \<longleftrightarrow>
     NUMBER_OF_TAINT_MARKS st' = NUMBER_OF_TAINT_MARKS st \<and> taintGen st' = taintGen st"

lemma same_marks_refl [simp]: "same_marks st st"
  by (simp add: same_marks_def)

lemma same_marks_trans: "same_marks a b \<Longrightarrow> same_marks b c \<Longrightarrow> same_marks a c"
  by (simp add: same_marks_def)

lemma same_marks_fold:
  assumes "\<And>x s s'. f x s = Inr s' \<Longrightarrow> same_marks s s'" "fold_res f xs st = Inr st'"
  shows "same_marks st st'"
  using assms(2)
proof (induction xs arbitrary: st)
  case (Cons x xs)
  then obtain s1 where "f x st = Inr s1" "fold_res f xs s1 = Inr st'"
    by (auto simp: res_simps)
  with Cons.IH assms(1) show ?case by (blast intro: same_marks_trans)
qed simp

lemma assign_reg_same: "assign_reg tmp r st = Inr st' \<Longrightarrow> same_marks st st'"
  by (auto simp: assign_reg_def res_simps same_marks_def)

lemma assign_byte_same: "assign_byte tmp a st = Inr st' \<Longrightarrow> same_marks st st'"
  by (auto simp: assign_byte_def res_simps same_marks_def)

lemma clear_byte_same: "clear_byte tmp a st = Inr st' \<Longrightarrow> same_marks st st'"
  by (auto simp: clear_byte_def res_simps same_marks_def split: option.splits)

lemma assign_regs_same: "fold_res (assign_reg tmp) rs st = Inr st' \<Longrightarrow> same_marks st st'"
  by (rule same_marks_fold [OF assign_reg_same])

lemma assign_bytes_same: "fold_res (assign_byte tmp) xs st = Inr st' \<Longrightarrow> same_marks st st'"
  by (rule same_marks_fold [OF assign_byte_same])

lemma clear_bytes_same: "fold_res (clear_byte tmp) xs st = Inr st' \<Longrightarrow> same_marks st st'"
  by (rule same_marks_fold [OF clear_byte_same])

lemma SetTaintForRegister_same:
  assumes "SetTaintForRegister r args st = Inr st'"
  shows "same_marks st st'"
proof (cases "r = REG_ESP \<or> r = REG_EBP")
  case True
  then show ?thesis using assms by (auto simp: SetTaintForRegister_def)
next
  case False
  define parts where "parts = (if REG_R15D = r then [REG_R15W, REG_R15B] else [])"
  define subs where "subs = (if REG_EAX = r then [REG_AX, REG_AH, REG_AL]
    else if REG_EBX = r then [REG_BX, REG_BH, REG_BL]
    else if REG_ECX = r then [REG_CX, REG_CH, REG_CL]
    else if REG_EDX = r then [REG_DX, REG_DH, REG_DL] else [])"
  have "\<exists>tmp st1 st2. fold_res (assign_reg tmp) parts st = Inr st1 \<and>
      fold_res (assign_reg tmp) subs st1 = Inr st2 \<and> assign_reg tmp r st2 = Inr st'"
    using assms False
    by (auto simp: SetTaintForRegister_def parts_def subs_def and_then_Inr_iff
        simp del: fold_res.simps(2) split: if_splits)
  then show ?thesis by (meson assign_reg_same assign_regs_same same_marks_trans)
qed

lemma ClearTaintForRegister_same: "ClearTaintForRegister r st = Inr st' \<Longrightarrow> same_marks st st'"
  by (auto simp: ClearTaintForRegister_def res_simps same_marks_def split: option.splits)

lemma ClearTaintForMemory_same: "ClearTaintForMemory start sz st = Inr st' \<Longrightarrow> same_marks st st'"
  by (auto simp: ClearTaintForMemory_def res_simps dest: clear_bytes_same)

lemma SetTaintForMemory_same:
  assumes "SetTaintForMemory start sz args st = Inr st'"
  shows "same_marks st st'"
proof -
  obtain tmp tags where "fold_res (assign_byte tmp) (addr_range start sz)
      ((init_tags st)\<lparr>tagMemoryMap := tags\<rparr>) = Inr st'"
    using assms by (auto simp: SetTaintForMemory_def res_simps Let_def)
  then have "same_marks ((init_tags st)\<lparr>tagMemoryMap := tags\<rparr>) st'"
    by (rule assign_bytes_same)
  then show ?thesis by (simp add: same_marks_def init_tags_def split: if_splits)
qed

lemma run_call_same: "run_call x c st = Inr st' \<Longrightarrow> same_marks st st'"
proof (induction c)
  case (If_Then b k)
  then show ?case by (auto split: if_splits)
qed (auto simp: res_simps set_slot_def same_marks_def [of _ "slots_update _ _"]
    intro: SetTaintForRegister_same SetTaintForMemory_same ClearTaintForRegister_same
      ClearTaintForMemory_same)

lemma run_calls_same: "run_calls x cs st = Inr st' \<Longrightarrow> same_marks st st'"
  unfolding run_calls_def by (rule same_marks_fold [of "run_call x"]) (rule run_call_same)

lemma PushControl_same: "PushControl a st = Inr st' \<Longrightarrow> same_marks st st'"
  by (auto simp: PushControl_def res_simps Let_def same_marks_def split: option.splits if_splits)

lemma PopControl_same: "same_marks st (PopControl addrs st)"
  by (induction addrs st rule: PopControl.induct)
    (auto simp: same_marks_def split: option.split)

lemma engine_ok_same:
  "engine_ok st \<Longrightarrow> same_marks st st' \<Longrightarrow> state_ok st' \<Longrightarrow> engine_ok st'"
  by (simp add: engine_ok_def same_marks_def)
section \<open>Sources keep the invariant\<close>

lemma next_tag_Inr:
  assumes "engine_ok st" "0 \<le> rnd" "next_tag rnd st = Inr (t, st1)"
  shows "engine_ok st1 \<and> fresh_set st1 = fresh_set st \<and>
    NUMBER_OF_TAINT_MARKS st1 = NUMBER_OF_TAINT_MARKS st"
proof -
  obtain g where g: "taintGen st = Some g"
    using assms(3) by (auto simp: next_tag_def split: option.splits)
  then have ok: "gen_ok (NUMBER_OF_TAINT_MARKS st) g" "state_ok st"
    using assms(1) by (simp_all add: engine_ok_def)
  then obtain g' where "st1 = st\<lparr>taintGen := Some g'\<rparr>" "gen_ok (NUMBER_OF_TAINT_MARKS st) g'"
    using next_tag_cases [OF ok(1) assms(2) g] assms(3) by auto
  then show ?thesis using ok(2) by (simp add: engine_ok_def state_ok_gen)
qed

lemma put_mem_ok:
  assumes "engine_ok st" "wf_set (n_marks st) b"
  shows "engine_ok (put_mem a b st)"
  using assms state_ok_mem [of st b a] by (simp add: engine_ok_def) (simp add: put_mem_def)

lemma taint_byte_Inr:
  assumes "engine_ok st" "taint_byte t a (fresh_set st, st) = Inr (b, st')"
  shows "b = fresh_set st \<and> engine_ok st' \<and> fresh_set st' = fresh_set st"
proof -
  have f: "wf_set (n_marks st) (fresh_set st)"
    using fresh_set_ok assms(1) by (simp add: engine_ok_def)
  then have ok: "bitset_ok (fresh_set st)" "nbits (fresh_set st) = n_marks st"
    by (simp_all add: wf_set_def)
  have lt: "word_of_int t < nbits (fresh_set st)"
  proof (rule ccontr)
    assume "\<not> ?thesis"
    then show False using assms(2) by (simp add: taint_byte_def bit_op_out_of_range)
  qed
  obtain c where c: "bitset_set_bit (fresh_set st) (word_of_int t) = Inr c" "wf_set (n_marks st) c"
    using bitset_set_bit_ok [OF ok(1) lt] ok(2) by (auto simp: wf_set_def)
  then have "b = fresh_set st" "st' = put_mem a c st"
    using assms(2) wf_set_copy [OF c(2)] wf_set_reset [OF c(2)]
    by (auto simp: taint_byte_def fresh_set_def)
  with put_mem_ok [OF assms(1) c(2)] show ?thesis by simp
qed

text \<open>A path callback keeps the invariant when it returns.\<close>

definition source_keeps :: "source path_callback \<Rightarrow> bool" where
  "source_keeps cb \<longleftrightarrow> (\<forall>p args src src'. engine_ok (engine src) \<longrightarrow>
     cb p args src = Inr src' \<longrightarrow> engine_ok (engine src'))"

lemma fold_keeps:
  assumes "\<And>x s s'. P s \<Longrightarrow> f x s = Inr s' \<Longrightarrow> P s'" "P s" "fold_res f xs s = Inr s'"
  shows "P s'"
  using assms(2,3)
proof (induction xs arbitrary: s)
  case (Cons x xs)
  then obtain s1 where "f x s = Inr s1" "fold_res f xs s1 = Inr s'" by (auto simp: res_simps)
  with Cons.IH assms(1) Cons.prems(1) show ?case by blast
qed simp

lemma byte_body_parts:
  assumes "\<And>a :: addrint. 0 \<le> rnd a" "engine_ok st" "next_tag (rnd x) st = Inr (t, st1)"
    "taint_byte t x (fresh_set st, st1) = Inr (b, st')"
  shows "engine_ok st' \<and> b = fresh_set st'"
  using next_tag_Inr [OF assms(2,1,3)] taint_byte_Inr [of st1 t x b st'] assms(4) by simp

lemma byte_loop_keeps:
  assumes "\<And>a. 0 \<le> rnd a" "engine_ok st"
    and "fold_res (byte_body rnd) xs (fresh_set st, st) = Inr (b, st')"
  shows "engine_ok st'"
proof -
  let ?P = "\<lambda>(b, st). engine_ok st \<and> b = fresh_set st"
  have body: "?P s'" if "?P s" "byte_body rnd x s = Inr s'" for x s s'
    using that by (auto simp: byte_body_def res_simps dest: byte_body_parts [OF assms(1)])
  have "?P (b, st')" by (rule fold_keeps [of ?P, OF body _ assms(3)]) (simp_all add: assms(2))
  then show ?thesis by simp
qed

lemma PerByte_keeps:
  assumes "\<And>a. 0 \<le> rnd a"
  shows "source_keeps (pathSourceReadCallbackPerByte rnd)"
  using byte_loop_keeps [OF assms]
  by (fastforce simp: source_keeps_def pathSourceReadCallbackPerByte_def and_then_Inr_iff split: if_splits)

lemma put_loop_keeps:
  assumes "engine_ok st" "wf_set (n_marks st) b"
    and "fold_res (\<lambda>addr st. and_then (bitset_copy b) (\<lambda>c. Inr (put_mem addr c st))) xs st = Inr st'"
  shows "engine_ok st' \<and> NUMBER_OF_TAINT_MARKS st' = NUMBER_OF_TAINT_MARKS st"
proof -
  let ?P = "\<lambda>s. engine_ok s \<and> NUMBER_OF_TAINT_MARKS s = NUMBER_OF_TAINT_MARKS st"
  have "?P s'" if s: "?P s"
    and f: "and_then (bitset_copy b) (\<lambda>c. Inr (put_mem x c s)) = Inr s'" for x s s'
  proof -
    have "n_marks s = n_marks st" using s by (simp add: n_marks_def)
    then have "s' = put_mem x b s" "wf_set (n_marks s) b"
      using f wf_set_copy [OF assms(2)] assms(2) by simp_all
    with s put_mem_ok [of s b x] show ?thesis by simp
  qed
  from fold_keeps [of ?P, OF this _ assms(3)] assms(1) show ?thesis by simp
qed

lemma set_bit_fresh_ok:
  assumes "engine_ok st" "bitset_set_bit (fresh_set st) p = Inr b"
  shows "wf_set (n_marks st) b"
proof -
  have ok: "bitset_ok (fresh_set st)" "nbits (fresh_set st) = n_marks st"
    using fresh_set_ok assms(1) by (simp_all add: engine_ok_def wf_set_def)
  have "p < nbits (fresh_set st)"
    using assms(2) bit_op_out_of_range(2) [of p "fresh_set st"] by fastforce
  from bitset_set_bit_ok [OF ok(1) this] assms(2) ok(2) show ?thesis by (auto simp: wf_set_def)
qed

lemma read_loop_keeps:
  assumes "0 \<le> r" "engine_ok st0" "next_tag r st0 = Inr (t, st)"
    and "bitset_set_bit (fresh_set st) (word_of_int t) = Inr b"
    and "fold_res (\<lambda>addr st. and_then (bitset_copy b) (\<lambda>c. Inr (put_mem addr c st))) xs st = Inr st'"
  shows "engine_ok st'"
proof -
  have st: "engine_ok st" using next_tag_Inr [OF assms(2,1,3)] by simp
  show ?thesis using put_loop_keeps [OF st set_bit_fresh_ok [OF st assms(4)] assms(5)] by simp
qed

lemma PerRead_keeps:
  assumes "\<And>a. 0 \<le> rnd a"
  shows "source_keeps (pathSourceReadCallbackPerRead rnd)"
  using read_loop_keeps [OF assms]
  by (fastforce simp: source_keeps_def pathSourceReadCallbackPerRead_def and_then_Inr_iff split: if_splits)

lemma offset_body_keeps:
  assumes "\<And>a. 0 \<le> rnd a" "engine_ok (lstate l)" "lset l = fresh_set (lstate l)"
    and "offset_body rnd ss es a l = Inr l'"
  shows "engine_ok (lstate l') \<and> lset l' = fresh_set (lstate l')"
proof (cases "lstate l' = lstate l \<and> lset l' = lset l")
  case False
  define i where "i = lindex l"
  obtain c where c: "int_add (lcount l) 1 = Inr c"
    using assms(4) by (auto simp: offset_body_def and_then_Inr_iff)
  have rng: "i < length ss \<and> i < length es" "\<not> (c < ss ! i \<or> c > es ! i)"
    using assms(4) False c by (auto simp: offset_body_def Let_def i_def split: if_splits)
  define fl where "fl = (if c = ss ! i then True else lflag l)"
  have "and_then (if fl then next_tag (rnd a) (lstate l) else Inr (ltag l, lstate l))
      (\<lambda>(t, st). and_then (taint_byte t a (lset l, st)) (\<lambda>(b, st).
        Inr (l\<lparr>lcount := c, lflag := False, lindex := if c = es ! i then i + 1 else i,
               ltag := t, lset := b, lstate := st\<rparr>))) = Inr l'"
    using assms(4) c rng
    by (simp only: offset_body_def Let_def i_def [symmetric] fl_def [symmetric] and_then.simps
        simp_thms if_True if_False)
  then obtain t st b st' where
    t: "(if fl then next_tag (rnd a) (lstate l) else Inr (ltag l, lstate l)) = Inr (t, st)"
    and b: "taint_byte t a (lset l, st) = Inr (b, st')" "lset l' = b" "lstate l' = st'"
    by (auto simp: and_then_Inr_iff split: prod.splits)
  have "engine_ok st \<and> fresh_set st = fresh_set (lstate l)"
    using t next_tag_Inr [OF assms(2,1)] assms(2) by (auto split: if_splits)
  then show ?thesis using taint_byte_Inr [of st t a b st'] b assms(3) by simp
qed (use assms in simp)
lemma PerOffset_keeps:
  assumes "\<And>a. 0 \<le> rnd a"
  shows "source_keeps (pathSourceReadCallbackPerOffset rnd)"
  unfolding source_keeps_def
proof (intro allI impI)
  fix p args src src'
  let ?P = "\<lambda>l. engine_ok (lstate l) \<and> lset l = fresh_set (lstate l)"
  assume ok: "engine_ok (engine src)"
    and run: "pathSourceReadCallbackPerOffset rnd p args src = Inr src'"
  show "engine_ok (engine src')"
  proof (cases "c_int (ret args) \<le> 0")
    case False
    then obtain l where loop: "fold_res (offset_body rnd (datFile_start src) (datFile_end src))
        (read_range args) \<lparr>lcount = offset_count src, lflag = False, lindex = 0, ltag = -1,
          lset = fresh_set (engine src), lstate = engine src\<rparr> = Inr l" "engine src' = lstate l"
      using run by (auto simp: pathSourceReadCallbackPerOffset_def and_then_Inr_iff split: if_splits)
    have "?P l"
    proof (rule fold_keeps [of ?P, OF _ _ loop(1)])
      show "?P s'" if "?P s" "offset_body rnd (datFile_start src) (datFile_end src) x s = Inr s'"
        for x s s'
        using that assms by (intro offset_body_keeps [of rnd s]) auto
    qed (simp add: ok)
    then show ?thesis using loop(2) by simp
  qed (use ok run in \<open>simp add: pathSourceReadCallbackPerOffset_def\<close>)
qed

lemma path_callback_keeps:
  "(\<And>a. 0 \<le> rnd a) \<Longrightarrow> source_keeps (path_callback_for rnd t)"
  by (cases t) (simp_all add: PerByte_keeps PerRead_keeps PerOffset_keeps)

lemma default_keeps: "source_keeps pathSourceReadDefault"
  by (simp add: source_keeps_def pathSourceReadDefault_def)

section \<open>The invariant of the tool\<close>

text \<open>The same for network callbacks.\<close>

definition net_source_keeps :: "source network_callback \<Rightarrow> bool" where
  "net_source_keeps cb \<longleftrightarrow> (\<forall>a b len src src'. engine_ok (engine src) \<longrightarrow>
     cb a b len src = Inr src' \<longrightarrow> engine_ok (engine src'))"

lemma network_callback_keeps:
  assumes "\<And>a. 0 \<le> rnd a" "network_callback_for rnd t = Inr cb"
  shows "net_source_keeps cb"
proof (cases t)
  case PerByte
  then show ?thesis using assms(2) byte_loop_keeps [OF assms(1)]
    by (fastforce simp: net_source_keeps_def networkReadCallbackPerByte_def and_then_Inr_iff split: if_splits)
next
  case PerRead
  then show ?thesis using assms(2) read_loop_keeps [OF assms(1)]
    by (fastforce simp: net_source_keeps_def networkReadCallbackPerRead_def and_then_Inr_iff split: if_splits)
qed (use assms(2) in simp)

text \<open>Every registered callback keeps the invariant when it returns.\<close>

definition network_keeps :: "source network_monitor \<Rightarrow> bool" where
  "network_keeps nm \<longleftrightarrow>
     (\<forall>(a, cbs) \<in> set (addressObservers nm). \<forall>cb \<in> set cbs. net_source_keeps cb)"

definition monitor_keeps :: "source path_monitor \<Rightarrow> bool" where
  "monitor_keeps pm \<longleftrightarrow>
     (\<forall>p. \<forall>cb \<in> set (callbacks (pathObservers pm) p). source_keeps cb) \<and>
     (\<forall>cb. allObserver pm = Some cb \<longrightarrow> source_keeps cb) \<and>
     (\<forall>cb. pathDefaultObserver pm = Some cb \<longrightarrow> source_keeps cb)"

definition tool_ok :: "tool \<Rightarrow> bool" where
  "tool_ok s \<longleftrightarrow> engine_ok (engine (source_state s)) \<and>
     (\<forall>pm \<in> set (path_monitors s). monitor_keeps pm) \<and>
     (\<forall>nm \<in> set (network_monitors s). network_keeps nm)"

definition callback_keeps :: "tool syscall_callback \<Rightarrow> bool" where
  "callback_keeps cb \<longleftrightarrow> (\<forall>n args s s'. tool_ok s \<longrightarrow> cb n args s = Inr s' \<longrightarrow> tool_ok s')"

fun config_ok :: "config \<Rightarrow> bool" where
  "config_ok (m, s) \<longleftrightarrow> tool_ok s \<and>
     (\<forall>n. \<forall>cb \<in> set (callbacks (observers m) n). callback_keeps cb) \<and>
     (\<forall>cb. defaultObserver m = Some (Some cb) \<longrightarrow> callback_keeps cb)"

lemma engine_ok_forget: "engine_ok st \<Longrightarrow> engine_ok (forget A st)"
  by (simp add: engine_ok_def state_ok_forget)

lemma observers_keep:
  "(n, cb) \<in> set (main_observers cstring) \<Longrightarrow> tool_ok s \<Longrightarrow> cb n args s = Inr s' \<Longrightarrow> tool_ok s'"
  using observer_effect [of n cb cstring args s]
  by (auto simp: tool_ok_def after_call_def with_engine_def engine_ok_forget)

text \<open>A callback of \<open>main\<close> keeps the invariant whatever number it is called with.\<close>

lemma callback_number:
  "(n, cb) \<in> set (main_observers cstring) \<Longrightarrow> cb k args s = cb n args s"
proof -
  have "list_all (\<lambda>(n, cb). cb k args s = cb n args s) (main_observers cstring)"
    unfolding main_observers_def list.pred_inject prod.case
    by (intro conjI TrueI)
      (simp_all add: silent_callbacks clearing_callbacks Handle_DUP_def Handle_OPEN_def)
  then show "(n, cb) \<in> set (main_observers cstring) \<Longrightarrow> ?thesis" by (auto simp: list_all_iff)
qed

lemma main_observers_keep: "(n, cb) \<in> set (main_observers cstring) \<Longrightarrow> callback_keeps cb"
  unfolding callback_keeps_def using observers_keep callback_number by metis

lemma monitor_keeps_descriptors:
  "monitor_keeps (openCallback cstring args pm) = monitor_keeps pm"
  "monitor_keeps (closeCallback args pm) = monitor_keeps pm"
  by (simp_all add: monitor_keeps_def openCallback_def closeCallback_def
      addActiveFileDescriptor_def removeActiveFileDescriptor_def)

lemma notifyForRead_keeps:
  assumes "monitor_keeps pm" "engine_ok (engine src)" "notifyForRead pm args src = Inr src'"
  shows "engine_ok (engine src')"
proof -
  have cb: "engine_ok (engine s')" if "source_keeps cb" "cb p args s = Inr s'" "engine_ok (engine s)"
    for cb p s s' using that by (auto simp: source_keeps_def)
  have loop: "engine_ok (engine s')" if "fold_res (\<lambda>cb. cb p args) cbs s = Inr s'"
    "\<forall>cb \<in> set cbs. source_keeps cb" "engine_ok (engine s)" for cbs p s s'
    using that
  proof (induction cbs arbitrary: s)
    case (Cons c cs)
    then show ?case using cb by (auto simp: and_then_Inr_iff)
  qed simp
  show ?thesis
  proof (cases "activeFileDescriptors pm (c_int (arg0 args))")
    case None
    then show ?thesis using assms(2,3) by (simp add: notifyForRead_def)
  next
    case (Some p)
    show ?thesis
    proof (cases "pathObservers pm p")
      case None
      then show ?thesis
        using assms Some cb [where p = p]
        by (auto simp: notifyForRead_def monitor_keeps_def split: option.splits if_splits)
    next
      case c: (Some cbs)
      have "\<forall>cb \<in> set (callbacks (pathObservers pm) p). source_keeps cb"
        using assms(1) by (simp add: monitor_keeps_def)
      then have "\<forall>cb \<in> set cbs. source_keeps cb" by (simp add: callbacks_def c)
      then show ?thesis
        using loop [OF _ _ assms(2)] assms(3) Some c by (auto simp: notifyForRead_def)
    qed
  qed
qed
lemma tool_ok_monitor:
  "tool_ok s \<Longrightarrow> monitor_keeps pm \<Longrightarrow> tool_ok (s\<lparr>path_monitors := (path_monitors s)[i := pm]\<rparr>)"
  using set_update_subset_insert [of "path_monitors s" i pm] by (auto simp: tool_ok_def)

lemma path_callbacks_keep:
  "callback_keeps (path_open cstring i)" "callback_keeps (path_close i)" "callback_keeps (path_read i)"
proof -
  have nth: "monitor_keeps (path_monitors s ! i)" if "tool_ok s" "i < length (path_monitors s)" for s
    using that by (simp add: tool_ok_def)
  show "callback_keeps (path_open cstring i)" "callback_keeps (path_close i)"
    using nth tool_ok_monitor
    by (auto simp: callback_keeps_def path_open_def path_close_def monitor_keeps_descriptors
        split: if_splits)
  show "callback_keeps (path_read i)"
    unfolding callback_keeps_def
  proof (intro allI impI)
    fix n args s s'
    assume s: "tool_ok s" and run: "path_read i n args s = Inr s'"
    then obtain src where i: "i < length (path_monitors s)" and
      src: "readCallback args (path_monitors s ! i) (source_state s) = Inr src"
      "s' = s\<lparr>source_state := src\<rparr>"
      by (auto simp: path_read_def and_then_Inr_iff split: if_splits)
    then have "engine_ok (engine src)"
      using notifyForRead_keeps [OF nth [OF s i]] s
      by (auto simp: readCallback_def tool_ok_def split: if_splits)
    then show "tool_ok s'" using s src(2) by (simp add: tool_ok_def)
  qed
qed

lemma net_notifyForRead_keeps:
  assumes "network_keeps nm" "engine_ok (engine src)" "net_notifyForRead nm a b len src = Inr src'"
  shows "engine_ok (engine src')"
proof -
  obtain cbs where m: "map_of (addressObservers nm) a = Some cbs"
    and loop: "fold_res (\<lambda>cb. cb a b len) cbs src = Inr src'"
    using assms(3) by (auto simp: net_notifyForRead_def net_find_def and_then_Inr_iff split: option.splits if_splits)
  have "\<forall>cb \<in> set cbs. net_source_keeps cb"
    using map_of_SomeD [OF m] assms(1) by (auto simp: network_keeps_def)
  then show ?thesis using loop assms(2)
  proof (induction cbs arbitrary: src)
    case (Cons c cs)
    then obtain src1 where s1: "c a b len src = Inr src1" "fold_res (\<lambda>cb. cb a b len) cs src1 = Inr src'"
      by (auto simp: and_then_Inr_iff)
    have "net_source_keeps c" using Cons.prems(1) by simp
    then have "engine_ok (engine src1)" using s1(1) Cons.prems(3) unfolding net_source_keeps_def by blast
    with Cons.IH [OF _ s1(2)] Cons.prems(1) show ?case by simp
  qed simp
qed

lemma network_callbacks_keep: "callback_keeps (network_close i)" "callback_keeps (network_read i)"
proof -
  have nth: "network_keeps (network_monitors s ! i)" if "tool_ok s" "i < length (network_monitors s)" for s
    using that by (simp add: tool_ok_def)
  have "network_keeps (closeNetworkCallback args nm) = network_keeps nm" for args and nm :: "source network_monitor"
    by (simp add: closeNetworkCallback_def network_keeps_def)
  then show "callback_keeps (network_close i)"
    using set_update_subset_insert [where i = i]
    by (fastforce simp: callback_keeps_def network_close_def tool_ok_def split: if_splits)
  show "callback_keeps (network_read i)"
    unfolding callback_keeps_def
  proof (intro allI impI)
    fix n args s s'
    assume s: "tool_ok s" and run: "network_read i n args s = Inr s'"
    then obtain src where i: "i < length (network_monitors s)" and
      src: "readNetworkCallback args (network_monitors s ! i) (source_state s) = Inr src"
      "s' = s\<lparr>source_state := src\<rparr>"
      by (auto simp: network_read_def and_then_Inr_iff split: if_splits)
    then have "engine_ok (engine src)"
      using net_notifyForRead_keeps [OF nth [OF s i]] s
      by (auto simp: readNetworkCallback_def tool_ok_def split: if_splits option.splits)
    then show "tool_ok s'" using s src(2) by (simp add: tool_ok_def)
  qed
qed

lemma PushControl_keeps:
  assumes "state_ok st" "PushControl a st = Inr st'"
  shows "state_ok st'"
  using PushControl_ok [OF assms(1), of a] assms(2) by auto

lemma engine_step_ok:
  assumes "config_ok c" "on_engine f c = Inr c'"
    and "\<And>st st'. engine_ok st \<Longrightarrow> f st = Inr st' \<Longrightarrow> engine_ok st'"
  shows "config_ok c'"
proof -
  obtain m s where c: "c = (m, s)" by (cases c)
  then obtain st where st: "f (engine (source_state s)) = Inr st" "c' = (m, with_engine (\<lambda>_. st) s)"
    using assms(2) by (auto simp: on_engine_def and_then_Inr_iff)
  moreover from c assms(1) have "engine_ok (engine (source_state s))" by (simp add: tool_ok_def)
  ultimately have "engine_ok st" using assms(3) by blast
  with assms(1) c st(2) show ?thesis by (simp add: tool_ok_def)
qed

lemma config_ok_Enter: "config_ok c \<Longrightarrow> config_ok (SysBefore tid ctxt (fst c), snd c)"
  by (cases c) simp

lemma config_ok_Leave:
  assumes "config_ok c" "SysAfter tid ctxt c = Inr c'"
  shows "config_ok c'"
proof -
  obtain m s where c: "c = (m, s)" by (cases c)
  let ?args = "(pending m tid)\<lparr>ret := PIN_GetSyscallReturn ctxt, err := PIN_GetSyscallErrno ctxt\<rparr>"
  let ?n = "c_int (num ?args)"
  let ?m = "m\<lparr>pendingSyscalls := (pendingSyscalls m)(tid \<mapsto> pending m tid)\<rparr>"
  have cb: "tool_ok s2" if "callback_keeps cb" "tool_ok s1" "cb ?n ?args s1 = Inr s2" for cb s1 s2
    using that by (auto simp: callback_keeps_def)
  have loop: "tool_ok s2" if "\<forall>cb \<in> set cbs. callback_keeps cb" "tool_ok s1"
      "fold_res (\<lambda>cb. cb ?n ?args) cbs s1 = Inr s2" for cbs s1 s2
    using that
  proof (induction cbs arbitrary: s1)
    case (Cons k cbs)
    then show ?case using cb by (auto simp: and_then_Inr_iff)
  qed simp
  have s: "tool_ok s" using assms(1) c by simp
  obtain s' where c': "c' = (?m, s')"
    and run: "(case observers m ?n of
          Some cbs \<Rightarrow> fold_res (\<lambda>cb. cb ?n ?args) cbs s
        | None \<Rightarrow> (case defaultObserver m of
              None \<Rightarrow> Inl Uninitialised_Read
            | Some None \<Rightarrow> Inr s
            | Some (Some cb) \<Rightarrow> cb ?n ?args s)) = Inr s'"
    using assms(2) by (auto simp: SysAfter_def endSyscall_def Let_def c and_then_Inr_iff)
  have "tool_ok s'"
  proof (cases "observers m ?n")
    case None
    then show ?thesis using run assms(1) c cb s by (auto split: option.splits)
  next
    case (Some cbs)
    then have "\<forall>cb \<in> set cbs. callback_keeps cb"
      using assms(1) c by (auto simp: callbacks_def dest: spec [of _ ?n])
    from loop [OF this s] show ?thesis using run Some by simp
  qed
  then show ?thesis using assms(1) c c' by simp
qed
section \<open>The invariant holds in every run\<close>

declare config_ok.simps [simp del]

lemma Mark_keeps:
  assumes "engine_ok st" "0 \<le> rnd" "-1 \<le> m" "SetNewTaintForMemory rnd addr sz m st = Inr st'"
  shows "engine_ok st'"
proof -
  obtain k st1 tmp where k: "new_mark rnd m st = Inr (k, st1)"
    and tmp: "bitset_set_bit (fresh_set st1) (word_of_int k) = Inr tmp"
    and loop: "fold_res (\<lambda>address st. and_then (bitset_copy tmp) (\<lambda>s.
        Inr (st\<lparr>memTaintMap := (memTaintMap st)(address \<mapsto> s)\<rparr>))) (addr_range addr sz) st1 = Inr st'"
    using assms(4) by (auto simp: SetNewTaintForMemory_def and_then_Inr_iff)
  have pre: "state_ok st" "\<And>g. taintGen st = Some g \<Longrightarrow> gen_ok (NUMBER_OF_TAINT_MARKS st) g"
    using assms(1) by (simp_all add: engine_ok_def)
  have "m < NUMBER_OF_TAINT_MARKS st"
    using k pre(1) assms(3) by (auto simp: new_mark_def state_ok_def split: if_splits)
  moreover have "m = -1 \<Longrightarrow> taintGen st \<noteq> None" using k by (auto simp: new_mark_def split: option.splits)
  ultimately have "engine_ok st1"
    using new_mark_cases [OF pre(1) assms(2,3) _ pre(2)] k pre(1)
    by (auto simp: engine_ok_def state_ok_gen)
  from put_loop_keeps [OF this set_bit_fresh_ok [OF this tmp]] loop show ?thesis
    by (simp add: put_mem_def)
qed

lemma happen_keeps:
  assumes "config_ok c" "possible e" "happen e c = Inr c'"
  shows "config_ok c'"
proof (cases e)
  case (Instruction ins x)
  then obtain cs where "on_engine (run_calls x cs) c = Inr c'"
    using assms(3) by (auto simp: and_then_Inr_iff)
  moreover have "engine_ok st'" if "engine_ok st" "run_calls x cs st = Inr st'" for st st'
    using run_calls_ok [of x st cs] run_calls_same [OF that(2)] that assms(2) Instruction
    by (auto simp: engine_ok_def same_marks_def)
  ultimately show ?thesis using engine_step_ok [OF assms(1)] by blast
next
  case (Branch addr)
  moreover have "engine_ok st'" if "engine_ok st" "PushControl addr st = Inr st'" for st st'
    using that PushControl_keeps PushControl_same engine_ok_same engine_ok_def by blast
  ultimately show ?thesis using engine_step_ok [OF assms(1)] assms(3) by auto
next
  case (Meet addrs)
  moreover have "engine_ok (PopControl addrs st)" if "engine_ok st" for st
    using that PopControl_same engine_ok_same PopControl_ok engine_ok_def by blast
  ultimately show ?thesis
    using engine_step_ok [OF assms(1), of "\<lambda>st. Inr (PopControl addrs st)" c'] assms(3) by auto
next
  case (Mark rnd addr sz m)
  then show ?thesis
    using engine_step_ok [OF assms(1), of "SetNewTaintForMemory rnd addr sz m" c'] assms(2,3)
      Mark_keeps [of _ rnd m addr sz] by simp
next
  case (Enter tid ctxt)
  then show ?thesis using config_ok_Enter [OF assms(1)] assms(3) by auto
next
  case (Leave tid ctxt)
  then show ?thesis using config_ok_Leave [OF assms(1)] assms(3) by auto
qed

lemma tool_run_keeps: "tool_run c es c' \<Longrightarrow> config_ok c \<Longrightarrow> config_ok c'"
  by (induction rule: tool_run.induct) (auto simp: happen_keeps elim!: tool_stepE)

text \<open>Instructions that the tool can instrument, branches and meeting points never stop it.\<close>

lemma on_engine_ok:
  assumes "config_ok c" "\<And>st. engine_ok st \<Longrightarrow> \<exists>st'. f st = Inr st'"
  shows "\<exists>c'. on_engine f c = Inr c'"
proof -
  obtain m s where c: "c = (m, s)" by (cases c)
  with assms(1) have "engine_ok (engine (source_state s))" by (simp add: config_ok.simps tool_ok_def)
  with assms(2) obtain st' where "f (engine (source_state s)) = Inr st'" by blast
  with c show ?thesis by (simp add: on_engine_def)
qed

lemma config_progress:
  assumes "config_ok c"
  shows "writes_ok x \<Longrightarrow> Dataflow ins = Inr cs \<Longrightarrow> \<exists>c'. tool_step c (Instruction ins x) c'"
    and "\<exists>c'. tool_step c (Branch addr) c'"
    and "\<exists>c'. tool_step c (Meet addrs) c'"
    and "\<exists>c'. tool_step c (Enter tid ctxt) c'"
proof -
  have run: "\<exists>st'. run_calls x cs st = Inr st'" if "writes_ok x" "engine_ok st" for x cs st
    using run_calls_ok [of x st cs] that by (auto simp: engine_ok_def)
  have push: "\<exists>st'. PushControl addr st = Inr st'" if "engine_ok st" for st :: dytan
    using PushControl_ok [of st addr] that by (auto simp: engine_ok_def)
  show "\<exists>c'. tool_step c (Instruction ins x) c'" if "writes_ok x" "Dataflow ins = Inr cs"
    using on_engine_ok [OF assms run [OF that(1)]] that by (simp add: tool_step_iff)
  show "\<exists>c'. tool_step c (Branch addr) c'"
    using on_engine_ok [OF assms push] by (simp add: tool_step_iff)
  show "\<exists>c'. tool_step c (Meet addrs) c'"
    using on_engine_ok [OF assms, of "\<lambda>st. Inr (PopControl addrs st)"] by (simp add: tool_step_iff)
  show "\<exists>c'. tool_step c (Enter tid ctxt) c'" by (cases c) (simp add: tool_step_iff)
qed

section \<open>Marks come from sources only\<close>

definition all_marks :: "taint \<Rightarrow> nat set" where
  "all_marks a =
     (\<Union>r. marks_of (regs a r)) \<union> (\<Union>x. marks_of (mem a x)) \<union> control_marks a \<union> (\<Union>s. tmps a s)"

lemma all_marks_leI:
  assumes "\<And>r. marks_of (regs a r) \<subseteq> M" "\<And>x. marks_of (mem a x) \<subseteq> M"
    and "control_marks a \<subseteq> M" "\<And>s. tmps a s \<subseteq> M"
  shows "all_marks a \<subseteq> M"
  using assms unfolding all_marks_def by blast

lemma all_marks_parts:
  "marks_of (regs a r) \<subseteq> all_marks a" "marks_of (mem a x) \<subseteq> all_marks a"
  "control_marks a \<subseteq> all_marks a" "tmps a s \<subseteq> all_marks a"
  "mem_marks a start sz \<subseteq> all_marks a" "tmp_union a ss \<subseteq> all_marks a"
  by (auto simp: all_marks_def mem_marks_def tmp_union_def)

lemma control_marks_same:
  "control_marks (a\<lparr>regs := f\<rparr>) = control_marks a" "control_marks (a\<lparr>mem := g\<rparr>) = control_marks a"
  "control_marks (a\<lparr>tmps := h\<rparr>) = control_marks a"
  by (simp_all add: control_marks_def)

lemma all_marks_flow_call: "all_marks (flow_call x c a) \<subseteq> all_marks a"
proof (induction c)
  case (If_Then b k)
  then show ?case by simp
qed (rule all_marks_leI;
  use all_marks_parts in \<open>auto simp: set_tmp_def write_reg_def write_mem_def clear_reg_def
    clear_mem_def control_marks_same dest: subsetD [OF all_marks_parts(3)]
    subsetD [OF all_marks_parts(5)] subsetD [OF all_marks_parts(6)] split: if_splits\<close>)+

lemma all_marks_flow: "all_marks (flow x cs a) \<subseteq> all_marks a"
  unfolding flow_def
proof (induction cs arbitrary: a)
  case (Cons c cs)
  show ?case using Cons [of "flow_call x c a"] all_marks_flow_call [of x c a] by simp
qed simp

lemma all_marks_ctl:
  assumes "\<And>x. marks_of (f x) \<subseteq> all_marks a"
  shows "all_marks (a\<lparr>ctl := f\<rparr>) \<subseteq> all_marks a"
  using assms by (intro all_marks_leI) (auto simp: all_marks_def control_marks_def)

lemma all_marks_ctl_entry: "marks_of (ctl a x) \<subseteq> all_marks a"
  by (auto simp: all_marks_def control_marks_def)

lemma all_marks_push: "all_marks (push_control addr a) \<subseteq> all_marks a"
  using all_marks_parts(1) [of a REG_RFLAGS]
  by (auto simp: push_control_def intro!: all_marks_ctl dest: subsetD [OF all_marks_ctl_entry]
      split: if_splits)

lemma all_marks_pop: "all_marks (pop_control addrs a) \<subseteq> all_marks a"
proof (induction addrs a rule: pop_control.induct)
  case (2 addr addrs a)
  have "all_marks (a\<lparr>ctl := (ctl a)(addr := None)\<rparr>) \<subseteq> all_marks a"
    using all_marks_ctl_entry by (intro all_marks_ctl) auto
  with 2 show ?case by auto
qed simp

lemma all_marks_forget: "all_marks (abs_state (forget A st)) \<subseteq> all_marks (abs_state st)"
  by (auto simp: all_marks_def control_marks_def forget_def marks_of_def
      split: option.splits if_splits)

definition tool_marks :: "config \<Rightarrow> nat set" where
  "tool_marks c = all_marks (abs_state (engine (source_state (snd c))))"

lemma registered_main:
  "callbacks (observers (register_main_observers cstring m)) n =
    callbacks (observers m) n @ map snd (filter (\<lambda>p. fst p = n) (main_observers cstring))"
proof -
  have "observers (fold (\<lambda>(n, cb). addObserver n cb) kcs m) =
      fold (\<lambda>(n, cb). add_callback n cb) kcs (observers m)" for kcs
    by (induction kcs arbitrary: m) (auto simp: addObserver_def)
  then show ?thesis
    using registry.registered_all [of "main_observers cstring" "observers m" n]
    by (simp add: register_main_observers_def)
qed

lemma main_callback_marks:
  assumes "(n, cb) \<in> set (main_observers cstring)" "cb n args s = Inr s'"
  shows "all_marks (abs_state (engine (source_state s'))) \<subseteq>
    all_marks (abs_state (engine (source_state s)))"
  using observer_effect [OF assms(1), of args s] assms(2) all_marks_forget
  by (auto simp: after_call_def with_engine_def)

text \<open>
  A tool without path sources: the registered callbacks are those of \<open>main\<close> and of network
  monitors, and no network monitor knows a socket.
\<close>

definition no_sockets :: "tool \<Rightarrow> bool" where
  "no_sockets s \<longleftrightarrow> (\<forall>nm \<in> set (network_monitors s). socketToAddress nm = Map.empty)"

definition quiet_callback :: "(addrint \<Rightarrow> string) \<Rightarrow> int \<Rightarrow> tool syscall_callback \<Rightarrow> bool" where
  "quiet_callback cstring n cb \<longleftrightarrow>
     (n, cb) \<in> set (main_observers cstring) \<or> (\<exists>i. cb = network_read i \<or> cb = network_close i)"

fun quiet_config :: "(addrint \<Rightarrow> string) \<Rightarrow> config \<Rightarrow> bool" where
  "quiet_config cstring (m, s) \<longleftrightarrow> no_sockets s \<and> defaultObserver m = None \<and>
     (\<forall>n. \<forall>cb \<in> set (callbacks (observers m) n). quiet_callback cstring n cb)"

lemma quiet_callback_effect:
  assumes "quiet_callback cstring n cb" "no_sockets s" "cb n args s = Inr s'"
  shows "no_sockets s' \<and> all_marks (abs_state (engine (source_state s'))) \<subseteq>
    all_marks (abs_state (engine (source_state s)))"
proof (cases "(n, cb) \<in> set (main_observers cstring)")
  case True
  then have "network_monitors s' = network_monitors s"
    using observer_effect [OF True, of args s] assms(3) by (auto simp: after_call_def with_engine_def)
  then show ?thesis using main_callback_marks [OF True assms(3)] assms(2) by (simp add: no_sockets_def)
next
  case False
  then obtain i where "cb = network_read i \<or> cb = network_close i" using assms(1) by (auto simp: quiet_callback_def)
  then show ?thesis
  proof
    assume "cb = network_read i"
    then have "s' = s" using assms(2,3)
      by (auto simp: network_read_def readNetworkCallback_def no_sockets_def split: if_splits)
    then show ?thesis using assms(2) by simp
  next
    assume "cb = network_close i"
    then have i: "i < length (network_monitors s)" "s' = s\<lparr>network_monitors := (network_monitors s)
        [i := closeNetworkCallback args (network_monitors s ! i)]\<rparr>"
      using assms(3) by (auto simp: network_close_def split: if_splits)
    moreover have "socketToAddress (closeNetworkCallback args (network_monitors s ! i)) = Map.empty"
      using assms(2) i(1) by (simp add: closeNetworkCallback_def no_sockets_def)
    ultimately show ?thesis using assms(2) set_update_subset_insert [of "network_monitors s" i]
      by (fastforce simp: no_sockets_def)
  qed
qed

lemma quiet_callbacks_effect:
  assumes "\<forall>cb \<in> set cbs. quiet_callback cstring n cb" "no_sockets s"
    and "fold_res (\<lambda>cb. cb n args) cbs s = Inr s'"
  shows "no_sockets s' \<and> all_marks (abs_state (engine (source_state s'))) \<subseteq>
    all_marks (abs_state (engine (source_state s)))"
  using assms
proof (induction cbs arbitrary: s)
  case (Cons cb cbs)
  then obtain s1 where s1: "cb n args s = Inr s1" "fold_res (\<lambda>cb. cb n args) cbs s1 = Inr s'"
    by (auto simp: and_then_Inr_iff)
  with Cons quiet_callback_effect [of cstring n cb s args s1] show ?case by auto
qed simp

lemma quiet_Leave:
  assumes "SysAfter tid ctxt c = Inr c'" "quiet_config cstring c"
  shows "quiet_config cstring c' \<and> tool_marks c' \<subseteq> tool_marks c"
proof -
  obtain m s m' s' where c: "c = (m, s)" "c' = (m', s')" by (cases c, cases c')
  let ?args = "(pending m tid)\<lparr>ret := PIN_GetSyscallReturn ctxt, err := PIN_GetSyscallErrno ctxt\<rparr>"
  let ?n = "c_int (num (pending m tid))"
  have "observers m' = observers m" "defaultObserver m' = defaultObserver m"
    and "\<exists>cbs. observers m ?n = Some cbs \<and> fold_res (\<lambda>cb. cb ?n ?args) cbs s = Inr s'"
    using assms by (auto simp: c SysAfter_def endSyscall_def Let_def and_then_Inr_iff split: option.splits)
  then obtain cbs where obs: "observers m' = observers m" "defaultObserver m' = defaultObserver m"
    "observers m ?n = Some cbs" "fold_res (\<lambda>cb. cb ?n ?args) cbs s = Inr s'" by blast
  have "\<forall>cb \<in> set (callbacks (observers m) ?n). quiet_callback cstring ?n cb"
    using assms(2) c by simp
  then have "\<forall>cb \<in> set cbs. quiet_callback cstring ?n cb" by (simp add: callbacks_def obs(3))
  from quiet_callbacks_effect [OF this _ obs(4)] assms(2) obs(1,2) show ?thesis
    by (simp add: c tool_marks_def)
qed

lemma quiet_step:
  assumes "tool_step c e c'" "quiet_config cstring c"
  shows "quiet_config cstring c'"
proof -
  obtain m s m' s' where c: "c = (m, s)" "c' = (m', s')" by (cases c, cases c')
  have run: "happen e c = Inr c'" using assms(1) by (simp add: tool_step_iff)
  show ?thesis
  proof (cases e)
    case (Leave tid ctxt)
    then show ?thesis using quiet_Leave assms(2) run by auto
  qed (use c run assms(2) in \<open>auto simp: and_then_Inr_iff on_engine_def SysBefore_def beginSyscall_def
      no_sockets_def with_engine_def\<close>)
qed

fun is_source :: "event \<Rightarrow> bool" where
  "is_source (Mark rnd addr sz m) = True"
| "is_source _ = False"

lemma engine_step_marks:
  assumes "config_ok c" "on_engine f c = Inr c'"
    and "\<And>st st'. state_ok st \<Longrightarrow> f st = Inr st' \<Longrightarrow>
      all_marks (abs_state st') \<subseteq> all_marks (abs_state st)"
  shows "tool_marks c' \<subseteq> tool_marks c"
proof -
  obtain m s where c: "c = (m, s)" by (cases c)
  then obtain st where "f (engine (source_state s)) = Inr st" "c' = (m, with_engine (\<lambda>_. st) s)"
    using assms(2) by (auto simp: on_engine_def and_then_Inr_iff)
  moreover from c assms(1) have "state_ok (engine (source_state s))"
    by (simp add: config_ok.simps tool_ok_def engine_ok_def)
  ultimately show ?thesis using assms(3) c by (simp add: tool_marks_def)
qed

lemma step_marks:
  assumes "tool_step c e c'" "config_ok c" "quiet_config cstring c" "\<not> is_source e"
  shows "tool_marks c' \<subseteq> tool_marks c"
proof -
  from assms(1) have run: "possible e" "happen e c = Inr c'" by (auto elim: tool_stepE)
  show ?thesis
  proof (cases e)
    case (Instruction ins x)
    then obtain cs where "on_engine (run_calls x cs) c = Inr c'"
      using run(2) by (auto simp: and_then_Inr_iff)
    from engine_step_marks [OF assms(2) this] run_calls_ok [of x _ cs] all_marks_flow run(1) Instruction
    show ?thesis by fastforce
  next
    case (Branch addr)
    then show ?thesis
      using engine_step_marks [OF assms(2), of "PushControl addr" c'] run(2) PushControl_ok [of _ addr]
        all_marks_push by fastforce
  next
    case (Meet addrs)
    then show ?thesis
      using engine_step_marks [OF assms(2), of "\<lambda>st. Inr (PopControl addrs st)" c'] run(2)
        PopControl_ok [of _ addrs] all_marks_pop by fastforce
  next
    case (Leave tid ctxt)
    then show ?thesis using quiet_Leave [OF _ assms(3)] run(2) by simp
  qed (use run(2) assms(4) in \<open>auto simp: tool_marks_def\<close>)
qed

lemma run_marks:
  assumes "tool_run c es c'" "config_ok c" "quiet_config cstring c"
    and "list_all (\<lambda>e. \<not> is_source e) es"
  shows "quiet_config cstring c' \<and> tool_marks c' \<subseteq> tool_marks c"
  using assms
proof (induction rule: tool_run.induct)
  case (run_snoc c es c' e c'')
  then have c': "quiet_config cstring c'" "tool_marks c' \<subseteq> tool_marks c" by simp_all
  have "config_ok c'" using tool_run_keeps run_snoc by blast
  with step_marks [OF run_snoc.hyps(2) _ c'(1)] quiet_step [OF run_snoc.hyps(2) c'(1)] c'(2)
    run_snoc.prems(3) show ?case by auto
qed simp

end
