(* ===== verification/Tool_Start.thy ===== *)
theory Tool_Start
  imports Tool_Run
begin

text \<open>
  Every start of the tool satisfies the invariant of its runs: what \<open>set_framework_options\<close>
  and \<open>main\<close> make from a configuration (\<open>src/dytan.cpp\<close>), source by source.
\<close>

section \<open>Starting the tool\<close>

lemma path_sources_keep:
  assumes "\<And>a. 0 \<le> rnd a"
  shows "monitor_keeps (new_PathTaintSource b)"
    and "monitor_keeps pm \<Longrightarrow> monitor_keeps (addObserverForAll rnd t pm)"
    and "monitor_keeps pm \<Longrightarrow> monitor_keeps (addPathSource rnd p t pm)"
  using path_callback_keeps [OF assms]
  by (auto simp: monitor_keeps_def new_PathTaintSource_def registerDefault_def new_PathMonitor_def
      default_keeps addObserverForAll_def registerCallbackForAll_def addPathSource_def
      observePath_def callbacks_def add_callback_def split: option.splits if_splits)

lemma make_path_source_keeps:
  assumes "\<And>a. 0 \<le> rnd a" "make_path_source rnd t ds = Inr pm"
  shows "monitor_keeps pm"
proof -
  have "monitor_keeps (fold (\<lambda>p. addPathSource rnd p t) ps pm)" if "monitor_keeps pm" for ps pm
    using that by (induction ps arbitrary: pm) (simp_all add: path_sources_keep(3) [OF assms(1)])
  then show ?thesis using assms(2) path_sources_keep(1,2) [OF assms(1)]
    by (auto simp: make_path_source_def simp del: fold.simps split: list.splits if_splits)
qed

lemma addNetworkSource_keeps:
  assumes "\<And>a. 0 \<le> rnd a" "network_keeps nm" "socketToAddress nm = Map.empty"
    and "addNetworkSource rnd inet_addr i p t nm = Inr nm'"
  shows "network_keeps nm' \<and> socketToAddress nm' = Map.empty"
proof -
  obtain cb addr found where cb: "network_callback_for rnd t = Inr cb"
    and found: "found = map_of (addressObservers nm) addr"
    and nm': "nm' = nm\<lparr>addressObservers := AList.update addr
        ((case found of None \<Rightarrow> [] | Some cbs \<Rightarrow> cbs) @ [cb]) (addressObservers nm)\<rparr>"
    using assms(4)
    by (auto simp: addNetworkSource_def observeAddress_def net_find_def Let_def and_then_Inr_iff split: if_splits)
  have old: "net_source_keeps c" if "(a, cbs) \<in> set (addressObservers nm)" "c \<in> set cbs" for a cbs c
    using assms(2) that by (auto simp: network_keeps_def)
  have upd: "p = (a, v) \<or> p \<in> set al" if "p \<in> set (AList.update a v al)"
    for a :: net_address and v p and al :: "(net_address \<times> source network_callback list) list"
    using that by (induction al) (auto split: if_splits)
  define cbs where "cbs = (case found of None \<Rightarrow> [] | Some cbs \<Rightarrow> cbs)"
  have "net_source_keeps c" if "c \<in> set cbs" for c
    using that old map_of_SomeD [of "addressObservers nm" addr]
    by (cases "map_of (addressObservers nm) addr") (auto simp: cbs_def found)
  then have new: "net_source_keeps c" if "c \<in> set (cbs @ [cb])" for c
    using that network_callback_keeps [OF assms(1) cb] by auto
  have "net_source_keeps c" if "(a, ds) \<in> set (addressObservers nm')" "c \<in> set ds" for a ds c
    using upd [of "(a, ds)" addr "cbs @ [cb]" "addressObservers nm"] that new old nm' by (auto simp: cbs_def)
  then have "network_keeps nm'" unfolding network_keeps_def by blast
  then show ?thesis using nm' assms(3) by simp
qed

lemma make_network_source_keeps:
  assumes "\<And>a. 0 \<le> rnd a" "make_network_source rnd inet_addr t ds = Inr nm"
  shows "network_keeps nm \<and> socketToAddress nm = Map.empty"
proof -
  have fresh: "network_keeps (new_NetworkTaintSource b)" "socketToAddress (new_NetworkTaintSource b) = Map.empty" for b
    by (simp_all add: network_keeps_def new_NetworkTaintSource_def registerAddressDefault_def new_NetworkMonitor_def)
  have add: "network_keeps nm' \<and> socketToAddress nm' = Map.empty"
    if "network_keeps nm" "socketToAddress nm = Map.empty" "add_network_sources rnd inet_addr t ds nm = Inr nm'"
    for nm nm' and ds
    using that
  proof (induction ds arbitrary: nm rule: induct_list012)
    case (3 i p ds)
    then obtain nm1 where nm1: "addNetworkSource rnd inet_addr i p t nm = Inr nm1"
      "add_network_sources rnd inet_addr t ds nm1 = Inr nm'" by (auto simp: and_then_Inr_iff)
    with addNetworkSource_keeps [OF assms(1) 3(3,4) nm1(1)] 3(1) [of nm1] show ?case by blast
  qed simp_all
  obtain d ds' where ds: "ds = d # ds'" using assms(2) by (cases ds) (auto simp: make_network_source_def)
  show ?thesis
  proof (cases "d = ''*''")
    case True
    then obtain cb where "nm = net_registerCallbackForAll cb (new_NetworkTaintSource True)"
      using assms(2) ds by (auto simp: make_network_source_def net_addObserverForAll_def and_then_Inr_iff)
    then show ?thesis using fresh [of True] by (simp add: network_keeps_def net_registerCallbackForAll_def)
  next
    case False
    then show ?thesis using assms(2) ds add [OF fresh] by (simp add: make_network_source_def)
  qed
qed

lemma callbacks_new_SyscallMonitor: "callbacks (observers new_SyscallMonitor) n = []"
  by (simp add: new_SyscallMonitor_def callbacks_def)

lemma callbacks_addObserver:
  "callbacks (observers (addObserver k cb m)) n =
    (if n = k then callbacks (observers m) k @ [cb] else callbacks (observers m) n)"
  using registry.registered_register [of k cb "observers m" n] by (simp add: addObserver_def)

lemma activate_default [simp]:
  "defaultObserver (activate cstring i m) = defaultObserver m"
  "defaultObserver (activate_network i m) = defaultObserver m"
  "defaultObserver (addObserver k cb m) = defaultObserver m"
  by (simp_all add: activate_def activate_network_def addObserver_def)

text \<open>
  What \<open>set_framework_options\<close> keeps while it makes the sources. With the option of one mark
  the number of marks is still the initial one, so that the constant mark is legal.
\<close>

definition framework_ok :: "string \<Rightarrow> framework \<Rightarrow> bool" where
  "framework_ok markings fw \<longleftrightarrow>
     (\<forall>n. \<forall>cb \<in> set (callbacks (observers (fw_monitor fw)) n). callback_keeps cb) \<and>
     defaultObserver (fw_monitor fw) = None \<and>
     (\<forall>pm \<in> set (fw_paths fw). monitor_keeps pm) \<and>
     (\<forall>nm \<in> set (fw_networks fw). network_keeps nm) \<and>
     0 < fw_marks fw \<and> fw_marks fw \<le> 4096 \<and> (markings = ''1'' \<longrightarrow> fw_marks fw = 4096) \<and>
     (\<forall>g. fw_gen fw = Some g \<longrightarrow> gen_ok (fw_marks fw) g)"

lemma new_framework_ok: "framework_ok markings new_framework"
  by (simp add: framework_ok_def new_framework_def callbacks_new_SyscallMonitor)
    (simp add: new_SyscallMonitor_def)

lemma set_taint_marks_ok:
  assumes "framework_ok markings fw" "set_taint_marks markings fw = Inr fw'"
  shows "framework_ok markings fw'"
  using assms
  by (auto simp: framework_ok_def set_taint_marks_def and_then_Inr_iff gen_ok_def split: if_splits)

lemma make_source_ok:
  assumes "\<And>a. 0 \<le> rnd a" "framework_ok markings fw" "make_source cstring rnd inet_addr src fw = Inr fw'"
  shows "framework_ok markings fw'"
proof -
  have act: "\<forall>cb \<in> set (callbacks (observers (activate cstring i m)) n). callback_keeps cb"
    "\<forall>cb \<in> set (callbacks (observers (activate_network i m)) n). callback_keeps cb"
    if "\<forall>n. \<forall>cb \<in> set (callbacks (observers m) n). callback_keeps cb" for i m n
    using that path_callbacks_keep network_callbacks_keep
    by (auto simp: activate_def activate_network_def callbacks_addObserver)
  have cbs: "\<forall>n. \<forall>cb \<in> set (callbacks (observers (fw_monitor fw)) n). callback_keeps cb"
    using assms(2) by (simp add: framework_ok_def)
  consider (path) pm i t where "make_path_source rnd t (details src) = Inr pm"
      "fw' = fw\<lparr>fw_monitor := activate cstring i (fw_monitor fw), fw_paths := fw_paths fw @ [pm]\<rparr>"
    | (network) nm i t where "make_network_source rnd inet_addr t (details src) = Inr nm"
      "fw' = fw\<lparr>fw_monitor := activate_network i (fw_monitor fw), fw_networks := fw_networks fw @ [nm]\<rparr>"
    | (other) "fw' = fw"
    using assms(3) by (auto simp: make_source_def Let_def and_then_Inr_iff split: if_splits)
  then show ?thesis
  proof cases
    case path
    then show ?thesis using assms(2) act(1) [OF cbs] make_path_source_keeps [OF assms(1) path(1)]
      by (simp add: framework_ok_def)
  next
    case network
    then show ?thesis using assms(2) act(2) [OF cbs] make_network_source_keeps [OF assms(1) network(1)]
      by (simp add: framework_ok_def)
  qed (use assms(2) in simp)
qed

lemma set_framework_options_ok:
  assumes "\<And>a. 0 \<le> rnd a" "set_framework_options cstring rnd inet_addr c new_framework = Inr fw"
  shows "framework_ok (num_markings c) fw"
  using assms(2) unfolding set_framework_options_def
  by (rule fold_keeps [of "framework_ok (num_markings c)", rotated 2])
    (auto simp: and_then_Inr_iff new_framework_ok intro: make_source_ok [OF assms(1)] set_taint_marks_ok)

lemma register_main_default: "defaultObserver (register_main_observers cstring m) = defaultObserver m"
proof -
  have "defaultObserver (fold (\<lambda>(n, cb). addObserver n cb) kcs m) = defaultObserver m" for kcs
    by (induction kcs arbitrary: m) auto
  then show ?thesis by (simp add: register_main_observers_def)
qed

lemma start_ok:
  assumes "framework_ok markings fw"
  shows "config_ok (start_tool cstring fw d)"
proof -
  have "taintGen (init_state n g) = g" "NUMBER_OF_TAINT_MARKS (init_state n g) = n" for n g
    by (simp_all add: init_state_def)
  moreover have "state_ok (init_state (fw_marks fw) (fw_gen fw))"
    using assms by (intro state_ok_init) (auto simp: framework_ok_def)
  ultimately show ?thesis
    using assms main_observers_keep
    by (auto simp: start_tool_def config_ok.simps register_main_default tool_ok_def engine_ok_def
        framework_ok_def registered_main)
qed

lemma main_parts:
  assumes "main cstring rnd inet_addr lx rules_content offsets doc = Inr t"
  obtains r p fw and pr :: propagation where "parseConfig lx rules_content offsets doc start_parsed = Inr (r, p)"
    "set_framework_options cstring rnd inet_addr (conf p) new_framework = Inr fw"
    "t = \<lparr>running = start_tool cstring fw (datFile p), dataflow_registered = dataflow pr,
      controlFlowTainting = controlflow pr, tracing_on = prop_tracing pr\<rparr>"
proof -
  obtain r p where p: "parseConfig lx rules_content offsets doc start_parsed = Inr (r, p)"
    using assms by (auto simp: main_def and_then_Inr_iff)
  moreover from this assms obtain fw where
    "set_framework_options cstring rnd inet_addr (conf p) new_framework = Inr fw"
    by (auto simp: main_def and_then_Inr_iff split: if_splits)
  moreover from p this assms obtain pr where "conf_prop (conf p) = Some pr"
    by (auto simp: main_def split: if_splits option.splits)
  moreover from p this assms calculation have "t = \<lparr>running = start_tool cstring fw (datFile p),
      dataflow_registered = dataflow pr, controlFlowTainting = controlflow pr, tracing_on = prop_tracing pr\<rparr>"
    by (auto simp: main_def split: if_splits)
  ultimately show thesis using that by blast
qed

lemma main_ok:
  assumes "\<And>a. 0 \<le> rnd a" "main cstring rnd inet_addr lx rules_content offsets doc = Inr t"
  shows "config_ok (running t)"
proof (rule main_parts [OF assms(2)])
  fix r p fw and pr :: propagation
  assume "set_framework_options cstring rnd inet_addr (conf p) new_framework = Inr fw"
    "t = \<lparr>running = start_tool cstring fw (datFile p), dataflow_registered = dataflow pr,
      controlFlowTainting = controlflow pr, tracing_on = prop_tracing pr\<rparr>"
  with start_ok [OF set_framework_options_ok [OF assms(1)]] show ?thesis by simp
qed

text \<open>Without a path source only quiet callbacks are registered.\<close>

definition quiet_framework :: "framework \<Rightarrow> bool" where
  "quiet_framework fw \<longleftrightarrow>
     (\<forall>n. \<forall>cb \<in> set (callbacks (observers (fw_monitor fw)) n). \<exists>i. cb = network_read i \<or> cb = network_close i) \<and>
     (\<forall>nm \<in> set (fw_networks fw). socketToAddress nm = Map.empty)"

lemma make_source_quiet:
  assumes "\<And>a. 0 \<le> rnd a" "quiet_framework fw" "src_type src \<noteq> ''path''"
    and "make_source cstring rnd inet_addr src fw = Inr fw'"
  shows "quiet_framework fw'"
  using assms(2-4) make_network_source_keeps [OF assms(1)]
  by (auto simp: make_source_def Let_def and_then_Inr_iff quiet_framework_def activate_network_def
      callbacks_addObserver split: if_splits)

lemma set_framework_options_quiet:
  assumes "\<And>a. 0 \<le> rnd a" "\<forall>src \<in> set (sources c). src_type src \<noteq> ''path''"
    and "set_framework_options cstring rnd inet_addr c new_framework = Inr fw"
  shows "quiet_framework fw"
proof -
  have step: "quiet_framework fw'" if "quiet_framework fw" "set_taint_marks k fw = Inr fw'" for k fw fw'
    using that by (auto simp: quiet_framework_def set_taint_marks_def and_then_Inr_iff split: if_splits)
  have "quiet_framework fw'" if "fold_res (\<lambda>src fw. and_then (set_taint_marks (num_markings c) fw)
       (make_source cstring rnd inet_addr src)) srcs fw = Inr fw'" "quiet_framework fw"
     "\<forall>src \<in> set srcs. src_type src \<noteq> ''path''" for srcs fw fw'
    using that
  proof (induction srcs arbitrary: fw)
    case (Cons src srcs)
    then obtain fw1 fw2 where fw: "set_taint_marks (num_markings c) fw = Inr fw1"
      "make_source cstring rnd inet_addr src fw1 = Inr fw2"
      "fold_res (\<lambda>src fw. and_then (set_taint_marks (num_markings c) fw)
         (make_source cstring rnd inet_addr src)) srcs fw2 = Inr fw'"
      by (auto simp: and_then_Inr_iff)
    have "quiet_framework fw2"
      using make_source_quiet [OF assms(1) step [OF Cons.prems(2) fw(1)] _ fw(2)] Cons.prems(3) by simp
    with Cons.IH [OF fw(3)] Cons.prems(3) show ?case by simp
  qed simp
  moreover have "quiet_framework new_framework"
    by (simp add: quiet_framework_def new_framework_def callbacks_new_SyscallMonitor)
  ultimately show ?thesis using assms(2,3) by (auto simp: set_framework_options_def)
qed

lemma start_quiet:
  assumes "framework_ok markings fw" "quiet_framework fw"
  shows "quiet_config cstring (start_tool cstring fw d)" and "tool_marks (start_tool cstring fw d) = {}"
proof -
  show "quiet_config cstring (start_tool cstring fw d)"
    using assms by (auto simp: start_tool_def register_main_default framework_ok_def quiet_framework_def
        no_sockets_def registered_main quiet_callback_def)
  have "state_ok (init_state (fw_marks fw) (fw_gen fw))"
    using assms(1) by (intro state_ok_init) (auto simp: framework_ok_def)
  from fresh_set_ok [OF this] show "tool_marks (start_tool cstring fw d) = {}"
    by (simp add: tool_marks_def start_tool_def all_marks_def control_marks_def)
      (simp add: init_state_def fresh_set_def n_marks_def)
qed

section \<open>A system call of one thread\<close>

lemma Leave_after_Enter:
  assumes "- (2 ^ 31) \<le> PIN_GetSyscallNumber c" "PIN_GetSyscallNumber c < 2 ^ 31"
    and "callbacks (observers m) (PIN_GetSyscallNumber c) = cb # cbs"
    and "fold_res (\<lambda>cb. cb (PIN_GetSyscallNumber c)
        ((begun c)\<lparr>ret := PIN_GetSyscallReturn d, err := PIN_GetSyscallErrno d\<rparr>)) (cb # cbs) s = Inr s'"
  shows "\<exists>m'. tool_run (m, s) [Enter tid c, Leave tid d] (m', s') \<and> observers m' = observers m"
proof -
  let ?m = "SysBefore tid c m"
  have p: "pending ?m tid = begun c" by (simp add: pending_def SysBefore_pending)
  have n: "c_int (num (pending ?m tid)) = PIN_GetSyscallNumber c"
    using c_int_of_int [OF assms(1,2)] by (simp add: p begun_def)
  have "observers ?m (PIN_GetSyscallNumber c) = Some (cb # cbs)"
    using assms(3) by (simp add: callbacks_def split: option.splits)
  then obtain m' where m': "SysAfter tid d (?m, s) = Inr (m', s')" "observers m' = observers m"
    using endSyscall_observed [of ?m tid, unfolded n] assms(4) by (simp add: SysAfter_def p)
  have "tool_run (m, s) ([] @ [Enter tid c]) (?m, s)"
    by (rule run_snoc [OF run_Nil]) (simp add: tool_step_iff)
  then have "tool_run (m, s) (([] @ [Enter tid c]) @ [Leave tid d]) (m', s')"
    by (rule run_snoc) (simp add: tool_step_iff m')
  then show ?thesis using m'(2) by auto
qed

lemma tool_run_append: "tool_run b fs c \<Longrightarrow> tool_run a es b \<Longrightarrow> tool_run a (es @ fs) c"
proof (induction rule: tool_run.induct)
  case (run_snoc b fs c' e c'')
  then have "tool_run a ((es @ fs) @ [e]) c''" by (blast intro: tool_run.run_snoc)
  then show ?case by simp
qed simp

text \<open>The callbacks of a tool with one path source.\<close>

lemma one_source_callbacks:
  "callbacks (observers (register_main_observers cstring (activate cstring 0 new_SyscallMonitor))) 2 =
    [path_open cstring 0, Handle_OPEN cstring]"
  "callbacks (observers (register_main_observers cstring (activate cstring 0 new_SyscallMonitor))) 0 =
    [path_read 0, Handle_READ]"
  "callbacks (observers (register_main_observers cstring (activate cstring 0 new_SyscallMonitor))) 32 =
    [Handle_DUP]"
  by (simp_all add: registered_main activate_def callbacks_addObserver
      callbacks_new_SyscallMonitor main_observers_def)

section \<open>Valid configurations\<close>

definition source_valid :: "config_source \<Rightarrow> bool" where
  "source_valid src \<longleftrightarrow>
     (src_type src = ''path'' \<longrightarrow> details src \<noteq> []) \<and>
     (src_type src = ''network'' \<longrightarrow> granularity src \<noteq> ''PerOffset'' \<and>
       (\<exists>ds. details src = ''*'' # ds \<or> length (details src) = 2))"

definition markings_valid :: "string \<Rightarrow> bool" where
  "markings_valid m \<longleftrightarrow> m = [] \<or> (\<exists>n. 1 \<le> n \<and> n \<le> 4096 \<and> m = show_int n)"

text \<open>The marks that a valid option leaves: 4096 or the number it says.\<close>

definition marks_agree :: "string \<Rightarrow> framework \<Rightarrow> bool" where
  "marks_agree m fw \<longleftrightarrow> fw_marks fw = 4096 \<or> m = show_int (fw_marks fw)"

lemma set_taint_marks_succeeds:
  assumes "markings_valid m" "marks_agree m fw" "fw_marks fw \<le> 4096"
  shows "\<exists>fw'. set_taint_marks m fw = Inr fw' \<and> marks_agree m fw' \<and> fw_marks fw' \<le> 4096"
proof (cases "m = []")
  case False
  then obtain n where n: "1 \<le> n" "n \<le> 4096" "m = show_int n"
    using assms(1) by (auto simp: markings_valid_def)
  have c: "convertTo_int m = Inr n" using n convertTo_show_int [of n] by simp
  have "n \<le> fw_marks fw"
  proof (cases "fw_marks fw = 4096")
    case False
    then have "scan_int (show_int (fw_marks fw)) = scan_int (show_int n)"
      using assms(2) n(3) by (simp add: marks_agree_def)
    then show ?thesis by (simp add: scan_show_int)
  qed (use n(2) in simp)
  then show ?thesis using c n False assms(2,3) by (auto simp: set_taint_marks_def marks_agree_def)
qed (use assms in \<open>simp add: set_taint_marks_def\<close>)

lemma make_source_succeeds:
  assumes "source_valid src"
  shows "\<exists>fw'. make_source cstring rnd inet_addr src fw = Inr fw' \<and> fw_marks fw' = fw_marks fw"
proof -
  consider (path) d ds where "src_type src = ''path''" "details src = d # ds"
    | (network) d ds where "src_type src = ''network''" "details src = d # ds"
        "d = ''*'' \<or> (\<exists>p. ds = [p])" "granularity src \<noteq> ''PerOffset''"
    | (other) "src_type src \<noteq> ''path''" "src_type src \<noteq> ''network''"
    using assms by (cases "details src") (auto simp: source_valid_def length_Suc_conv numeral_2_eq_2)
  then show ?thesis
  proof cases
    case path
    then show ?thesis by (cases "d = ''*''") (auto simp: make_source_def make_path_source_def Let_def)
  next
    case network
    have "taint_granularity (granularity src) \<noteq> PerOffset"
      using network(4) by (simp add: taint_granularity_def)
    then obtain cb where cb: "network_callback_for rnd (taint_granularity (granularity src)) = Inr cb"
      by (cases "taint_granularity (granularity src)") simp_all
    have "\<exists>nm. make_network_source rnd inet_addr (taint_granularity (granularity src)) (details src) = Inr nm"
      using network(2,3) cb by (auto simp: make_network_source_def net_addObserverForAll_def addNetworkSource_def
          observeAddress_def net_find_def ordered_with_def new_NetworkTaintSource_def registerAddressDefault_def
          new_NetworkMonitor_def)
    then show ?thesis using network(1) by (auto simp: make_source_def)
  qed (simp add: make_source_def)
qed

section \<open>Network sources of 32-bit builds\<close>

text \<open>The calls that the monitor would see there.\<close>

datatype network_event =
    Socketcall app_memory syscall_arguments
  | Net_Read syscall_arguments
  | Net_Close syscall_arguments

fun network_step ::
  "network_event \<Rightarrow> 's network_monitor \<times> 's \<Rightarrow> ('s network_monitor \<times> 's) result" where
  "network_step (Socketcall am args) (nm, s) = socketcallNetworkCallback am args nm s"
| "network_step (Net_Read args) (nm, s) = and_then (readNetworkCallback args nm s) (\<lambda>s. Inr (nm, s))"
| "network_step (Net_Close args) (nm, s) = Inr (closeNetworkCallback args nm, s)"

text \<open>A monitor either has addresses or observes everything, and knows no socket.\<close>

definition deaf :: "'s network_monitor \<Rightarrow> bool" where
  "deaf nm \<longleftrightarrow> socketToAddress nm = Map.empty \<and> (net_observeEverything nm \<longrightarrow> addressObservers nm = [])"

lemma save_socket_deaf: "deaf nm \<Longrightarrow> save_socket am args i nm = Inr nm' \<Longrightarrow> nm' = nm"
  by (auto simp: save_socket_def Let_def net_find_def and_then_Inr_iff deaf_def split: if_splits)

lemma receive_deaf:
  assumes "deaf nm"
  shows "receive am args nm s = (if net_observeEverything nm then Inl Null_Dereference else Inr (nm, s))"
  using assms by (simp add: receive_def Let_def net_notifyForRead_def net_find_def ordered_with_def deaf_def)

lemma socketcall_deaf:
  assumes "deaf nm" "socketcallNetworkCallback am args nm s = Inr (nm', s')"
  shows "nm' = nm \<and> s' = s"
  using assms(2)
  by (auto simp: socketcallNetworkCallback_def Let_def and_then_Inr_iff receive_deaf [OF assms(1)]
      dest!: save_socket_deaf [OF assms(1)] split: if_splits)

lemma network_step_deaf:
  assumes "deaf nm" "network_step e (nm, s) = Inr (nm', s')"
  shows "deaf nm' \<and> s' = s \<and> net_observeEverything nm' = net_observeEverything nm"
proof (cases e)
  case (Socketcall am args)
  then have "nm' = nm \<and> s' = s" using assms(2) by (intro socketcall_deaf [OF assms(1)]) simp
  then show ?thesis using assms(1) by simp
next
  case (Net_Read args)
  then show ?thesis using assms by (auto simp: readNetworkCallback_def deaf_def and_then_Inr_iff split: if_splits)
next
  case (Net_Close args)
  then show ?thesis using assms
    by (cases "c_int (ret args) = -1") (auto simp: closeNetworkCallback_def deaf_def)
qed

lemma make_network_source_deaf:
  assumes "make_network_source rnd inet_addr t ds = Inr nm"
  shows "deaf nm \<and> (net_observeEverything nm \<longleftrightarrow> hd ds = ''*'')"
proof -
  have add: "deaf nm' \<and> \<not> net_observeEverything nm'"
    if "add_network_sources rnd inet_addr t es nm0 = Inr nm'" "deaf nm0" "\<not> net_observeEverything nm0"
    for es nm0 nm'
    using that
  proof (induction es arbitrary: nm0 rule: induct_list012)
    case (3 i p es)
    then obtain nm1 where nm1: "addNetworkSource rnd inet_addr i p t nm0 = Inr nm1"
      "add_network_sources rnd inet_addr t es nm1 = Inr nm'" by (auto simp: and_then_Inr_iff)
    then have "deaf nm1 \<and> \<not> net_observeEverything nm1"
      using 3(4,5) by (auto simp: addNetworkSource_def observeAddress_def and_then_Inr_iff Let_def deaf_def)
    then show ?case using 3(1) [OF nm1(2)] by simp
  qed simp_all
  have new: "deaf (new_NetworkTaintSource b)" "net_observeEverything (new_NetworkTaintSource b) = b" for b
    by (simp_all add: deaf_def new_NetworkTaintSource_def registerAddressDefault_def new_NetworkMonitor_def)
  obtain d ds' where ds: "ds = d # ds'" using assms by (cases ds) (auto simp: make_network_source_def)
  show ?thesis
  proof (cases "d = ''*''")
    case True
    then obtain cb where "nm = net_registerCallbackForAll cb (new_NetworkTaintSource True)"
      using assms ds by (auto simp: make_network_source_def net_addObserverForAll_def and_then_Inr_iff)
    then show ?thesis using new [of True] ds True by (simp add: deaf_def net_registerCallbackForAll_def)
  next
    case False
    then show ?thesis using add [of ds "new_NetworkTaintSource False" nm] assms ds new [of False]
      by (simp add: make_network_source_def)
  qed
qed

text \<open>
  C35: a network source taints nothing on a 32-bit build either: however it is configured, no
  sequence of socket calls, reads and closes changes the taint state. A source for all
  addresses stops the tool at the first \<open>recv\<close>, where the callbacks of an address that nobody
  registered are looked up and the end of the map is read; a source for some addresses never
  remembers a socket, because \<open>connect\<close> saves it only when everything is observed.
\<close>

theorem network_sources_never_taint:
  assumes "make_network_source rnd inet_addr t ds = Inr nm"
    and "fold_res network_step es (nm, src) = Inr (nm1, src1)"
  shows "src1 = src \<and> (hd ds = ''*'' \<and> c_int (arg0 args) = 10 \<longrightarrow>
    network_step (Socketcall am args) (nm1, src1) = Inl Null_Dereference)"
proof -
  have run: "deaf nm' \<and> src' = src \<and> net_observeEverything nm' = net_observeEverything nm"
    if "fold_res network_step es (nm, src) = Inr (nm', src')" "deaf nm" for nm src nm' src'
    using that
  proof (induction es arbitrary: nm src)
    case (Cons e es)
    then obtain nm1 src1 where s: "network_step e (nm, src) = Inr (nm1, src1)"
      "fold_res network_step es (nm1, src1) = Inr (nm', src')" by (auto simp: and_then_Inr_iff)
    with network_step_deaf [OF Cons.prems(2) s(1)] Cons.IH [OF s(2)] show ?case by simp
  qed simp
  from run [OF assms(2)] make_network_source_deaf [OF assms(1)] receive_deaf [of nm1 am args src1]
  show ?thesis by (simp add: socketcallNetworkCallback_def)
qed

theorem network_sources_never_taint_witness:
  "network_step (Socketcall \<lparr>word_at = (\<lambda>_. 0), sin_addr = (\<lambda>_. 0), sin_port = (\<lambda>_. 0)\<rparr>
      \<lparr>num = 102, arg0 = 10, arg1 = 0, arg2 = 0, arg3 = 0, arg4 = 0, arg5 = 0, ret = 4, err = 0\<rparr>)
     (net_registerCallbackForAll (networkReadCallbackPerByte (\<lambda>_. 0)) (new_NetworkTaintSource True),
      counter_source 8) = Inl Null_Dereference"
proof -
  have m: "make_network_source (\<lambda>_. 0) (\<lambda>_. 0) PerByte [''*''] =
      Inr (net_registerCallbackForAll (networkReadCallbackPerByte (\<lambda>_. 0)) (new_NetworkTaintSource True))"
    by (simp add: make_network_source_def net_addObserverForAll_def)
  from network_sources_never_taint [OF m, of "[]"] show ?thesis by (simp add: c_int_def)
qed

end
