(* ===== verification/Basic_Block.thy ===== *)
theory Basic_Block
  imports Dytan_Prelude
begin

text \<open>
  The nodes of a routine's control-flow graph (\<open>src/include/BasicBlock.H\<close>) and the methods
  that maintain the tree of post-dominators. Blocks live in a heap and are named by the
  order of their allocation; \<open>at\<close> is the address that \<open>new\<close> returned for each, which is the
  order of iteration of a \<open>set<void *>\<close>. A recursion over the tree that does not end is
  \<open>None\<close>, a call through a null pointer an error.
\<close>

section \<open>Computations that may fail or not end\<close>

definition bind_opt :: "'a result option \<Rightarrow> ('a \<Rightarrow> 'b result option) \<Rightarrow> 'b result option" where
  "bind_opt m f = (case m of None \<Rightarrow> None | Some (Inl e) \<Rightarrow> Some (Inl e) | Some (Inr x) \<Rightarrow> f x)"

lemma bind_opt_simps [simp]:
  "bind_opt None f = None" "bind_opt (Some (Inl e)) f = Some (Inl e)"
  "bind_opt (Some (Inr x)) f = f x"
  by (simp_all add: bind_opt_def)

fun fold_opt :: "('a \<Rightarrow> 's \<Rightarrow> 's result option) \<Rightarrow> 'a list \<Rightarrow> 's \<Rightarrow> 's result option" where
  "fold_opt f [] s = Some (Inr s)"
| "fold_opt f (x # xs) s = bind_opt (f x s) (fold_opt f xs)"

section \<open>Blocks\<close>

type_synonym block_id = nat

text \<open>
  A \<open>map<ADDRINT, BasicBlock *>\<close>: an absent key, a key with a null pointer (which a read by
  \<open>operator[]\<close> leaves behind), a key with a block.
\<close>

type_synonym block_map = "addrint \<Rightarrow> block_id option option"

text \<open>\<open>isEntry\<close> is \<open>None\<close> while it is uninitialised: the constructor does not set it.\<close>

record basic_block =
  body :: "addrint list"
  visited :: int
  isEntry :: "int option"
  routineCalled :: string
  successors :: "block_id list"
  predecessors :: "block_id list"
  dominated :: block_map
  Dominator :: "block_id option"
  immediatelyDominated :: block_map
  postDominated :: block_map
  PostDominator :: "block_id option"
  immediatelyPostDominated :: block_map
  startingAddress :: addrint
  endingAddress :: addrint
  isPostDominated :: int

type_synonym heap = "block_id \<Rightarrow> basic_block"

definition new_BasicBlock :: basic_block where
  "new_BasicBlock =
     \<lparr>body = [], visited = 0, isEntry = None, routineCalled = [], successors = [],
      predecessors = [], dominated = Map.empty, Dominator = None,
      immediatelyDominated = Map.empty, postDominated = Map.empty, PostDominator = None,
      immediatelyPostDominated = Map.empty, startingAddress = 0, endingAddress = 0,
      isPostDominated = 0\<rparr>"

definition upd :: "block_id \<Rightarrow> (basic_block \<Rightarrow> basic_block) \<Rightarrow> heap \<Rightarrow> heap" where
  "upd b f h = h(b := f (h b))"

definition setRoutineCalled :: "string \<Rightarrow> block_id \<Rightarrow> heap \<Rightarrow> heap" where
  "setRoutineCalled routineName b = upd b (\<lambda>x. x\<lparr>routineCalled := routineName\<rparr>)"

definition setAsEntryNode :: "block_id \<Rightarrow> heap \<Rightarrow> heap" where
  "setAsEntryNode b = upd b (\<lambda>x. x\<lparr>isEntry := Some 1\<rparr>)"

definition insertPreds :: "(block_id \<Rightarrow> addrint) \<Rightarrow> block_id \<Rightarrow> block_id \<Rightarrow> heap \<Rightarrow> heap" where
  "insertPreds at pBlock b =
     upd b (\<lambda>x. x\<lparr>predecessors := insort_insert_key at pBlock (predecessors x)\<rparr>)"

definition insertSuccs :: "(block_id \<Rightarrow> addrint) \<Rightarrow> block_id \<Rightarrow> block_id \<Rightarrow> heap \<Rightarrow> heap" where
  "insertSuccs at pBlock b =
     upd b (\<lambda>x. x\<lparr>successors := insort_insert_key at pBlock (successors x)\<rparr>)"

definition setEnding :: "addrint \<Rightarrow> block_id \<Rightarrow> heap \<Rightarrow> heap" where
  "setEnding endAddr b = upd b (\<lambda>x. x\<lparr>endingAddress := endAddr\<rparr>)"

definition setStarting :: "addrint \<Rightarrow> block_id \<Rightarrow> heap \<Rightarrow> heap" where
  "setStarting startAddr b = upd b (\<lambda>x. x\<lparr>startingAddress := startAddr\<rparr>)"

definition setPostDominator :: "block_id \<Rightarrow> block_id \<Rightarrow> heap \<Rightarrow> heap" where
  "setPostDominator block b =
     upd b (\<lambda>x. x\<lparr>isPostDominated := 1, PostDominator := Some block\<rparr>)"

definition addImmediatePostDominator :: "heap \<Rightarrow> block_id \<Rightarrow> block_id \<Rightarrow> heap \<Rightarrow> heap" where
  "addImmediatePostDominator h newBlock b =
     upd b (\<lambda>x. x\<lparr>immediatelyPostDominated :=
       (immediatelyPostDominated x)(startingAddress (h newBlock) \<mapsto> Some newBlock)\<rparr>)"

section \<open>Walks over the tree of post-dominators\<close>

text \<open>\<open>postDominated[k] != NULL\<close>, and the entry that the read leaves.\<close>

definition holds_key :: "block_map \<Rightarrow> addrint \<Rightarrow> bool" where
  "holds_key m k = (case m k of Some (Some _) \<Rightarrow> True | _ \<Rightarrow> False)"

definition read_key :: "addrint \<Rightarrow> block_map \<Rightarrow> block_map" where
  "read_key k m = (case m k of None \<Rightarrow> m(k \<mapsto> None) | Some _ \<Rightarrow> m)"

partial_function (option) getCommonPostDominator ::
  "block_id \<Rightarrow> heap \<Rightarrow> block_id \<Rightarrow> (block_id \<times> heap) result option" where
  "getCommonPostDominator siblingBlock h this =
     (let k = startingAddress (h siblingBlock);
          found = holds_key (postDominated (h this)) k;
          h' = upd this (postDominated_update (read_key k)) h in
      if found \<or> startingAddress (h' this) = 2 then Some (Inr (this, h'))
      else (case PostDominator (h' this) of
              None \<Rightarrow> Some (Inl Null_Dereference)
            | Some up \<Rightarrow> getCommonPostDominator siblingBlock h' up))"

partial_function (option) passDownPostDominanceInfo ::
  "block_id \<Rightarrow> heap \<Rightarrow> block_id \<Rightarrow> heap result option" where
  "passDownPostDominanceInfo newChild h this =
     (let k = startingAddress (h newChild);
          h' = upd this (postDominated_update (\<lambda>m. m(k \<mapsto> Some newChild))) h in
      if startingAddress (h' this) \<noteq> 2
      then (case PostDominator (h' this) of
              None \<Rightarrow> Some (Inl Null_Dereference)
            | Some up \<Rightarrow> passDownPostDominanceInfo newChild h' up)
      else Some (Inr h'))"

definition erase_keys :: "block_map \<Rightarrow> addrint \<Rightarrow> block_map \<Rightarrow> block_map" where
  "erase_keys deletableBlocks parent m =
     (\<lambda>k. if k = parent \<or> deletableBlocks k \<noteq> None then None else m k)"

partial_function (option) deleteDownPostDominanceInfo ::
  "block_map \<Rightarrow> addrint \<Rightarrow> addrint \<Rightarrow> heap \<Rightarrow> block_id \<Rightarrow> heap result option" where
  "deleteDownPostDominanceInfo deletableBlocks deletableBlocksParent lastNodesStarting h this =
     (if startingAddress (h this) \<noteq> lastNodesStarting
      then (let h' = upd this (postDominated_update
              (erase_keys deletableBlocks deletableBlocksParent)) h in
            case PostDominator (h' this) of
              None \<Rightarrow> Some (Inr h')
            | Some up \<Rightarrow> deleteDownPostDominanceInfo deletableBlocks deletableBlocksParent
                lastNodesStarting h' up)
      else Some (Inr h))"

declare getCommonPostDominator.simps [code] passDownPostDominanceInfo.simps [code]
  deleteDownPostDominanceInfo.simps [code]

definition addPredecessorAsPostDominated ::
  "block_id \<Rightarrow> block_id \<Rightarrow> heap \<Rightarrow> heap result option" where
  "addPredecessorAsPostDominated this predecessor h =
     (if isPostDominated (h predecessor) = 0
      then (let h = setPostDominator this predecessor h;
                h = addImmediatePostDominator h predecessor this h in
            passDownPostDominanceInfo predecessor h this)
      else (let competingSibling = PostDominator (h predecessor) in
        bind_opt (getCommonPostDominator predecessor h this) (\<lambda>(newPostDominator, h).
        let k = startingAddress (h predecessor);
            h = upd this (\<lambda>x. x\<lparr>immediatelyPostDominated :=
                  (immediatelyPostDominated x)(k := None)\<rparr>) h in
        case competingSibling of
          None \<Rightarrow> Some (Inl Null_Dereference)
        | Some c \<Rightarrow>
            bind_opt (deleteDownPostDominanceInfo (postDominated (h predecessor)) k
              (startingAddress (h newPostDominator)) h c) (\<lambda>h.
            let h = setPostDominator newPostDominator predecessor h in
            Some (Inr (addImmediatePostDominator h predecessor newPostDominator h))))))"

end
