(* ===== verification/Routine_Graph.thy ===== *)
theory Routine_Graph
  imports Basic_Block
begin

text \<open>
  The control-flow graph of a routine (\<open>src/include/RoutineGraph.H\<close>): the pass that records
  branches and their targets, the pass that groups instructions into blocks, the pass that
  builds the tree of post-dominators, and the instrumentation of branches and meeting
  points that uses it (\<open>Controlflow\<close>, \<open>src/dytan.cpp\<close>, lines 804--877). A routine is the list
  of the answers that Pin gives for its instructions.
\<close>

section \<open>Instructions and graphs\<close>

record cfg_ins =
  INS_Address :: addrint
  INS_NextAddress :: addrint
  INS_IsBranch :: bool
  INS_IsCall :: bool
  INS_IsRet :: bool
  INS_IsDirectBranchOrCall :: bool
  INS_HasFallThrough :: bool
  INS_DirectBranchOrCallTargetAddress :: addrint
  INS_IsCondBranch :: bool

text \<open>A \<open>set<ADDRINT>\<close> is the sorted list of its elements.\<close>

record graph =
  heap :: heap
  next_block :: block_id
  addressMap :: "addrint \<Rightarrow> block_id option"
  allBlocks :: "block_id list"
  branches :: "addrint \<Rightarrow> addrint list"
  targets :: "addrint \<Rightarrow> addrint list"
  EntranceNode :: block_id
  ReturnNode :: block_id

definition new_graph :: graph where
  "new_graph =
     \<lparr>heap = (\<lambda>_. new_BasicBlock), next_block = 0, addressMap = Map.empty, allBlocks = [],
      branches = (\<lambda>_. []), targets = (\<lambda>_. []), EntranceNode = 0, ReturnNode = 0\<rparr>"

definition on_heap :: "(heap \<Rightarrow> heap) \<Rightarrow> graph \<Rightarrow> graph" where
  "on_heap f g = g\<lparr>heap := f (heap g)\<rparr>"

definition new_in :: "graph \<Rightarrow> block_id \<times> graph" where
  "new_in g = (next_block g, g\<lparr>next_block := next_block g + 1,
     heap := (heap g)(next_block g := new_BasicBlock)\<rparr>)"

section \<open>First pass: branches and targets\<close>

definition insert_branch :: "addrint \<Rightarrow> addrint \<Rightarrow> graph \<Rightarrow> graph" where
  "insert_branch addr t g = g\<lparr>branches := (branches g)(addr := insort_insert t (branches g addr))\<rparr>"

definition insert_target :: "addrint \<Rightarrow> addrint \<Rightarrow> graph \<Rightarrow> graph" where
  "insert_target t addr g = g\<lparr>targets := (targets g)(t := insort_insert addr (targets g t))\<rparr>"

text \<open>\<open>if(INS_HasFallThrough(ins)) { branches[addr].insert(next); targets[next].insert(addr); }\<close>\<close>

definition insert_fall_through :: "cfg_ins \<Rightarrow> graph \<Rightarrow> graph" where
  "insert_fall_through ins g =
     (if INS_HasFallThrough ins
      then insert_target (INS_NextAddress ins) (INS_Address ins)
             (insert_branch (INS_Address ins) (INS_NextAddress ins) g)
      else g)"

definition mapper :: "cfg_ins \<Rightarrow> graph \<Rightarrow> graph" where
  "mapper ins g =
     (let addr = INS_Address ins;
          target = INS_DirectBranchOrCallTargetAddress ins;
          g = (if INS_IsBranch ins
               then (if INS_IsDirectBranchOrCall ins
                     then insert_fall_through ins (insert_target target addr (insert_branch addr target g))
                     else insert_fall_through ins (insert_branch addr 5 g))
               else g);
          g = (if INS_IsCall ins
               then (if INS_IsDirectBranchOrCall ins
                     then insert_fall_through ins (insert_branch addr 1 g)
                     else insert_fall_through ins (insert_branch addr 4 g))
               else g) in
      if INS_IsRet ins then insert_branch addr 2 g else g)"

section \<open>Second pass: blocks\<close>

definition Get_BasicBlock_At :: "addrint \<Rightarrow> graph \<Rightarrow> block_id \<times> graph" where
  "Get_BasicBlock_At targetAddress g =
     (case addressMap g targetAddress of
        Some b \<Rightarrow> (b, g)
      | None \<Rightarrow>
          (let (b, g) = new_in g in
           (b, g\<lparr>addressMap := (addressMap g)(targetAddress \<mapsto> b),
                 allBlocks := List.insert b (allBlocks g)\<rparr>)))"

text \<open>
  The parameters: \<open>at\<close>, the addresses of the blocks, and \<open>rtn_name\<close>, the name of the routine
  at an address. \<open>next\<close> is the address of \<open>INS_Next(currentIns)\<close>, \<open>None\<close> at the end of the
  routine, where the code reads the address of an invalid instruction.
\<close>

definition edge :: "(block_id \<Rightarrow> addrint) \<Rightarrow> block_id \<Rightarrow> block_id \<Rightarrow> graph \<Rightarrow> graph" where
  "edge at from_block to_block g =
     on_heap (insertSuccs at to_block from_block) (on_heap (insertPreds at from_block to_block) g)"

definition fall_through_of_call ::
  "(block_id \<Rightarrow> addrint) \<Rightarrow> addrint option \<Rightarrow> block_id \<Rightarrow> block_id \<Rightarrow> graph \<Rightarrow> graph result" where
  "fall_through_of_call at nxt currentBlock called g =
     (case nxt of
        None \<Rightarrow> Inl Null_Dereference
      | Some fallThrough \<Rightarrow>
          (let (other, g) = Get_BasicBlock_At fallThrough g;
               g = on_heap (insertPreds at currentBlock other) g in
           Inr (on_heap (insertSuccs at other called) g)))"

definition BranchIns ::
  "(block_id \<Rightarrow> addrint) \<Rightarrow> (addrint \<Rightarrow> string option) \<Rightarrow> addrint option \<Rightarrow> cfg_ins \<Rightarrow> block_id \<Rightarrow>
   graph \<Rightarrow> graph result" where
  "BranchIns at rtn_name nxt currentIns currentBlock g =
     (let currentAddress = INS_Address currentIns;
          g = on_heap (setEnding currentAddress currentBlock) g;
          g = g\<lparr>addressMap := (addressMap g)(currentAddress \<mapsto> currentBlock)\<rparr> in
      case branches g currentAddress of
        [] \<Rightarrow> Inl Out_Of_Bounds
      | target # others \<Rightarrow>
          if target = 1 then
            (let (called, g) = new_in g;
                 g = on_heap (setStarting 1 called) g;
                 g = on_heap (setEnding 1 called) g;
                 g = (case rtn_name (INS_DirectBranchOrCallTargetAddress currentIns) of
                        None \<Rightarrow> g
                      | Some n \<Rightarrow> on_heap (setRoutineCalled n called) g) in
             fall_through_of_call at nxt currentBlock called (edge at currentBlock called g))
          else if target = 2 then
            (case addressMap g 2 of
               None \<Rightarrow> Inl Null_Dereference
             | Some returnBlock \<Rightarrow> Inr (edge at currentBlock returnBlock g))
          else if target = 4 then
            (let (indirect, g) = new_in g;
                 g = on_heap (setStarting 4 indirect) g;
                 g = on_heap (setEnding 4 indirect) g;
                 g = g\<lparr>allBlocks := List.insert indirect (allBlocks g)\<rparr> in
             fall_through_of_call at nxt currentBlock indirect (edge at currentBlock indirect g))
          else if target = 5 then
            (let (indirect, g) = new_in g;
                 g = on_heap (setStarting 5 indirect) g;
                 g = on_heap (setEnding 5 indirect) g;
                 g = g\<lparr>allBlocks := List.insert indirect (allBlocks g)\<rparr> in
             Inr (edge at currentBlock indirect g))
          else
            (let (targetBlock, g) = Get_BasicBlock_At target g;
                 g = edge at currentBlock targetBlock g in
             case others of
               other # _ \<Rightarrow>
                 (let (otherBlock, g) = Get_BasicBlock_At other g in
                  Inr (edge at currentBlock otherBlock g))
             | [] \<Rightarrow>
                 if target = startingAddress (heap g currentBlock)
                 then (case nxt of
                         None \<Rightarrow> Inl Null_Dereference
                       | Some n \<Rightarrow>
                           (let (otherBlock, g) = Get_BasicBlock_At n g in
                            Inr (edge at currentBlock otherBlock g)))
                 else Inr g))"

text \<open>One iteration of the loop over the instructions; the block being built, if any.\<close>

definition BlockBuilder_step ::
  "(block_id \<Rightarrow> addrint) \<Rightarrow> (addrint \<Rightarrow> string option) \<Rightarrow> addrint \<Rightarrow> cfg_ins \<Rightarrow> addrint option \<Rightarrow>
   block_id option \<times> graph \<Rightarrow> (block_id option \<times> graph) result" where
  "BlockBuilder_step at rtn_name previous currentIns nxt = (\<lambda>(currentBlock, g).
     let currentAddress = INS_Address currentIns;
         branch = (\<lambda>b g. and_then (BranchIns at rtn_name nxt currentIns b g) (\<lambda>g. Inr (None, g))) in
     case currentBlock of
       None \<Rightarrow>
         (let (b, g) = Get_BasicBlock_At currentAddress g;
              g = on_heap (setStarting currentAddress b) g in
          if branches g currentAddress \<noteq> [] then branch b g else Inr (Some b, g))
     | Some b \<Rightarrow>
         if targets g currentAddress \<noteq> [] then
           (let g = on_heap (setEnding previous b) g;
                (newBlock, g) = Get_BasicBlock_At currentAddress g;
                g = on_heap (insertSuccs at newBlock b) g;
                g = on_heap (insertPreds at b newBlock) g;
                g = on_heap (setStarting currentAddress newBlock) g in
            if branches g currentAddress \<noteq> [] then branch newBlock g else Inr (Some newBlock, g))
         else if branches g currentAddress \<noteq> [] then branch b g
         else Inr (Some b, g\<lparr>addressMap := (addressMap g)(currentAddress \<mapsto> b)\<rparr>))"

fun BlockBuilder_loop ::
  "(block_id \<Rightarrow> addrint) \<Rightarrow> (addrint \<Rightarrow> string option) \<Rightarrow> addrint \<Rightarrow> cfg_ins list \<Rightarrow>
   block_id option \<times> graph \<Rightarrow> (block_id option \<times> graph) result" where
  "BlockBuilder_loop at rtn_name previous [] s = Inr s"
| "BlockBuilder_loop at rtn_name previous (i # is) s =
     and_then (BlockBuilder_step at rtn_name previous i
         (case is of [] \<Rightarrow> None | j # _ \<Rightarrow> Some (INS_Address j)) s)
       (BlockBuilder_loop at rtn_name (INS_Address i) is)"

definition BlockBuilder ::
  "(block_id \<Rightarrow> addrint) \<Rightarrow> (addrint \<Rightarrow> string option) \<Rightarrow> cfg_ins list \<Rightarrow> graph \<Rightarrow> graph result" where
  "BlockBuilder at rtn_name is g =
     (case is of
        [] \<Rightarrow> Inl Null_Dereference
      | firstIns # rest \<Rightarrow>
          (let (routineHead, g) = Get_BasicBlock_At (INS_Address firstIns) g;
               g = on_heap (setAsEntryNode routineHead) g;
               g = on_heap (setStarting (INS_Address firstIns) routineHead) g;
               g = g\<lparr>addressMap := (addressMap g)(INS_Address firstIns \<mapsto> routineHead)\<rparr>;
               (returnBlock, g) = new_in g;
               g = on_heap (setStarting 2 returnBlock) g;
               g = on_heap (setEnding 2 returnBlock) g;
               g = g\<lparr>addressMap := (addressMap g)(2 \<mapsto> returnBlock)\<rparr>;
               g = g\<lparr>allBlocks := List.insert returnBlock (List.insert routineHead (allBlocks g))\<rparr> in
           and_then (BlockBuilder_loop at rtn_name (INS_Address firstIns) rest (Some routineHead, g))
             (\<lambda>(currentBlock, g).
               let g = (case currentBlock of
                          None \<Rightarrow> g
                        | Some b \<Rightarrow> on_heap (setEnding (INS_Address (last is)) b) g) in
               Inr (g\<lparr>EntranceNode := routineHead, ReturnNode := returnBlock\<rparr>))))"

section \<open>Third pass: post-dominators\<close>

definition visit_predecessor ::
  "block_id \<Rightarrow> block_id \<Rightarrow> block_id list \<times> heap \<Rightarrow> (block_id list \<times> heap) result option" where
  "visit_predecessor currentBlock targetBlock = (\<lambda>(blockQueue, h).
     let blockQueue = (if PostDominator (h targetBlock) = None then blockQueue @ [targetBlock]
                       else blockQueue) in
     bind_opt (addPredecessorAsPostDominated currentBlock targetBlock h) (\<lambda>h.
       Some (Inr (blockQueue, h))))"

partial_function (option) buildPostDominanceTree ::
  "block_id \<Rightarrow> block_id list \<Rightarrow> heap \<Rightarrow> heap result option" where
  "buildPostDominanceTree currentBlock blockQueue h =
     (case fold_opt (visit_predecessor currentBlock) (predecessors (h currentBlock)) (blockQueue, h) of
        None \<Rightarrow> None
      | Some (Inl e) \<Rightarrow> Some (Inl e)
      | Some (Inr (queue, h')) \<Rightarrow>
          (case queue of
             [] \<Rightarrow> Some (Inr h')
           | nextBlock # queue' \<Rightarrow> buildPostDominanceTree nextBlock queue' h'))"

declare buildPostDominanceTree.simps [code]

definition initializeRoutineInfo ::
  "(block_id \<Rightarrow> addrint) \<Rightarrow> (addrint \<Rightarrow> string option) \<Rightarrow> cfg_ins list \<Rightarrow> graph result option" where
  "initializeRoutineInfo at rtn_name is =
     bind_opt (Some (BlockBuilder at rtn_name is (fold mapper is new_graph))) (\<lambda>g.
     bind_opt (buildPostDominanceTree (ReturnNode g) [] (heap g)) (\<lambda>h.
       Some (Inr (g\<lparr>heap := h\<rparr>))))"

section \<open>Instrumentation of branches and meeting points\<close>

text \<open>
  The calls that \<open>Controlflow\<close> inserts: at a conditional branch \<open>PushControl\<close> of its address,
  and at the address of its post-dominator \<open>PopControl\<close> of all branches that meet there, in
  the order of their addresses. Only an instruction of the routine gets calls.
\<close>

datatype control_call = Call_PushControl addrint | Call_PopControl "addrint list"

definition meeting_point :: "graph \<Rightarrow> cfg_ins \<Rightarrow> addrint option" where
  "meeting_point g ins =
     (if INS_IsCondBranch ins
      then (case addressMap g (INS_Address ins) of
              None \<Rightarrow> None
            | Some block \<Rightarrow> map_option (\<lambda>d. startingAddress (heap g d)) (PostDominator (heap g block)))
      else None)"

definition controls :: "graph \<Rightarrow> cfg_ins list \<Rightarrow> addrint \<Rightarrow> addrint list" where
  "controls g is =
     fold (\<lambda>ins c. case meeting_point g ins of
         None \<Rightarrow> c
       | Some a \<Rightarrow> c(a := insort_insert (INS_Address ins) (c a))) is (\<lambda>_. [])"

definition control_calls :: "graph \<Rightarrow> cfg_ins list \<Rightarrow> cfg_ins \<Rightarrow> control_call list" where
  "control_calls g is ins =
     (case meeting_point g ins of None \<Rightarrow> [] | Some _ \<Rightarrow> [Call_PushControl (INS_Address ins)]) @
     (case controls g is (INS_Address ins) of [] \<Rightarrow> [] | as \<Rightarrow> [Call_PopControl as])"

definition Controlflow ::
  "(block_id \<Rightarrow> addrint) \<Rightarrow> (addrint \<Rightarrow> string option) \<Rightarrow> bool \<Rightarrow> cfg_ins list \<Rightarrow>
   (cfg_ins \<times> control_call list) list result option" where
  "Controlflow at rtn_name shared_library is =
     (if shared_library then Some (Inr [])
      else bind_opt (initializeRoutineInfo at rtn_name is) (\<lambda>g.
        Some (Inr (map (\<lambda>i. (i, control_calls g is i)) is))))"

end
