(* ===== verification/Post_Dominance.thy ===== *)
theory Post_Dominance
  imports Routine_Graph
begin

text \<open>
  What \<open>buildPostDominanceTree\<close> computes. On the graph of a routine, whose blocks have at
  most two successors, it returns and never follows a null pointer; the blocks that reach
  the return block form a tree rooted there, and every post-dominator of a block is an
  ancestor of it in the tree. The converse fails: the parent of a block need not
  post-dominate it.
\<close>

section \<open>Paths and post-dominators\<close>

fun walk :: "(block_id \<times> block_id) set \<Rightarrow> block_id list \<Rightarrow> bool" where
  "walk E [] = False"
| "walk E [x] = True"
| "walk E (x # y # xs) = ((x, y) \<in> E \<and> walk E (y # xs))"

definition post_dominates :: "(block_id \<times> block_id) set \<Rightarrow> block_id \<Rightarrow> block_id \<Rightarrow> block_id \<Rightarrow> bool" where
  "post_dominates E R d b \<longleftrightarrow> (\<forall>ps. walk E (b # ps) \<and> last (b # ps) = R \<longrightarrow> d \<in> set (b # ps))"

definition strict_pd :: "(block_id \<times> block_id) set \<Rightarrow> block_id \<Rightarrow> block_id \<Rightarrow> block_id set" where
  "strict_pd E R b = {d. d \<noteq> b \<and> post_dominates E R d b}"

lemma strict_pd_return: "strict_pd E R R = {}"
proof -
  have "d = R" if "post_dominates E R d R" for d
    using that by (auto simp: post_dominates_def dest: spec [of _ "[]"])
  then show ?thesis by (auto simp: strict_pd_def)
qed

lemma strict_pd_edge:
  assumes "(p, c) \<in> E"
  shows "strict_pd E R p \<subseteq> insert c (strict_pd E R c)"
proof
  fix d assume d: "d \<in> strict_pd E R p"
  have "post_dominates E R d c"
    unfolding post_dominates_def
  proof (intro allI impI)
    fix ps assume "walk E (c # ps) \<and> last (c # ps) = R"
    then have "walk E (p # c # ps) \<and> last (p # c # ps) = R" using assms by simp
    then have "d \<in> set (p # c # ps)" using d unfolding strict_pd_def post_dominates_def by blast
    then show "d \<in> set (c # ps)" using d by (simp add: strict_pd_def)
  qed
  then show "d \<in> insert c (strict_pd E R c)" by (auto simp: strict_pd_def)
qed

section \<open>Ancestors\<close>

definition up :: "heap \<Rightarrow> block_id \<Rightarrow> block_id option" where
  "up h b = PostDominator (h b)"

definition parents :: "(block_id \<Rightarrow> block_id option) \<Rightarrow> (block_id \<times> block_id) set" where
  "parents f = {(b, u). f b = Some u}"

definition anc :: "(block_id \<Rightarrow> block_id option) \<Rightarrow> block_id \<Rightarrow> block_id set" where
  "anc f b = (parents f)\<^sup>* `` {b}"

definition sanc :: "(block_id \<Rightarrow> block_id option) \<Rightarrow> block_id \<Rightarrow> block_id set" where
  "sanc f b = (parents f)\<^sup>+ `` {b}"

lemma anc_sanc: "anc f b = insert b (sanc f b)"
  by (auto simp: anc_def sanc_def rtrancl_eq_or_trancl)

lemma sanc_Some: "f b = Some u \<Longrightarrow> sanc f b = anc f u"
  by (auto simp: anc_def sanc_def parents_def dest: tranclD intro: rtrancl_into_trancl2)

lemma sanc_None: "f b = None \<Longrightarrow> sanc f b = {}"
  by (auto simp: sanc_def parents_def dest: tranclD)

lemma anc_trans: "x \<in> anc f b \<Longrightarrow> y \<in> anc f x \<Longrightarrow> y \<in> anc f b"
  by (auto simp: anc_def)

lemma sanc_anc: "x \<in> anc f b \<Longrightarrow> y \<in> sanc f x \<Longrightarrow> y \<in> sanc f b"
  by (auto simp: anc_def sanc_def)

text \<open>
  A tree on the blocks \<open>T\<close> with root \<open>R\<close>: every other block has a parent in it with a smaller
  number.
\<close>

definition tree_ok :: "block_id set \<Rightarrow> block_id \<Rightarrow> (block_id \<Rightarrow> nat) \<Rightarrow> (block_id \<Rightarrow> block_id option) \<Rightarrow> bool" where
  "tree_ok T R num f \<longleftrightarrow> R \<in> T \<and> f R = None \<and>
     (\<forall>b \<in> T. b \<noteq> R \<longrightarrow> (\<exists>u \<in> T. f b = Some u \<and> num u < num b))"

lemma tree_cases:
  assumes "tree_ok T R num f" "b \<in> T"
  obtains (root) "b = R" "f b = None" | (parent) u where "b \<noteq> R" "u \<in> T" "f b = Some u" "num u < num b"
  using assms by (auto simp: tree_ok_def)

lemma tree_anc:
  assumes "tree_ok T R num f" "b \<in> T"
  shows "R \<in> anc f b \<and> anc f b \<subseteq> T \<and> (\<forall>x \<in> sanc f b. num x < num b)"
  using assms(2)
proof (induction "num b" arbitrary: b rule: less_induct)
  case less
  from assms(1) less.prems show ?case
  proof (cases rule: tree_cases)
    case root
    then show ?thesis using less.prems by (simp add: anc_sanc sanc_None)
  next
    case (parent u)
    from less.hyps [OF parent(4,2)] parent show ?thesis
      using less.prems by (auto simp: anc_sanc [of f b] sanc_Some) (auto simp: anc_sanc)
  qed
qed

lemmas tree_root_anc = tree_anc [THEN conjunct1]
lemmas tree_anc_sub = tree_anc [THEN conjunct2, THEN conjunct1]

lemma tree_sanc_less: "tree_ok T R num f \<Longrightarrow> b \<in> T \<Longrightarrow> x \<in> sanc f b \<Longrightarrow> num x < num b"
  using tree_anc by blast

lemma tree_not_sanc: "tree_ok T R num f \<Longrightarrow> b \<in> T \<Longrightarrow> b \<notin> sanc f b"
  using tree_sanc_less by blast

text \<open>Two ancestors of a block are ancestors of each other.\<close>

lemma tree_linear:
  assumes "tree_ok T R num f" "b \<in> T" "x \<in> anc f b" "y \<in> anc f b"
  shows "y \<in> anc f x \<or> x \<in> sanc f y"
  using assms(2-4)
proof (induction "num b" arbitrary: b rule: less_induct)
  case less
  from assms(1) less.prems(1) show ?case
  proof (cases rule: tree_cases)
    case root
    then show ?thesis using less.prems by (simp add: anc_sanc sanc_None)
  next
    case (parent u)
    have s: "sanc f b = anc f u" using parent(3) by (rule sanc_Some)
    show ?thesis
    proof (cases "x = b \<or> y = b")
      case True
      then show ?thesis using less.prems(2,3) s by (auto simp: anc_sanc [of f b])
    next
      case False
      then show ?thesis
        using less.hyps [OF parent(4,2)] less.prems(2,3) s by (auto simp: anc_sanc [of f b])
    qed
  qed
qed

section \<open>The three walks\<close>

definition map_blocks :: "block_id set \<Rightarrow> (block_map \<Rightarrow> block_map) \<Rightarrow> heap \<Rightarrow> heap" where
  "map_blocks A f h = (\<lambda>x. if x \<in> A then postDominated_update f (h x) else h x)"

lemma map_blocks_sel [simp]:
  "startingAddress (map_blocks A f h x) = startingAddress (h x)"
  "PostDominator (map_blocks A f h x) = PostDominator (h x)"
  "isPostDominated (map_blocks A f h x) = isPostDominated (h x)"
  "predecessors (map_blocks A f h x) = predecessors (h x)"
  "up (map_blocks A f h) = up h"
  by (simp_all add: map_blocks_def up_def fun_eq_iff)

lemma map_blocks_empty: "map_blocks {} f h = h"
  by (simp add: map_blocks_def)

lemma map_blocks_insert:
  "b \<notin> A \<Longrightarrow> map_blocks A f (upd b (postDominated_update f) h) = map_blocks (insert b A) f h"
  by (auto simp: map_blocks_def upd_def fun_eq_iff)

lemma upd_map_blocks: "upd b (postDominated_update f) h = map_blocks {b} f h"
  by (auto simp: map_blocks_def upd_def fun_eq_iff)

lemma postDominated_map_blocks [simp]:
  "postDominated (map_blocks A f h x) = (if x \<in> A then f (postDominated (h x)) else postDominated (h x))"
  by (simp add: map_blocks_def)

text \<open>Only the return block has the starting address 2.\<close>

definition one_return :: "block_id set \<Rightarrow> block_id \<Rightarrow> heap \<Rightarrow> bool" where
  "one_return T R h \<longleftrightarrow> (\<forall>b \<in> T. startingAddress (h b) = 2 \<longleftrightarrow> b = R)"

lemma passDown_ok:
  assumes "tree_ok T R num (up h)" "one_return T R h" "b \<in> T"
    and "k = startingAddress (h c)"
  shows "passDownPostDominanceInfo c h b =
    Some (Inr (map_blocks (anc (up h) b) (\<lambda>m. m(k \<mapsto> Some c)) h))"
  using assms
proof (induction "num b" arbitrary: b h rule: less_induct)
  case less
  let ?f = "\<lambda>m :: block_map. m(k \<mapsto> Some c)"
  let ?h = "upd b (postDominated_update ?f) h"
  have h: "up ?h = up h" "startingAddress (?h x) = startingAddress (h x)" for x
    by (simp_all add: upd_map_blocks)
  from less.prems(1,3) show ?case
  proof (cases rule: tree_cases)
    case root
    then have "startingAddress (?h b) = 2" using less.prems(2,3) h by (simp add: one_return_def)
    then show ?thesis
      using less.prems(4) root(2)
      by (subst passDownPostDominanceInfo.simps)
        (simp add: Let_def anc_sanc sanc_None, simp add: upd_map_blocks)
  next
    case (parent u)
    have n: "startingAddress (?h b) \<noteq> 2"
      using less.prems(2,3) h parent(1) by (simp add: one_return_def)
    have p: "PostDominator (?h b) = Some u" using parent(3) h(1) by (metis up_def)
    have ih: "passDownPostDominanceInfo c ?h u = Some (Inr (map_blocks (anc (up ?h) u) ?f ?h))"
      using less.prems parent h by (intro less.hyps) (simp_all add: one_return_def)
    have b: "b \<notin> anc (up h) u"
      using tree_not_sanc [OF less.prems(1,3)] parent(3) by (simp add: sanc_Some)
    have "passDownPostDominanceInfo c h b = passDownPostDominanceInfo c ?h u"
      using n p less.prems(4) by (subst passDownPostDominanceInfo.simps) (simp add: Let_def)
    also have "\<dots> = Some (Inr (map_blocks (insert b (anc (up h) u)) ?f h))"
      using ih b h(1) by (simp add: map_blocks_insert)
    finally show ?thesis using parent(3) by (simp add: anc_sanc [of "up h" b] sanc_Some)
  qed
qed

lemma deleteDown_ok:
  assumes "tree_ok T R num (up h)" "inj_on (\<lambda>x. startingAddress (h x)) T" "b \<in> T"
    and "new \<in> anc (up h) b"
  shows "deleteDownPostDominanceInfo del k (startingAddress (h new)) h b =
    Some (Inr (map_blocks {x \<in> anc (up h) b. new \<in> sanc (up h) x} (erase_keys del k) h))"
  using assms
proof (induction "num b" arbitrary: b h rule: less_induct)
  case less
  let ?f = "erase_keys del k"
  let ?h = "upd b (postDominated_update ?f) h"
  let ?D = "\<lambda>b. {x \<in> anc (up h) b. new \<in> sanc (up h) x}"
  have h: "up ?h = up h" "startingAddress (?h x) = startingAddress (h x)" for x
    by (simp_all add: upd_map_blocks)
  have T: "new \<in> T" using tree_anc_sub [OF less.prems(1,3)] less.prems(4) by blast
  show ?case
  proof (cases "new = b")
    case True
    have "?D b = {}"
      using tree_not_sanc [OF less.prems(1,3)] sanc_anc [of _ "up h" b b] True by auto
    then have "map_blocks (?D b) ?f h = h" by (simp only: map_blocks_empty)
    moreover have "deleteDownPostDominanceInfo del k (startingAddress (h b)) h b = Some (Inr h)"
      by (subst deleteDownPostDominanceInfo.simps) simp
    ultimately show ?thesis using True by simp
  next
    case False
    then have n: "startingAddress (h b) \<noteq> startingAddress (h new)"
      using less.prems(2,3) T by (auto dest: inj_onD)
    have new: "new \<in> sanc (up h) b" using less.prems(4) False by (simp add: anc_sanc)
    then obtain u where u: "up h b = Some u" "u \<in> T" "num u < num b"
      using less.prems(1,3) by (auto elim: tree_cases simp: sanc_None)
    have p: "PostDominator (?h b) = Some u" using u(1) h(1) by (metis up_def)
    have "deleteDownPostDominanceInfo del k (startingAddress (?h new)) ?h u =
        Some (Inr (map_blocks {x \<in> anc (up ?h) u. new \<in> sanc (up ?h) x} ?f ?h))"
      using less.prems u h new by (intro less.hyps) (simp_all add: sanc_Some)
    moreover have "deleteDownPostDominanceInfo del k (startingAddress (h new)) h b =
        deleteDownPostDominanceInfo del k (startingAddress (?h new)) ?h u"
      using n p h(2) by (subst deleteDownPostDominanceInfo.simps) (simp add: Let_def)
    moreover have "b \<notin> anc (up h) u"
      using tree_not_sanc [OF less.prems(1,3)] u(1) by (simp add: sanc_Some)
    then have "map_blocks {x \<in> anc (up ?h) u. new \<in> sanc (up ?h) x} ?f ?h =
        map_blocks (insert b (?D u)) ?f h"
      by (simp add: h(1) map_blocks_insert)
    moreover have "insert b (?D u) = ?D b"
      using u(1) new by (auto simp: anc_sanc [of "up h" b] sanc_Some)
    ultimately show ?thesis by simp
  qed
qed

lemma getCommon_ok:
  assumes "tree_ok T R num (up h)" "one_return T R h" "b \<in> T"
    and "k = startingAddress (h s)"
  shows "\<exists>new. getCommonPostDominator s h b =
      Some (Inr (new, map_blocks {x \<in> anc (up h) b. new \<in> anc (up h) x} (read_key k) h)) \<and>
    new \<in> anc (up h) b \<and> (holds_key (postDominated (h new)) k \<or> new = R) \<and>
    (\<forall>x \<in> anc (up h) b. holds_key (postDominated (h x)) k \<longrightarrow> x \<in> anc (up h) new)"
  using assms
proof (induction "num b" arbitrary: b h rule: less_induct)
  case less
  let ?f = "read_key k"
  let ?h = "upd b (postDominated_update ?f) h"
  let ?D = "\<lambda>b new. {x \<in> anc (up h) b. new \<in> anc (up h) x}"
  have h: "up ?h = up h" "startingAddress (?h x) = startingAddress (h x)" for x
    by (simp_all add: upd_map_blocks)
  have R: "startingAddress (?h b) = 2 \<longleftrightarrow> b = R"
    using less.prems(2,3) h(2) by (simp add: one_return_def)
  show ?case
  proof (cases "holds_key (postDominated (h b)) k \<or> b = R")
    case True
    have "?D b b = {b}"
      using tree_not_sanc [OF less.prems(1,3)] sanc_anc [of _ "up h" b b]
      by (auto simp: anc_sanc)
    then have "getCommonPostDominator s h b = Some (Inr (b, map_blocks (?D b b) ?f h))"
      using True R less.prems(4)
      by (subst getCommonPostDominator.simps) (auto simp: Let_def upd_map_blocks)
    then show ?thesis using True by (intro exI [of _ b]) (auto simp: anc_sanc)
  next
    case False
    then obtain u where u: "up h b = Some u" "u \<in> T" "num u < num b"
      using less.prems(1,3) by (auto elim: tree_cases)
    have p: "PostDominator (?h b) = Some u" using u(1) h(1) by (metis up_def)
    have b: "b \<notin> anc (up h) u"
      using tree_not_sanc [OF less.prems(1,3)] u(1) by (simp add: sanc_Some)
    have ab: "anc (up h) b = insert b (anc (up h) u)"
      using u(1) by (simp add: anc_sanc [of "up h" b] sanc_Some)
    have "tree_ok T R num (up ?h)" "one_return T R ?h" "k = startingAddress (?h s)"
      using less.prems h by (simp_all add: one_return_def)
    from less.hyps [OF u(3) this(1,2) u(2) this(3)] obtain new where
      new: "getCommonPostDominator s ?h u = Some (Inr (new, map_blocks (?D u new) ?f ?h))"
        "new \<in> anc (up h) u" "holds_key (postDominated (?h new)) k \<or> new = R"
        "\<forall>x \<in> anc (up h) u. holds_key (postDominated (?h x)) k \<longrightarrow> x \<in> anc (up h) new"
      by (auto simp: h(1))
    have eq: "postDominated (?h x) = postDominated (h x)" if "x \<in> anc (up h) u" for x
      using that b by (auto simp: upd_def)
    have "getCommonPostDominator s h b = getCommonPostDominator s ?h u"
      using False R p less.prems(4)
      by (subst getCommonPostDominator.simps) (simp add: Let_def)
    also have "\<dots> = Some (Inr (new, map_blocks (insert b (?D u new)) ?f h))"
      using new(1) b by (simp add: map_blocks_insert)
    also have "insert b (?D u new) = ?D b new"
      using ab new(2) by auto
    finally show ?thesis
      using new(2-4) eq ab False by (intro exI [of _ new]) auto
  qed
qed
section \<open>Changing one parent\<close>

lemma anc_agree:
  assumes "\<And>x. x \<in> anc f b \<Longrightarrow> g x = f x"
  shows "anc g b = anc f b" "sanc g b = sanc f b"
proof -
  have le: "(b, y) \<in> (parents f)\<^sup>* \<Longrightarrow> (b, y) \<in> (parents g)\<^sup>*" for y
  proof (induction rule: rtrancl_induct)
    case (step y z)
    then have "g y = f y" using assms by (simp add: anc_def)
    then show ?case using step by (auto simp: parents_def intro: rtrancl_into_rtrancl)
  qed simp
  have ge: "(b, y) \<in> (parents g)\<^sup>* \<Longrightarrow> (b, y) \<in> (parents f)\<^sup>*" for y
  proof (induction rule: rtrancl_induct)
    case (step y z)
    then have "g y = f y" using assms by (simp add: anc_def)
    then show ?case using step by (auto simp: parents_def intro: rtrancl_into_rtrancl)
  qed simp
  show a: "anc g b = anc f b" using le ge by (auto simp: anc_def)
  have t: "(b, y) \<in> (parents g)\<^sup>+ \<longleftrightarrow> (b, y) \<in> (parents f)\<^sup>+" for y
  proof -
    have "(b, y) \<in> (parents k)\<^sup>+ \<longleftrightarrow> (\<exists>x. (b, x) \<in> (parents k)\<^sup>* \<and> k x = Some y)" for k
      by (auto simp: parents_def dest: tranclD2 intro: rtrancl_into_trancl1)
    moreover have "(b, x) \<in> (parents f)\<^sup>* \<Longrightarrow> g x = f x" for x
      using assms by (simp add: anc_def)
    ultimately show ?thesis using le ge by metis
  qed
  show "sanc g b = sanc f b" using t by (auto simp: sanc_def)
qed

text \<open>A new leaf leaves the ancestors of the others as they were.\<close>

lemma tree_leaf:
  assumes "tree_ok T R num f" "p \<notin> T" "c \<in> T"
  shows "tree_ok (insert p T) R (num(p := Suc (num c))) (f(p \<mapsto> c))"
    and "\<And>b. b \<in> T \<Longrightarrow> anc (f(p \<mapsto> c)) b = anc f b \<and> sanc (f(p \<mapsto> c)) b = sanc f b"
    and "sanc (f(p \<mapsto> c)) p = anc f c"
proof -
  show "tree_ok (insert p T) R (num(p := Suc (num c))) (f(p \<mapsto> c))"
    unfolding tree_ok_def
  proof (intro conjI ballI impI)
    show "R \<in> insert p T" "(f(p \<mapsto> c)) R = None" using assms by (auto simp: tree_ok_def)
    fix b assume b: "b \<in> insert p T" "b \<noteq> R"
    show "\<exists>u\<in>insert p T. (f(p \<mapsto> c)) b = Some u \<and> (num(p := Suc (num c))) u < (num(p := Suc (num c))) b"
    proof (cases "b = p")
      case True
      then show ?thesis using assms by auto
    next
      case False
      then obtain u where "u \<in> T" "f b = Some u" "num u < num b"
        using b assms(1) by (auto simp: tree_ok_def)
      then show ?thesis using False assms(2) by (intro bexI [of _ u]) auto
    qed
  qed
  have same: "anc (f(p \<mapsto> c)) b = anc f b \<and> sanc (f(p \<mapsto> c)) b = sanc f b" if "b \<in> T" for b
  proof -
    have "x \<in> anc f b \<Longrightarrow> (f(p \<mapsto> c)) x = f x" for x
      using tree_anc_sub [OF assms(1) that] assms(2) by auto
    then show ?thesis using anc_agree [of f b "f(p \<mapsto> c)"] by blast
  qed
  then show "\<And>b. b \<in> T \<Longrightarrow> anc (f(p \<mapsto> c)) b = anc f b \<and> sanc (f(p \<mapsto> c)) b = sanc f b" .
  show "sanc (f(p \<mapsto> c)) p = anc f c" using same [OF assms(3)] by (simp add: sanc_Some)
qed

lemma tree_antisym:
  "tree_ok T R num f \<Longrightarrow> y \<in> T \<Longrightarrow> x \<in> anc f y \<Longrightarrow> y \<in> anc f x \<Longrightarrow> x = y"
  using tree_not_sanc [of T R num f y] sanc_anc [of x f y y] by (auto simp: anc_sanc)

text \<open>
  Moving \<open>p\<close> from its parent \<open>c\<close> up to \<open>new\<close> cuts the blocks from \<open>c\<close> to below \<open>new\<close> out of the
  ancestors of whatever is at or below \<open>p\<close>.
\<close>

lemma tree_move:
  assumes t: "tree_ok T R num f" and p: "p \<in> T" "f p = Some c" and new: "new \<in> anc f c"
  defines "D \<equiv> {x \<in> anc f c. new \<in> sanc f x}"
  shows "tree_ok T R num (f(p \<mapsto> new))"
    and "\<And>b. b \<in> T \<Longrightarrow> anc (f(p \<mapsto> new)) b = anc f b - (if p \<in> anc f b then D else {})"
    and "\<And>b. b \<in> T \<Longrightarrow> sanc (f(p \<mapsto> new)) b = sanc f b - (if p \<in> anc f b then D else {})"
proof -
  have pR: "p \<noteq> R" and c: "c \<in> T" and sp: "sanc f p = anc f c"
    using t p by (auto simp: tree_ok_def sanc_Some)
  have nT: "new \<in> T" "num new < num p"
    using tree_anc_sub [OF t c] tree_sanc_less [OF t p(1)] new sp by auto
  show t': "tree_ok T R num (f(p \<mapsto> new))"
    using t nT pR by (auto simp: tree_ok_def)
  have pD: "p \<notin> anc f c" using tree_not_sanc [OF t p(1)] sp by simp
  have cut: "anc f c - D = anc f new"
    using tree_linear [OF t c new] anc_trans [OF new] tree_not_sanc [OF t nT(1)] sanc_anc [of _ f new new]
    by (auto simp: D_def anc_sanc [of f new] dest: sanc_anc)
  have np: "p \<notin> anc f new" using pD cut by blast
  have new': "anc (f(p \<mapsto> new)) new = anc f new"
    by (rule anc_agree(1)) (use np in auto)
  show A: "anc (f(p \<mapsto> new)) b = anc f b - (if p \<in> anc f b then D else {})" if "b \<in> T" for b
    using that
  proof (induction "num b" arbitrary: b rule: less_induct)
    case less
    show ?case
    proof (cases "b = p")
      case True
      have "anc (f(p \<mapsto> new)) p = insert p (anc f new)"
        using new' by (simp add: anc_sanc [of _ p] sanc_Some)
      also have "\<dots> = insert p (anc f c) - D" using cut pD by (auto simp: D_def)
      finally show ?thesis using True sp by (simp add: anc_sanc [of f p])
    next
      case False
      from t less.prems show ?thesis
      proof (cases rule: tree_cases)
        case root
        then show ?thesis using False by (simp add: anc_sanc sanc_None)
      next
        case (parent u)
        have b: "anc f b = insert b (anc f u)" using parent(3) by (simp add: anc_sanc [of f b] sanc_Some)
        have "b \<notin> D" if "p \<in> anc f u"
        proof
          assume "b \<in> D"
          then have "b \<in> sanc f p" using sp by (simp add: D_def)
          moreover have "p \<in> sanc f b" using that parent(3) by (simp add: sanc_Some)
          ultimately show False
            using sanc_anc [of p f b b] tree_not_sanc [OF t less.prems] by (auto simp: anc_sanc)
        qed
        moreover have "anc (f(p \<mapsto> new)) b = insert b (anc (f(p \<mapsto> new)) u)"
          using parent(3) False by (simp add: anc_sanc [of _ b] sanc_Some)
        ultimately show ?thesis
          using less.hyps [OF parent(4,2)] b False by (cases "p \<in> anc f u") (simp_all add: insert_Diff_if)
      qed
    qed
  qed
  show "sanc (f(p \<mapsto> new)) b = sanc f b - (if p \<in> anc f b then D else {})" if "b \<in> T" for b
  proof -
    have "sanc f b = anc f b - {b}" "sanc (f(p \<mapsto> new)) b = anc (f(p \<mapsto> new)) b - {b}"
      using tree_not_sanc [OF t that] tree_not_sanc [OF t' that] by (simp_all add: anc_sanc)
    then show ?thesis unfolding A [OF that] by blast
  qed
qed

end
