(* ===== verification/Build_Tree.thy ===== *)
theory Build_Tree
  imports Post_Dominance
begin

text \<open>
  \<open>buildPostDominanceTree\<close> (\<open>src/include/RoutineGraph.H\<close>) by its invariant: the parents form a
  tree, a block with an edge that is still to be visited is recorded in exactly its
  ancestors, and every post-dominator of a block is an ancestor of it. Visiting an edge
  either hangs a new leaf under the current block or moves a block up to a common ancestor.
\<close>

section \<open>The graph\<close>

definition flow :: "heap \<Rightarrow> (block_id \<times> block_id) set" where
  "flow h = {(p, c). p \<in> set (predecessors (h c))}"

text \<open>
  What the pass relies on: the blocks of a finite set \<open>V\<close> have distinct starting addresses, 2
  for the return block only; a block with an edge into \<open>V\<close> is in \<open>V\<close> and not the return
  block; no block has more than two edges out.
\<close>

definition graph_shape :: "block_id set \<Rightarrow> block_id \<Rightarrow> heap \<Rightarrow> bool" where
  "graph_shape V R h \<longleftrightarrow> finite V \<and> R \<in> V \<and> one_return V R h \<and>
     inj_on (\<lambda>b. startingAddress (h b)) V \<and>
     (\<forall>b \<in> V. distinct (predecessors (h b)) \<and> set (predecessors (h b)) \<subseteq> V - {R}) \<and>
     (\<forall>p. finite {c. (p, c) \<in> flow h} \<and> card {c. (p, c) \<in> flow h} \<le> 2)"

definition same_graph :: "heap \<Rightarrow> heap \<Rightarrow> bool" where
  "same_graph h h' \<longleftrightarrow>
     (\<forall>b. predecessors (h' b) = predecessors (h b) \<and> startingAddress (h' b) = startingAddress (h b))"

lemma same_graph_trans: "same_graph h h' \<Longrightarrow> same_graph h' h'' \<Longrightarrow> same_graph h h''"
  by (simp add: same_graph_def)

lemma graph_shape_same: "same_graph h h' \<Longrightarrow> graph_shape V R h' = graph_shape V R h"
  by (simp add: same_graph_def graph_shape_def one_return_def flow_def)

lemma flow_same: "same_graph h h' \<Longrightarrow> flow h' = flow h"
  by (simp add: same_graph_def flow_def)

lemma two_edges:
  assumes "graph_shape V R h" "(p, a) \<in> flow h" "(p, b) \<in> flow h" "a \<noteq> b"
    and "(p, c) \<in> flow h"
  shows "c = a \<or> c = b"
proof (rule ccontr)
  assume n: "\<not> (c = a \<or> c = b)"
  let ?C = "{c. (p, c) \<in> flow h}"
  have "card ?C \<le> 2" "finite ?C" using assms(1) by (auto simp: graph_shape_def)
  moreover have "{a, b, c} \<subseteq> ?C" using assms by simp
  ultimately have "card {a, b, c} \<le> 2" by (meson card_mono le_trans)
  then show False using n assms(4) by simp
qed

section \<open>The invariant\<close>

definition key_of :: "heap \<Rightarrow> block_id \<Rightarrow> block_id \<Rightarrow> block_id option option" where
  "key_of h x p = postDominated (h x) (startingAddress (h p))"

definition exact_keys :: "heap \<Rightarrow> block_id \<Rightarrow> bool" where
  "exact_keys h p \<longleftrightarrow> (\<forall>x. key_of h x p = (if x \<in> sanc (up h) p then Some (Some p) else None))"

definition keeps_post_dominators ::
  "(block_id \<times> block_id) set \<Rightarrow> block_id \<Rightarrow> block_id set \<Rightarrow> (block_id \<Rightarrow> block_id option) \<Rightarrow> bool" where
  "keeps_post_dominators E R T f \<longleftrightarrow>
     (\<forall>b \<in> T. \<forall>u. f b = Some u \<longrightarrow> strict_pd E R b \<subseteq> insert u (strict_pd E R u))"

text \<open>\<open>S\<close> is the set of the edges visited so far.\<close>

definition pd_inv ::
  "block_id set \<Rightarrow> block_id \<Rightarrow> block_id set \<Rightarrow> (block_id \<times> block_id) set \<Rightarrow> heap \<Rightarrow> bool" where
  "pd_inv V R T S h \<longleftrightarrow>
     graph_shape V R h \<and> (\<exists>num. tree_ok T R num (up h)) \<and> T \<subseteq> V \<and>
     (\<forall>b \<in> T. (b, R) \<in> (flow h)\<^sup>*) \<and>
     (\<forall>b. isPostDominated (h b) = 0 \<longleftrightarrow> up h b = None) \<and> (\<forall>b. b \<notin> T \<longrightarrow> up h b = None) \<and>
     S \<subseteq> flow h \<inter> T \<times> T \<and> (\<forall>b \<in> T - {R}. \<exists>c. (b, c) \<in> S) \<and>
     (\<forall>p \<in> V. (p \<in> T \<longrightarrow> (\<exists>c. (p, c) \<in> flow h - S)) \<longrightarrow> exact_keys h p) \<and>
     keeps_post_dominators (flow h) R T (up h)"

lemma strict_pd_passes:
  assumes t: "tree_ok T R num f" and k: "keeps_post_dominators E R T f"
    and "b \<in> T" "x \<in> anc f b" "d \<in> strict_pd E R b"
  shows "d \<in> strict_pd E R x \<or> x \<in> anc f d"
  using assms(3-)
proof (induction "num b" arbitrary: b rule: less_induct)
  case less
  from t less.prems(1) show ?case
  proof (cases rule: tree_cases)
    case root
    then show ?thesis using less.prems(3) by (simp add: strict_pd_return)
  next
    case (parent u)
    have "x = b \<or> x \<in> anc f u" using less.prems(2) parent(3) by (simp add: anc_sanc [of f b] sanc_Some)
    moreover have "d = u \<or> d \<in> strict_pd E R u"
      using k less.prems(1,3) parent(3) unfolding keeps_post_dominators_def by blast
    ultimately show ?thesis using less.hyps [OF parent(4,2)] less.prems(3) by blast
  qed
qed

lemma strict_pd_sanc:
  assumes t: "tree_ok T R num f" and k: "keeps_post_dominators E R T f"
    and "b \<in> T" "d \<in> strict_pd E R b"
  shows "d \<in> sanc f b"
  using assms(3-)
proof (induction "num b" arbitrary: b rule: less_induct)
  case less
  from t less.prems(1) show ?case
  proof (cases rule: tree_cases)
    case root
    then show ?thesis using less.prems(2) by (simp add: strict_pd_return)
  next
    case (parent u)
    have "d = u \<or> d \<in> strict_pd E R u"
      using k less.prems parent(3) unfolding keeps_post_dominators_def by blast
    then show ?thesis using less.hyps [OF parent(4,2)] parent(3) by (auto simp: sanc_Some anc_sanc)
  qed
qed

section \<open>Visiting an edge\<close>

text \<open>\<open>setPostDominator\<close> on the predecessor and \<open>addImmediatePostDominator\<close> on its new parent.\<close>

definition link :: "block_id \<Rightarrow> block_id \<Rightarrow> heap \<Rightarrow> heap" where
  "link c p h = addImmediatePostDominator (setPostDominator c p h) p c (setPostDominator c p h)"

lemma link_sel [simp]:
  "up (link c p h) = (up h)(p \<mapsto> c)"
  "startingAddress (link c p h b) = startingAddress (h b)"
  "predecessors (link c p h b) = predecessors (h b)"
  "postDominated (link c p h b) = postDominated (h b)"
  "isPostDominated (link c p h b) = (if b = p then 1 else isPostDominated (h b))"
  by (simp_all add: link_def addImmediatePostDominator_def setPostDominator_def upd_def up_def fun_eq_iff)

definition unlink :: "block_id \<Rightarrow> addrint \<Rightarrow> heap \<Rightarrow> heap" where
  "unlink b k = upd b (\<lambda>x. x\<lparr>immediatelyPostDominated := (immediatelyPostDominated x)(k := None)\<rparr>)"

lemma unlink_sel [simp]:
  "up (unlink c k h) = up h"
  "startingAddress (unlink c k h b) = startingAddress (h b)"
  "predecessors (unlink c k h b) = predecessors (h b)"
  "postDominated (unlink c k h b) = postDominated (h b)"
  "isPostDominated (unlink c k h b) = isPostDominated (h b)"
  by (simp_all add: unlink_def upd_def up_def fun_eq_iff)

lemma pd_invD:
  assumes "pd_inv V R T S h"
  shows "graph_shape V R h" "\<exists>num. tree_ok T R num (up h)" "T \<subseteq> V"
    "isPostDominated (h b) = 0 \<longleftrightarrow> up h b = None" "b \<notin> T \<Longrightarrow> up h b = None"
    "S \<subseteq> flow h" "S \<subseteq> T \<times> T" "b \<in> T \<Longrightarrow> b \<noteq> R \<Longrightarrow> \<exists>c. (b, c) \<in> S"
    "p \<in> V \<Longrightarrow> (p \<in> T \<Longrightarrow> \<exists>c. (p, c) \<in> flow h - S) \<Longrightarrow> exact_keys h p"
    "keeps_post_dominators (flow h) R T (up h)" "b \<in> T \<Longrightarrow> (b, R) \<in> (flow h)\<^sup>*"
  using assms by (auto simp: pd_inv_def)

lemma one_return_sub: "one_return V R h \<Longrightarrow> T \<subseteq> V \<Longrightarrow> one_return T R h"
  by (auto simp: one_return_def)

lemma edge_ends:
  assumes "graph_shape V R h" "(p, c) \<in> flow h" "c \<in> V"
  shows "p \<in> V" "p \<noteq> R"
  using assms by (auto simp: graph_shape_def flow_def)

lemma start_differs:
  "graph_shape V R h \<Longrightarrow> p \<in> V \<Longrightarrow> q \<in> V \<Longrightarrow> p \<noteq> q \<Longrightarrow> startingAddress (h p) \<noteq> startingAddress (h q)"
  by (auto simp: graph_shape_def dest: inj_onD)

lemma visit_leaf:
  assumes inv: "pd_inv V R T S h" and c: "c \<in> T" and e: "(p, c) \<in> flow h" and p: "p \<notin> T"
  shows "\<exists>h'. addPredecessorAsPostDominated c p h = Some (Inr h') \<and> same_graph h h' \<and>
    pd_inv V R (insert p T) (insert (p, c) S) h' "
proof -
  note I = pd_invD [OF inv]
  from I(2) obtain num where t: "tree_ok T R num (up h)" ..
  note leaf = tree_leaf [OF t p c]
  let ?k = "startingAddress (h p)"
  let ?f = "\<lambda>m :: block_map. m(?k \<mapsto> Some p)"
  let ?h = "link c p h"
  let ?h' = "map_blocks (anc (up h) c) ?f ?h"
  have shape: "graph_shape V R h" by (rule I(1))
  have pV: "p \<in> V" "p \<noteq> R" using edge_ends [OF shape e] c I(3) by auto
  have t': "tree_ok (insert p T) R (num(p := Suc (num c))) (up ?h)" using leaf(1) by simp
  have "passDownPostDominanceInfo p ?h c = Some (Inr (map_blocks (anc (up ?h) c) ?f ?h))"
  proof (rule passDown_ok [OF t'])
    show "one_return (insert p T) R ?h"
      using shape I(3) pV by (auto simp: graph_shape_def one_return_def)
  qed (use c in simp_all)
  moreover have "anc (up ?h) c = anc (up h) c" using leaf(2) [OF c] by simp
  ultimately have "addPredecessorAsPostDominated c p h = Some (Inr ?h')"
    using I(4) [of p] I(5) [OF p]
    by (simp add: addPredecessorAsPostDominated_def Let_def link_def)
  moreover have g: "same_graph h ?h'" by (simp add: same_graph_def)
  moreover have "pd_inv V R (insert p T) (insert (p, c) S) ?h'"
    unfolding pd_inv_def graph_shape_same [OF g] flow_same [OF g]
  proof (intro conjI allI impI ballI)
    show "graph_shape V R h" by (rule shape)
    show "\<exists>num. tree_ok (insert p T) R num (up ?h')" using t' by auto
    show "insert p T \<subseteq> V" using I(3) pV by simp
    show "b \<in> insert p T \<Longrightarrow> (b, R) \<in> (flow h)\<^sup>*" for b
      using I(11) c e by (auto intro: converse_rtrancl_into_rtrancl)
    show "isPostDominated (?h' b) = 0 \<longleftrightarrow> up ?h' b = None" for b using I(4) [of b] by simp
    show "b \<notin> insert p T \<Longrightarrow> up ?h' b = None" for b using I(5) [of b] by simp
    show "insert (p, c) S \<subseteq> flow h \<inter> insert p T \<times> insert p T" using I(6,7) e c by blast
    show "b \<in> insert p T - {R} \<Longrightarrow> \<exists>c'. (b, c') \<in> insert (p, c) S" for b using I(8) [of b] by auto
    show "keeps_post_dominators (flow h) R (insert p T) (up ?h')"
      using I(10) strict_pd_edge [OF e] p by (auto simp: keeps_post_dominators_def)
    fix q assume q: "q \<in> V" and left: "q \<in> insert p T \<longrightarrow> (\<exists>c'. (q, c') \<in> flow h - insert (p, c) S)"
    have old: "exact_keys h q" using I(9) [OF q] left by blast
    have k: "key_of ?h' x q = (if q = p \<and> x \<in> anc (up h) c then Some (Some p) else key_of h x q)" for x
      using start_differs [OF shape pV(1) q] by (auto simp: key_of_def)
    show "exact_keys ?h' q"
    proof (cases "q = p")
      case True
      have "sanc (up h) p = {}" using I(5) [OF p] by (simp add: sanc_None)
      then show ?thesis using k old leaf(3) True by (auto simp: exact_keys_def)
    next
      case False
      have "sanc (up ?h') q = sanc (up h) q"
      proof (cases "q \<in> T")
        case True
        then show ?thesis using leaf(2) by simp
      next
        case out: False
        then show ?thesis using I(5) [OF out] False by (simp add: sanc_None)
      qed
      then show ?thesis using k old False by (simp add: exact_keys_def)
    qed
  qed
  ultimately show ?thesis by blast
qed

lemma read_key_other [simp]: "k \<noteq> k' \<Longrightarrow> read_key k m k' = m k'"
  by (auto simp: read_key_def split: option.splits)

lemma holds_key_of: "holds_key (postDominated (h x)) (startingAddress (h p)) = (\<exists>q. key_of h x p = Some (Some q))"
  by (auto simp: holds_key_def key_of_def split: option.splits)

lemma exact_holds:
  "exact_keys h p \<Longrightarrow> holds_key (postDominated (h x)) (startingAddress (h p)) \<longleftrightarrow> x \<in> sanc (up h) p"
  by (auto simp: holds_key_of exact_keys_def)

text \<open>The search for a common post-dominator ends in an ancestor of both blocks.\<close>

lemma common_ancestor:
  assumes t: "tree_ok T R num (up h)" and o: "one_return T R h" and p: "p \<in> T" "p \<noteq> R" "c \<in> T"
    and x: "exact_keys h p"
  obtains new A where
    "getCommonPostDominator p h c = Some (Inr (new, map_blocks A (read_key (startingAddress (h p))) h))"
    "new \<in> sanc (up h) p"
    "\<And>d. d \<in> anc (up h) c \<Longrightarrow> d \<in> sanc (up h) p \<Longrightarrow> d \<in> anc (up h) new"
proof -
  obtain new where n:
    "getCommonPostDominator p h c = Some (Inr (new, map_blocks {x \<in> anc (up h) c. new \<in> anc (up h) x}
        (read_key (startingAddress (h p))) h))"
    "new \<in> sanc (up h) p \<or> new = R"
    "\<forall>d \<in> anc (up h) c. d \<in> sanc (up h) p \<longrightarrow> d \<in> anc (up h) new"
    using getCommon_ok [OF t o p(3) refl, of p] unfolding exact_holds [OF x] by blast
  moreover have "R \<in> sanc (up h) p" using tree_root_anc [OF t p(1)] p(2) by (simp add: anc_sanc)
  ultimately show thesis using that by blast
qed

text \<open>
  Moving a block to an ancestor that is below every common ancestor of it and of its other
  successor loses no post-dominator.
\<close>

lemma moved_keeps:
  assumes t: "tree_ok T R num f" and k: "keeps_post_dominators E R T f" and p: "p \<in> T" and c: "c \<in> T"
    and e: "(p, c) \<in> E" and u: "f p = Some u" "u \<in> T" and new: "new \<in> anc f u"
    and least: "\<And>d. d \<in> anc f c \<Longrightarrow> d \<in> sanc f p \<Longrightarrow> d \<in> anc f new"
  shows "keeps_post_dominators E R T (f(p \<mapsto> new))"
proof -
  have su: "sanc f p = anc f u" using u(1) by (rule sanc_Some)
  have "d = new \<or> d \<in> strict_pd E R new" if d: "d \<in> strict_pd E R p" for d
  proof -
    have dp: "d \<in> sanc f p" using strict_pd_sanc [OF t k p d] .
    have "d \<in> anc f c"
      using strict_pd_edge [OF e, of R] d strict_pd_sanc [OF t k c, of d] by (auto simp: anc_sanc)
    then have "d \<in> anc f new" using dp by (rule least)
    moreover have "new \<in> anc f p" using new su by (simp add: anc_sanc)
    then have "d \<in> strict_pd E R new \<or> new \<in> anc f d" using strict_pd_passes [OF t k p] d by blast
    moreover have "new \<in> T" using tree_anc_sub [OF t u(2)] new by blast
    ultimately show ?thesis using tree_antisym [OF t] by blast
  qed
  then show ?thesis using k unfolding keeps_post_dominators_def by auto
qed

lemma visit_move:
  assumes inv: "pd_inv V R T S h" and c: "c \<in> T" and e: "(p, c) \<in> flow h - S" and p: "p \<in> T"
  shows "\<exists>h'. addPredecessorAsPostDominated c p h = Some (Inr h') \<and> same_graph h h' \<and>
    pd_inv V R T (insert (p, c) S) h'"
proof -
  note I = pd_invD [OF inv]
  from I(2) obtain num where t: "tree_ok T R num (up h)" ..
  have shape: "graph_shape V R h" by (rule I(1))
  have pV: "p \<in> V" "p \<noteq> R" using edge_ends [OF shape, of p c] e c I(3) by auto
  have ex: "exact_keys h p" using I(9) [OF pV(1)] e by blast
  have ret: "one_return T R h" using shape I(3) by (auto simp: graph_shape_def one_return_def)
  let ?k = "startingAddress (h p)"
  obtain new A where
    common: "getCommonPostDominator p h c = Some (Inr (new, map_blocks A (read_key ?k) h))"
    and new: "new \<in> sanc (up h) p"
    and least: "\<And>d. d \<in> anc (up h) c \<Longrightarrow> d \<in> sanc (up h) p \<Longrightarrow> d \<in> anc (up h) new"
    using common_ancestor [OF t ret p pV(2) c ex] by blast
  obtain u where u: "up h p = Some u" "u \<in> T"
    using t p pV(2) by (auto simp: tree_ok_def)
  have su: "sanc (up h) p = anc (up h) u" using u(1) by (rule sanc_Some)
  note move = tree_move [OF t p u(1) new [unfolded su]]
  let ?D = "{x \<in> anc (up h) u. new \<in> sanc (up h) x}"
  let ?h2 = "unlink c ?k (map_blocks A (read_key ?k) h)"
  let ?del = "postDominated (?h2 p)"
  let ?h' = "link new p (map_blocks ?D (erase_keys ?del ?k) ?h2)"
  have up': "up ?h' = (up h)(p \<mapsto> new)" by simp
  have del: "deleteDownPostDominanceInfo ?del ?k (startingAddress (?h2 new)) ?h2 u =
      Some (Inr (map_blocks ?D (erase_keys ?del ?k) ?h2))"
  proof -
    have "inj_on (\<lambda>b. startingAddress (?h2 b)) T"
      using shape I(3) by (auto simp: graph_shape_def intro: inj_on_subset)
    then show ?thesis
      using deleteDown_ok [of T R num ?h2 u new ?del ?k] t u(2) new su by simp
  qed
  have "addPredecessorAsPostDominated c p h = Some (Inr ?h')"
    using I(4) [of p] u(1) common del
    by (simp add: addPredecessorAsPostDominated_def Let_def link_def up_def flip: unlink_def)
  moreover have g: "same_graph h ?h'" by (simp add: same_graph_def)
  moreover have "pd_inv V R T (insert (p, c) S) ?h'"
    unfolding pd_inv_def graph_shape_same [OF g] flow_same [OF g]
  proof (intro conjI allI impI ballI)
    show "graph_shape V R h" by (rule shape)
    show "\<exists>num. tree_ok T R num (up ?h')" using move(1) by auto
    show "T \<subseteq> V" by (rule I(3))
    show "b \<in> T \<Longrightarrow> (b, R) \<in> (flow h)\<^sup>*" for b by (rule I(11))
    show "isPostDominated (?h' b) = 0 \<longleftrightarrow> up ?h' b = None" for b using I(4) [of b] by simp
    show "b \<notin> T \<Longrightarrow> up ?h' b = None" for b using I(5) [of b] p by auto
    show "insert (p, c) S \<subseteq> flow h \<inter> T \<times> T" using I(6,7) e c p by blast
    show "b \<in> T - {R} \<Longrightarrow> \<exists>c'. (b, c') \<in> insert (p, c) S" for b using I(8) [of b] by auto
    show "keeps_post_dominators (flow h) R T (up ?h')"
      unfolding up' using moved_keeps [OF t I(10) p c _ u new [unfolded su] least] e by blast
    fix q assume q: "q \<in> V" and left: "q \<in> T \<longrightarrow> (\<exists>c'. (q, c') \<in> flow h - insert (p, c) S)"
    have old: "exact_keys h q" using I(9) [OF q] left by blast
    have qp: "q \<noteq> p"
    proof
      assume "q = p"
      then obtain c' where c': "(p, c') \<in> flow h" "(p, c') \<notin> S" "c' \<noteq> c" using left p by blast
      obtain c'' where "(p, c'') \<in> S" using I(8) [OF p pV(2)] ..
      then show False using two_edges [OF shape, of p c c' c''] c' e I(6) by blast
    qed
    have del_q: "?del (startingAddress (h q)) \<noteq> None \<longleftrightarrow> p \<in> sanc (up h) q"
      using start_differs [OF shape pV(1) q] qp old by (auto simp: exact_keys_def key_of_def)
    have k: "key_of ?h' x q = (if x \<in> ?D \<and> p \<in> sanc (up h) q then None else key_of h x q)" for x
      using start_differs [OF shape pV(1) q] qp del_q by (auto simp: key_of_def erase_keys_def)
    have s: "sanc (up ?h') q = sanc (up h) q - (if p \<in> sanc (up h) q then ?D else {})"
    proof (cases "q \<in> T")
      case True
      then show ?thesis using move(3) [OF True] qp by (simp add: anc_sanc)
    next
      case False
      then show ?thesis using I(5) [OF False] qp by (simp add: sanc_None)
    qed
    then show "exact_keys ?h' q" using k old by (auto simp: exact_keys_def)
  qed
  ultimately show ?thesis by blast
qed

section \<open>The search from the return block\<close>

lemma visit_edge:
  assumes inv: "pd_inv V R T S h" and c: "c \<in> T" and e: "(p, c) \<in> flow h - S"
  shows "\<exists>h'. addPredecessorAsPostDominated c p h = Some (Inr h') \<and> same_graph h h' \<and>
    pd_inv V R (insert p T) (insert (p, c) S) h'"
proof (cases "p \<in> T")
  case True
  then show ?thesis using visit_move [OF inv c e] by (simp add: insert_absorb)
next
  case False
  then show ?thesis using visit_leaf [OF inv c] e by blast
qed

lemma no_parent:
  assumes inv: "pd_inv V R T S h" and "p \<noteq> R"
  shows "PostDominator (h p) = None \<longleftrightarrow> p \<notin> T"
  using pd_invD(2,5) [OF inv] assms(2) by (auto simp: up_def tree_ok_def)

lemma visit_predecessors:
  assumes "pd_inv V R T S h" "c \<in> T" "distinct ps" "set ps \<times> {c} \<subseteq> flow h - S"
  shows "\<exists>h'. fold_opt (visit_predecessor c) ps (q, h) =
      Some (Inr (q @ filter (\<lambda>p. p \<notin> T) ps, h')) \<and> same_graph h h' \<and>
    pd_inv V R (T \<union> set ps) (S \<union> set ps \<times> {c}) h'"
  using assms
proof (induction ps arbitrary: T S h q)
  case Nil
  then show ?case by (simp add: same_graph_def)
next
  case (Cons p ps)
  have e: "(p, c) \<in> flow h - S" using Cons.prems(4) by auto
  have pR: "p \<noteq> R" using edge_ends pd_invD(1,3) [OF Cons.prems(1)] e Cons.prems(2) by blast
  obtain h1 where h1: "addPredecessorAsPostDominated c p h = Some (Inr h1)" "same_graph h h1"
    "pd_inv V R (insert p T) (insert (p, c) S) h1"
    using visit_edge [OF Cons.prems(1,2) e] by blast
  have "set ps \<times> {c} \<subseteq> flow h1 - insert (p, c) S"
    using Cons.prems(3,4) flow_same [OF h1(2)] by auto
  from Cons.IH [OF h1(3) _ _ this, of "if p \<in> T then q else q @ [p]"] obtain h2 where h2:
    "fold_opt (visit_predecessor c) ps (if p \<in> T then q else q @ [p], h1) =
       Some (Inr ((if p \<in> T then q else q @ [p]) @ filter (\<lambda>x. x \<notin> insert p T) ps, h2))"
    "same_graph h1 h2" "pd_inv V R (insert p T \<union> set ps) (insert (p, c) S \<union> set ps \<times> {c}) h2"
    using Cons.prems(2,3) by auto
  have f: "filter (\<lambda>x. x \<notin> insert p T) ps = filter (\<lambda>x. x \<notin> T) ps"
    using Cons.prems(3) by (intro filter_cong) auto
  have "visit_predecessor c p (q, h) = Some (Inr (if p \<in> T then q else q @ [p], h1))"
    using h1(1) no_parent [OF Cons.prems(1) pR] by (simp add: visit_predecessor_def)
  then show ?case
    using h2 f same_graph_trans [OF h1(2) h2(2)] by (auto simp: Sigma_Un_distrib1)
qed

text \<open>
  \<open>D\<close> are the blocks whose predecessors were visited; the current block and the queue are the
  other blocks of the tree.
\<close>

definition search_inv :: "block_id set \<Rightarrow> block_id \<Rightarrow> block_id set \<Rightarrow> block_id list \<Rightarrow> heap \<Rightarrow> bool" where
  "search_inv V R D bs h \<longleftrightarrow> pd_inv V R (D \<union> set bs) {(p, c) \<in> flow h. c \<in> D} h \<and>
     distinct bs \<and> D \<inter> set bs = {}"

lemma search_step:
  assumes inv: "search_inv V R D (c # q) h"
  shows "\<exists>q' h'. fold_opt (visit_predecessor c) (predecessors (h c)) (q, h) = Some (Inr (q', h')) \<and>
    same_graph h h' \<and> search_inv V R (insert c D) q' h'"
proof -
  let ?T = "D \<union> set (c # q)" and ?S = "{(p, b) \<in> flow h. b \<in> D}" and ?ps = "predecessors (h c)"
  have pd: "pd_inv V R ?T ?S h" and d: "distinct (c # q)" "D \<inter> set (c # q) = {}"
    using inv by (simp_all add: search_inv_def)
  note I = pd_invD [OF pd]
  have cV: "c \<in> V" using I(3) by auto
  have ps: "distinct ?ps" "set ?ps \<times> {c} \<subseteq> flow h - ?S"
    using I(1) cV d(2) by (auto simp: graph_shape_def flow_def)
  obtain h' where h':
    "fold_opt (visit_predecessor c) ?ps (q, h) = Some (Inr (q @ filter (\<lambda>p. p \<notin> ?T) ?ps, h'))"
    "same_graph h h'" "pd_inv V R (?T \<union> set ?ps) (?S \<union> set ?ps \<times> {c}) h'"
    using visit_predecessors [OF pd _ ps] by auto
  let ?q = "q @ filter (\<lambda>p. p \<notin> ?T) ?ps"
  have "?S \<union> set ?ps \<times> {c} = {(p, b) \<in> flow h'. b \<in> insert c D}"
    using cV flow_same [OF h'(2)] by (auto simp: flow_def)
  moreover have "?T \<union> set ?ps = insert c D \<union> set ?q" by auto
  ultimately have "search_inv V R (insert c D) ?q h'"
    using h'(3) d ps(1) by (auto simp: search_inv_def)
  then show ?thesis using h'(1,2) by blast
qed

lemma search_ends:
  assumes "search_inv V R D (c # q) h"
  shows "\<exists>D' h'. buildPostDominanceTree c q h = Some (Inr h') \<and> same_graph h h' \<and>
    search_inv V R D' [] h'"
  using assms
proof (induction "card (V - D)" arbitrary: D c q h rule: less_induct)
  case less
  obtain q' h1 where s: "fold_opt (visit_predecessor c) (predecessors (h c)) (q, h) = Some (Inr (q', h1))"
    "same_graph h h1" "search_inv V R (insert c D) q' h1"
    using search_step [OF less.prems] by blast
  show ?case
  proof (cases q')
    case Nil
    then have "buildPostDominanceTree c q h = Some (Inr h1)"
      using s(1) by (subst buildPostDominanceTree.simps) simp
    then show ?thesis using s Nil by blast
  next
    case (Cons b q'')
    have "pd_inv V R (D \<union> set (c # q)) {(p, c) \<in> flow h. c \<in> D} h" "c \<notin> D"
      using less.prems by (auto simp: search_inv_def)
    then have "finite V" "c \<in> V - D" using pd_invD(1,3) by (fastforce simp: graph_shape_def)+
    then have "card (V - insert c D) < card (V - D)"
      by (intro psubset_card_mono) auto
    from less.hyps [OF this s(3) [unfolded Cons]] obtain D' h' where
      "buildPostDominanceTree b q'' h1 = Some (Inr h')" "same_graph h1 h'" "search_inv V R D' [] h'"
      by blast
    moreover have "buildPostDominanceTree c q h = buildPostDominanceTree b q'' h1"
      using s(1) Cons by (subst buildPostDominanceTree.simps) simp
    ultimately show ?thesis using same_graph_trans [OF s(2)] by metis
  qed
qed

section \<open>The result\<close>

definition untouched :: "heap \<Rightarrow> bool" where
  "untouched h \<longleftrightarrow> (\<forall>b. PostDominator (h b) = None \<and> isPostDominated (h b) = 0 \<and>
     postDominated (h b) = Map.empty)"

lemma search_start:
  assumes "graph_shape V R h" "untouched h"
  shows "search_inv V R {} [R] h"
proof -
  have "up h b = None" "sanc (up h) b = {}" for b
    using assms(2) by (simp_all add: untouched_def up_def sanc_None)
  then show ?thesis
    using assms by (auto simp: search_inv_def pd_inv_def tree_ok_def exact_keys_def key_of_def
      untouched_def keeps_post_dominators_def graph_shape_def)
qed

text \<open>The blocks that reach the return block.\<close>

definition reaches :: "heap \<Rightarrow> block_id \<Rightarrow> block_id set" where
  "reaches h R = {b. (b, R) \<in> (flow h)\<^sup>*}"

lemma search_covers:
  assumes "search_inv V R D [] h"
  shows "D = reaches h R"
proof -
  have inv: "pd_inv V R D {(p, c) \<in> flow h. c \<in> D} h" using assms by (simp add: search_inv_def)
  note I = pd_invD [OF inv]
  have "b \<in> D" if "(b, R) \<in> (flow h)\<^sup>*" for b
    using that
  proof (induction rule: converse_rtrancl_induct)
    case base
    show ?case using I(2) by (auto simp: tree_ok_def)
  next
    case (step b c)
    then show ?case using I(7) by auto
  qed
  then show ?thesis using I(11) by (auto simp: reaches_def)
qed

lemma buildPostDominanceTree_ends:
  assumes "graph_shape V R h" "untouched h"
  obtains h' num where "buildPostDominanceTree R [] h = Some (Inr h')" "same_graph h h'"
    "tree_ok (reaches h R) R num (up h')" "keeps_post_dominators (flow h) R (reaches h R) (up h')"
    "\<And>b. b \<notin> reaches h R \<Longrightarrow> up h' b = None"
proof -
  obtain D h' where h': "buildPostDominanceTree R [] h = Some (Inr h')" "same_graph h h'"
    "search_inv V R D [] h'"
    using search_ends [OF search_start [OF assms]] by blast
  have D: "D = reaches h R"
    using search_covers [OF h'(3)] flow_same [OF h'(2)] by (simp add: reaches_def)
  have inv: "pd_inv V R D {(p, c) \<in> flow h'. c \<in> D} h'" using h'(3) by (simp add: search_inv_def)
  note I = pd_invD [OF inv]
  from I(2) obtain num where "tree_ok D R num (up h')" ..
  then show thesis using that [OF h'(1,2), of num] I(5,10) D flow_same [OF h'(2)] by simp
qed

end
