(* ===== verification/Block_Builder.thy ===== *)
theory Block_Builder
  imports Build_Tree
begin

text \<open>
  The first two passes of \<open>src/include/RoutineGraph.H\<close>: \<open>mapper\<close> records exactly the branches
  and their targets, and the graph that \<open>BlockBuilder\<close> builds has the shape that the search
  for post-dominators relies on. Together with the search: the three passes return on every
  routine that does not end in a call or a branch.
\<close>

section \<open>The first pass\<close>

text \<open>What an instruction contributes to \<open>branches\<close> and to \<open>targets\<close>.\<close>

definition fall_through :: "cfg_ins \<Rightarrow> addrint set" where
  "fall_through i = (if INS_HasFallThrough i then {INS_NextAddress i} else {})"

definition jumps :: "cfg_ins \<Rightarrow> addrint set" where
  "jumps i =
     (if INS_IsBranch i \<and> INS_IsDirectBranchOrCall i then {INS_DirectBranchOrCallTargetAddress i} else {}) \<union>
     (if INS_IsBranch i \<or> INS_IsCall i then fall_through i else {})"

definition branch_flags :: "cfg_ins \<Rightarrow> addrint set" where
  "branch_flags i =
     (if INS_IsBranch i \<and> \<not> INS_IsDirectBranchOrCall i then {5} else {}) \<union>
     (if INS_IsCall i then {if INS_IsDirectBranchOrCall i then 1 else 4} else {}) \<union>
     (if INS_IsRet i then {2} else {})"

lemma insert_marks [simp]:
  "set (branches (insert_branch x t g) a) = (if a = x then insert t (set (branches g a)) else set (branches g a))"
  "targets (insert_branch x t g) = targets g"
  "set (targets (insert_target t x g) a) = (if a = t then insert x (set (targets g a)) else set (targets g a))"
  "branches (insert_target t x g) = branches g"
  by (auto simp: insert_branch_def insert_target_def set_insort_insert)

lemma insert_fall_through_marks [simp]:
  "set (branches (insert_fall_through i g) a) =
     (if a = INS_Address i then fall_through i \<union> set (branches g a) else set (branches g a))"
  "set (targets (insert_fall_through i g) a) =
     (if a \<in> fall_through i then insert (INS_Address i) (set (targets g a)) else set (targets g a))"
  by (auto simp: insert_fall_through_def fall_through_def)

lemma mapper_marks:
  "set (branches (mapper i g) a) =
     (if a = INS_Address i then jumps i \<union> branch_flags i \<union> set (branches g a) else set (branches g a))"
  "set (targets (mapper i g) a) =
     (if a \<in> jumps i then insert (INS_Address i) (set (targets g a)) else set (targets g a))"
  by (auto simp: mapper_def Let_def jumps_def branch_flags_def)

lemma fold_mapper_marks:
  "set (branches (fold mapper is g) a) =
     set (branches g a) \<union> (\<Union>i \<in> {i \<in> set is. INS_Address i = a}. jumps i \<union> branch_flags i)"
  "set (targets (fold mapper is g) a) = set (targets g a) \<union> {INS_Address i | i. i \<in> set is \<and> a \<in> jumps i}"
  by (induction "is" arbitrary: g) (auto simp: mapper_marks)

definition sorted_marks :: "graph \<Rightarrow> bool" where
  "sorted_marks g \<longleftrightarrow> (\<forall>a. sorted (branches g a) \<and> distinct (branches g a) \<and>
     sorted (targets g a) \<and> distinct (targets g a))"

lemma sorted_marks_insert [intro]:
  "sorted_marks g \<Longrightarrow> sorted_marks (insert_branch x t g)"
  "sorted_marks g \<Longrightarrow> sorted_marks (insert_target t x g)"
  "sorted_marks g \<Longrightarrow> sorted_marks (insert_fall_through i g)"
  by (auto simp: sorted_marks_def insert_branch_def insert_target_def insert_fall_through_def
      sorted_insort_insert distinct_insort_insert)

lemma sorted_marks_mapper: "sorted_marks g \<Longrightarrow> sorted_marks (mapper i g)"
  by (auto simp: mapper_def Let_def intro!: sorted_marks_insert)

lemma sorted_marks_fold: "sorted_marks g \<Longrightarrow> sorted_marks (fold mapper is g)"
  by (induction "is" arbitrary: g) (simp_all add: sorted_marks_mapper)

lemma mapper_rest [simp]:
  "heap (mapper i g) = heap g" "next_block (mapper i g) = next_block g"
  "addressMap (mapper i g) = addressMap g" "allBlocks (mapper i g) = allBlocks g"
  by (auto simp: mapper_def Let_def insert_fall_through_def insert_branch_def insert_target_def)

lemma fold_mapper_rest [simp]:
  "heap (fold mapper is g) = heap g" "next_block (fold mapper is g) = next_block g"
  "addressMap (fold mapper is g) = addressMap g" "allBlocks (fold mapper is g) = allBlocks g"
  by (induction "is" arbitrary: g) simp_all

section \<open>The second pass\<close>

text \<open>
  \<open>P\<close> are the addresses of the instructions already in a block, \<open>V\<close> the blocks that have
  been started, with the return block \<open>R\<close>; \<open>d\<close> bounds the edges out of each block. The entry
  of an address that is still to come is a block of its own that has not been started.
\<close>

definition started :: "block_id \<Rightarrow> addrint set \<Rightarrow> block_id set \<Rightarrow> graph \<Rightarrow> bool" where
  "started R P V g \<longleftrightarrow> R \<in> V \<and> V \<subseteq> {..<next_block g} \<and> one_return V R (heap g) \<and>
     inj_on (\<lambda>b. startingAddress (heap g b)) V \<and> (\<forall>b \<in> V - {R}. startingAddress (heap g b) \<in> P) \<and> 2 \<notin> P"

definition mapped :: "block_id \<Rightarrow> addrint set \<Rightarrow> block_id set \<Rightarrow> graph \<Rightarrow> bool" where
  "mapped R P V g \<longleftrightarrow> addressMap g 2 = Some R \<and>
     (\<forall>a b. addressMap g a = Some b \<longrightarrow> b < next_block g \<and>
       (a \<notin> insert 2 P \<longrightarrow> b \<notin> V \<and> (\<forall>a'. addressMap g a' = Some b \<longrightarrow> a' = a)))"

definition linked :: "block_id \<Rightarrow> block_id set \<Rightarrow> (block_id \<Rightarrow> nat) \<Rightarrow> graph \<Rightarrow> bool" where
  "linked R V d g \<longleftrightarrow>
     (\<forall>c. distinct (predecessors (heap g c)) \<and> set (predecessors (heap g c)) \<subseteq> V - {R}) \<and>
     (\<forall>c \<ge> next_block g. predecessors (heap g c) = []) \<and>
     (\<forall>p. card {c. (p, c) \<in> flow (heap g)} \<le> d p)"

definition builds :: "block_id \<Rightarrow> addrint set \<Rightarrow> block_id set \<Rightarrow> (block_id \<Rightarrow> nat) \<Rightarrow> graph \<Rightarrow> bool" where
  "builds R P V d g \<longleftrightarrow> started R P V g \<and> mapped R P V g \<and> linked R V d g \<and> untouched (heap g)"

lemmas builds_defs = builds_def started_def mapped_def linked_def

lemma on_heap_sel [simp]:
  "heap (on_heap f g) = f (heap g)" "next_block (on_heap f g) = next_block g"
  "addressMap (on_heap f g) = addressMap g" "branches (on_heap f g) = branches g"
  "targets (on_heap f g) = targets g" "allBlocks (on_heap f g) = allBlocks g"
  by (simp_all add: on_heap_def)

lemma on_heap_id: "on_heap id g = g"
  by (simp add: on_heap_def)

text \<open>Writes that leave the edges, the post-dominators and the starting addresses alone.\<close>

definition quiet :: "(heap \<Rightarrow> heap) \<Rightarrow> bool" where
  "quiet f \<longleftrightarrow> (\<forall>h. same_graph h (f h) \<and> (untouched h \<longrightarrow> untouched (f h)))"

lemma quiet_writes [simp]:
  "quiet (setEnding a b)" "quiet (setRoutineCalled n b)" "quiet (setAsEntryNode b)" "quiet (insertSuccs at c b)"
  by (auto simp: quiet_def same_graph_def untouched_def upd_def setEnding_def setRoutineCalled_def
      setAsEntryNode_def insertSuccs_def)

lemma mappedD:
  assumes "mapped R P V g" "addressMap g a = Some b"
  shows "b < next_block g" "a \<notin> insert 2 P \<Longrightarrow> b \<notin> V"
    "a \<notin> insert 2 P \<Longrightarrow> addressMap g a' = Some b \<Longrightarrow> a' = a"
  using assms unfolding mapped_def by blast+

lemma builds_cong:
  assumes b: "builds R P V d g" and n: "next_block g \<le> next_block g'"
    and m: "addressMap g' = addressMap g"
    and p: "\<And>c. predecessors (heap g' c) = predecessors (heap g c)"
    and s: "\<And>c. c \<in> V \<Longrightarrow> startingAddress (heap g' c) = startingAddress (heap g c)"
    and u: "untouched (heap g')"
  shows "builds R P V d g'"
proof -
  have "started R P V g'" using b n s by (auto simp: builds_defs one_return_def inj_on_def)
  moreover have "mapped R P V g'"
    using b n m mappedD(1) [of R P V g] unfolding builds_def mapped_def by (metis less_le_trans)
  moreover have "linked R V d g'" using b n p by (auto simp: builds_defs flow_def)
  ultimately show ?thesis using u by (simp add: builds_def)
qed

lemma builds_quiet:
  assumes "quiet f" "builds R P V d g"
  shows "builds R P V d (on_heap f g)"
  using assms(1)
  by (intro builds_cong [OF assms(2)]) (use assms(2) in \<open>auto simp: quiet_def same_graph_def builds_def\<close>)

lemma builds_setStarting:
  assumes "builds R P V d g" "b \<notin> V"
  shows "builds R P V d (on_heap (setStarting a b) g)"
  by (rule builds_cong [OF assms(1)])
    (use assms in \<open>auto simp: setStarting_def upd_def untouched_def builds_def\<close>)

lemma new_in_sel [simp]:
  "fst (new_in g) = next_block g" "next_block (snd (new_in g)) = Suc (next_block g)"
  "addressMap (snd (new_in g)) = addressMap g"
  "branches (snd (new_in g)) = branches g" "targets (snd (new_in g)) = targets g"
  by (simp_all add: new_in_def)

lemma builds_new:
  assumes "builds R P V d g"
  shows "builds R P V d (snd (new_in g))"
  by (rule builds_cong [OF assms])
    (use assms in \<open>auto simp: new_in_def new_BasicBlock_def builds_defs untouched_def\<close>)

lemma builds_old: "builds R P V d g \<Longrightarrow> b \<in> V \<Longrightarrow> b < next_block g"
  by (auto simp: builds_defs)

lemma builds_mapped:
  assumes "builds R P V d g" "a \<in> P" "b \<in> V"
  shows "builds R P V d (g\<lparr>addressMap := (addressMap g)(a \<mapsto> b)\<rparr>)"
  using assms by (auto simp: builds_defs)

lemma builds_P: "builds R P V d g \<Longrightarrow> P \<subseteq> P' \<Longrightarrow> 2 \<notin> P' \<Longrightarrow> builds R P' V d g"
  unfolding builds_defs by (intro conjI) blast+

lemma no_edge_out: "builds R P V d g \<Longrightarrow> p \<notin> V \<Longrightarrow> {c. (p, c) \<in> flow (heap g)} = {}"
  by (auto simp: builds_defs flow_def)

lemma builds_d:
  assumes "builds R P V d g" "\<And>p. p \<in> V \<Longrightarrow> d p \<le> d' p"
  shows "builds R P V d' g"
proof -
  have "card {c. (p, c) \<in> flow (heap g)} \<le> d' p" for p
  proof (cases "p \<in> V")
    case True
    have "card {c. (p, c) \<in> flow (heap g)} \<le> d p" using assms(1) by (simp add: builds_defs)
    then show ?thesis using assms(2) [OF True] by linarith
  next
    case False
    then show ?thesis using no_edge_out [OF assms(1)] by simp
  qed
  then show ?thesis using assms(1) by (simp add: builds_defs)
qed

lemma builds_start:
  assumes b: "builds R P V d g" and a: "addressMap g a = Some b" "a \<notin> insert 2 P"
  shows "builds R (insert a P) (insert b V) (d(b := 0)) (on_heap (setStarting a b) g)"
proof -
  have bV: "b \<notin> V" "b < next_block g" and u: "addressMap g a' = Some b \<Longrightarrow> a' = a" for a'
    using assms by (auto simp: builds_defs)
  let ?h = "setStarting a b (heap g)"
  have h: "startingAddress (?h x) = (if x = b then a else startingAddress (heap g x))"
    "predecessors (?h x) = predecessors (heap g x)" for x
    by (simp_all add: setStarting_def upd_def)
  have fl: "flow ?h = flow (heap g)" by (simp add: flow_def h)
  have "started R (insert a P) (insert b V) (on_heap (setStarting a b) g)"
  proof -
    have st: "started R P V g" using b by (simp add: builds_def)
    have "startingAddress (heap g x) \<noteq> a" if "x \<in> V" for x
      using st that a(2) by (cases "x = R") (auto simp: started_def one_return_def)
    then have "inj_on (\<lambda>x. startingAddress (?h x)) (insert b V)"
      using st bV(1) by (auto simp: started_def inj_on_def h)
    moreover have "one_return (insert b V) R ?h"
      using st bV(1) a(2) by (auto simp: started_def one_return_def h)
    moreover have "\<forall>x \<in> insert b V - {R}. startingAddress (?h x) \<in> insert a P"
      using st by (auto simp: started_def h)
    ultimately show ?thesis using st bV a(2) by (simp add: started_def)
  qed
  moreover have "mapped R (insert a P) (insert b V) (on_heap (setStarting a b) g)"
    unfolding mapped_def
  proof (intro conjI allI impI)
    have m: "mapped R P V g" using b by (simp add: builds_def)
    then show "addressMap (on_heap (setStarting a b) g) 2 = Some R" by (simp add: mapped_def)
    fix x y assume xy: "addressMap (on_heap (setStarting a b) g) x = Some y"
    then have xy': "addressMap g x = Some y" by simp
    show "y < next_block (on_heap (setStarting a b) g)" using mappedD(1) [OF m xy'] by simp
    assume x: "x \<notin> insert 2 (insert a P)"
    then show "y \<notin> insert b V" using mappedD(2) [OF m xy'] u xy' by blast
    show "x' = x" if "addressMap (on_heap (setStarting a b) g) x' = Some y" for x'
      using mappedD(3) [OF m xy', of x'] x that by simp
  qed
  moreover have "linked R (insert b V) (d(b := 0)) (on_heap (setStarting a b) g)"
    using b no_edge_out [OF b bV(1)] by (auto simp: builds_defs h fl)
  moreover have "untouched ?h"
    using b by (simp add: builds_def untouched_def setStarting_def upd_def)
  ultimately show ?thesis by (simp add: builds_def)
qed

lemma builds_edge:
  assumes b: "builds R P V d g" and p: "p \<in> V" "p \<noteq> R" and c: "c < next_block g"
  shows "builds R P V (d(p := Suc (d p))) (on_heap (insertPreds at p c) g)"
proof -
  let ?h = "insertPreds at p c (heap g)"
  have h: "startingAddress (?h x) = startingAddress (heap g x)" for x
    by (simp add: insertPreds_def upd_def)
  have pr: "set (predecessors (?h x)) \<subseteq> set (predecessors (heap g x)) \<union> (if x = c then {p} else {})"
    "distinct (predecessors (?h x))" "x \<noteq> c \<Longrightarrow> predecessors (?h x) = predecessors (heap g x)" for x
    using b by (auto simp: insertPreds_def upd_def insort_insert_key_def set_insort_key builds_defs
        distinct_insort split: if_splits)
  have out: "{x. (q, x) \<in> flow ?h} \<subseteq> {x. (q, x) \<in> flow (heap g)} \<union> (if q = p then {c} else {})" for q
  proof
    fix x assume "x \<in> {x. (q, x) \<in> flow ?h}"
    then show "x \<in> {x. (q, x) \<in> flow (heap g)} \<union> (if q = p then {c} else {})"
      using pr(1) [of x] by (auto simp: flow_def split: if_splits)
  qed
  have fin: "finite {x. (q, x) \<in> flow (heap g)}" for q
  proof (rule finite_subset)
    show "{x. (q, x) \<in> flow (heap g)} \<subseteq> {..< next_block g}"
      using b by (auto simp: builds_defs flow_def not_less [symmetric])
  qed simp
  have "card {x. (q, x) \<in> flow ?h} \<le> (d(p := Suc (d p))) q" for q
  proof -
    have "card {x. (q, x) \<in> flow ?h} \<le> card ({x. (q, x) \<in> flow (heap g)} \<union> (if q = p then {c} else {}))"
      using out fin by (intro card_mono) auto
    also have "\<dots> \<le> card {x. (q, x) \<in> flow (heap g)} + (if q = p then 1 else 0)"
      using card_Un_le [of _ "if q = p then {c} else {}"] by (auto split: if_splits)
    also have "\<dots> \<le> (d(p := Suc (d p))) q"
      using b by (auto simp: builds_defs)
    finally show ?thesis .
  qed
  moreover have "set (predecessors (?h x)) \<subseteq> V - {R}" for x
  proof -
    have "set (predecessors (heap g x)) \<subseteq> V - {R}" using b by (simp add: builds_defs)
    then have "set (predecessors (heap g x)) \<union> (if x = c then {p} else {}) \<subseteq> V - {R}" using p by simp
    then show ?thesis using pr(1) [of x] by (rule order_trans [rotated])
  qed
  ultimately have "linked R V (d(p := Suc (d p))) (on_heap (insertPreds at p c) g)"
    using b c pr(2,3) by (auto simp: builds_defs)
  moreover have "started R P V (on_heap (insertPreds at p c) g)"
    using b by (auto simp: builds_defs one_return_def h)
  moreover have "untouched ?h"
    using b by (simp add: builds_def untouched_def insertPreds_def upd_def)
  ultimately show ?thesis using b by (simp add: builds_def mapped_def)
qed

lemma Get_BasicBlock_At_builds:
  assumes b: "builds R P V d g" and g: "Get_BasicBlock_At a g = (b, g')"
  shows "builds R P V d g'" "addressMap g' a = Some b" "b < next_block g'"
    "branches g' = branches g" "targets g' = targets g"
proof -
  show "builds R P V d g'"
  proof (cases "addressMap g a")
    case (Some b')
    then show ?thesis using assms by (simp add: Get_BasicBlock_At_def)
  next
    case None
    let ?g = "snd (new_in g)"
    have n: "builds R P V d ?g" using builds_new [OF b] .
    have g': "g' = ?g\<lparr>addressMap := (addressMap g)(a \<mapsto> next_block g), allBlocks := List.insert b (allBlocks g)\<rparr>"
      using g None by (auto simp: Get_BasicBlock_At_def new_in_def)
    have "mapped R P V g'"
    proof -
      have m: "mapped R P V g" using b by (simp add: builds_def)
      have fresh: "addressMap g x \<noteq> Some (next_block g)" for x using mappedD(1) [OF m] by blast
      have old: "next_block g \<notin> V" using b by (auto simp: builds_defs)
      have "a \<noteq> 2" using m None by (auto simp: mapped_def)
      then show ?thesis
        unfolding g' mapped_def
        using m fresh old mappedD [OF m] by (auto simp: mapped_def less_Suc_eq)
    qed
    then show ?thesis using n by (simp add: builds_def started_def linked_def g')
  qed
qed (use assms in \<open>auto simp: Get_BasicBlock_At_def new_in_def builds_defs split: option.splits\<close>)

lemma edge_sel [simp]:
  "next_block (edge at p c g) = next_block g" "addressMap (edge at p c g) = addressMap g"
  "branches (edge at p c g) = branches g" "targets (edge at p c g) = targets g"
  by (simp_all add: edge_def)

lemma edge_builds:
  assumes "builds R P V d g" "p \<in> V" "p \<noteq> R" "c < next_block g"
  shows "builds R P V (d(p := Suc (d p))) (edge at p c g)"
  unfolding edge_def by (intro builds_quiet builds_edge assms) simp

lemma fall_through_of_call_builds:
  assumes b: "builds R P V d g" and p: "p \<in> V" "p \<noteq> R"
  shows "\<exists>g'. fall_through_of_call at (Some a) p called g = Inr g' \<and>
    builds R P V (d(p := Suc (d p))) g' \<and> branches g' = branches g \<and> targets g' = targets g"
proof -
  obtain c g1 where g1: "Get_BasicBlock_At a g = (c, g1)" by fastforce
  note get = Get_BasicBlock_At_builds [OF b g1]
  have "builds R P V (d(p := Suc (d p))) (on_heap (insertSuccs at c called) (on_heap (insertPreds at p c) g1))"
    by (intro builds_quiet builds_edge get p) simp
  then show ?thesis using g1 get(4,5) by (simp add: fall_through_of_call_def)
qed

text \<open>A block for a call or an indirect branch: started at a flag, in no map.\<close>

lemma flag_block_builds:
  assumes b: "builds R P V d g" and g': "(c, g') = new_in g" and p: "p \<in> V" "p \<noteq> R"
    and f: "quiet f" "quiet f'"
  shows "builds R P V (d(p := Suc (d p)))
    (edge at p c (on_heap f (on_heap f' (on_heap (setStarting k c) g'))))"
proof -
  have e: "g' = snd (new_in g)" "c = next_block g" using g' by (auto simp: new_in_def)
  have "builds R P V d g'" "c \<notin> V" "c < next_block g'"
    using builds_new [OF b] b e by (auto simp: builds_defs)
  then show ?thesis
    by (intro edge_builds builds_quiet builds_setStarting f p) simp_all
qed

lemma builds_allBlocks [simp]: "builds R P V d (g\<lparr>allBlocks := x\<rparr>) = builds R P V d g"
  by (simp add: builds_defs)

lemma edge_allBlocks: "edge at p c (g\<lparr>allBlocks := x\<rparr>) = (edge at p c g)\<lparr>allBlocks := x\<rparr>"
  by (simp add: edge_def on_heap_def)

definition ends_ok :: "addrint list \<Rightarrow> addrint set \<Rightarrow> bool" where
  "ends_ok ts P = (case ts of [] \<Rightarrow> True | t # others \<Rightarrow> t \<noteq> 1 \<and> t \<noteq> 4 \<and> (others = [] \<longrightarrow> t \<notin> P))"

text \<open>The graph once a block is closed by its branch, and what \<open>BranchIns\<close> makes of it.\<close>

abbreviation ended :: "cfg_ins \<Rightarrow> block_id \<Rightarrow> graph \<Rightarrow> graph" where
  "ended i cur g \<equiv> (on_heap (setEnding (INS_Address i) cur) g)
     \<lparr>addressMap := (addressMap g)(INS_Address i \<mapsto> cur)\<rparr>"

abbreviation branch_done ::
  "block_id \<Rightarrow> addrint set \<Rightarrow> block_id set \<Rightarrow> (block_id \<Rightarrow> nat) \<Rightarrow> block_id \<Rightarrow> graph \<Rightarrow> graph result \<Rightarrow> bool" where
  "branch_done R P V d cur g r \<equiv> \<exists>g'. r = Inr g' \<and> builds R P V (d(cur := 2)) g' \<and>
     branches g' = branches g \<and> targets g' = targets g"

lemma ended_builds:
  assumes "builds R P V d g" "cur \<in> V" "INS_Address i \<in> P"
  shows "builds R P V d (ended i cur g)"
proof -
  have "builds R P V d (on_heap (setEnding (INS_Address i) cur) g)" by (intro builds_quiet assms(1)) simp
  from builds_mapped [OF this assms(3,2)] show ?thesis by simp
qed

lemma one_edge_done:
  assumes "builds R P V (d(cur := Suc 0)) g'"
  shows "builds R P V (d(cur := 2)) g'"
  using assms by (rule builds_d) auto

lemma BranchIns_call:
  assumes g: "builds R P V d (ended i cur g)" and cur: "cur \<in> V" "cur \<noteq> R" "d cur = 0"
    and a: "branches g (INS_Address i) = 1 # ts"
  shows "branch_done R P V d cur g (BranchIns at rtn_name (Some n) i cur g)"
proof -
  obtain c g1 where c: "new_in (ended i cur g) = (c, g1)" by fastforce
  let ?f = "case rtn_name (INS_DirectBranchOrCallTargetAddress i) of None \<Rightarrow> id | Some m \<Rightarrow> setRoutineCalled m c"
  let ?g2 = "edge at cur c (on_heap ?f (on_heap (setEnding 1 c) (on_heap (setStarting 1 c) g1)))"
  have "quiet ?f"
    by (auto simp: quiet_def same_graph_def split: option.splits)
      (auto simp: setRoutineCalled_def upd_def untouched_def)
  from flag_block_builds [OF g c [symmetric] cur(1,2) this quiet_writes(1) [of 1 c], where at = at and k = 1]
  have b2: "builds R P V (d(cur := Suc 0)) ?g2" using cur(3) by simp
  have s2: "branches ?g2 = branches g" "targets ?g2 = targets g" using c by (auto simp: new_in_def)
  have "BranchIns at rtn_name (Some n) i cur g = fall_through_of_call at (Some n) cur c ?g2"
    using a c by (simp add: BranchIns_def Let_def on_heap_id split: option.splits)
  then show ?thesis using fall_through_of_call_builds [OF b2 cur(1,2), of at n c] s2 by (auto simp: numeral_2_eq_2)
qed

lemma BranchIns_return:
  assumes g: "builds R P V d (ended i cur g)" and cur: "cur \<in> V" "cur \<noteq> R" "d cur = 0"
    and a: "branches g (INS_Address i) = 2 # ts"
  shows "branch_done R P V d cur g (BranchIns at rtn_name nxt i cur g)"
proof -
  have R: "addressMap (ended i cur g) 2 = Some R" using g unfolding builds_def mapped_def by blast
  have "R < next_block (ended i cur g)" using builds_old [OF g, of R] g unfolding builds_def started_def by blast
  then have "builds R P V (d(cur := Suc 0)) (edge at cur R (ended i cur g))"
    using edge_builds [OF g cur(1,2), of R at] cur(3) by simp
  moreover have "BranchIns at rtn_name nxt i cur g = Inr (edge at cur R (ended i cur g))"
    using a R by (simp add: BranchIns_def Let_def)
  ultimately show ?thesis using one_edge_done by simp
qed

text \<open>The block that stands for an indirect call (4) or branch (5).\<close>

lemma indirect_block:
  assumes g: "builds R P V d (ended i cur g)" and cur: "cur \<in> V" "cur \<noteq> R" "d cur = 0"
    and c: "new_in (ended i cur g) = (c, g1)"
    and g2: "g2 = (edge at cur c (on_heap (setEnding k c) (on_heap (setStarting k c) g1)))
      \<lparr>allBlocks := List.insert c (allBlocks g1)\<rparr>"
  shows "builds R P V (d(cur := Suc 0)) g2" "branches g2 = branches g" "targets g2 = targets g"
proof -
  have "quiet id" by (simp add: quiet_def same_graph_def)
  from flag_block_builds [OF g c [symmetric] cur(1,2) this quiet_writes(1) [of k c], where at = at and k = k]
  show "builds R P V (d(cur := Suc 0)) g2" using cur(3) by (simp add: on_heap_id g2)
  show "branches g2 = branches g" "targets g2 = targets g" using c by (auto simp: new_in_def g2)
qed

lemma BranchIns_indirect_call:
  assumes g: "builds R P V d (ended i cur g)" and cur: "cur \<in> V" "cur \<noteq> R" "d cur = 0"
    and a: "branches g (INS_Address i) = 4 # ts"
  shows "branch_done R P V d cur g (BranchIns at rtn_name (Some n) i cur g)"
proof -
  obtain c g1 where c: "new_in (ended i cur g) = (c, g1)" by fastforce
  let ?g2 = "(edge at cur c (on_heap (setEnding 4 c) (on_heap (setStarting 4 c) g1)))
    \<lparr>allBlocks := List.insert c (allBlocks g1)\<rparr>"
  note b2 = indirect_block [OF g cur c refl, of at 4]
  have "BranchIns at rtn_name (Some n) i cur g = fall_through_of_call at (Some n) cur c ?g2"
    using a c by (simp add: BranchIns_def Let_def edge_allBlocks)
  then show ?thesis using fall_through_of_call_builds [OF b2(1) cur(1,2), of at n c] b2(2,3) by (auto simp: numeral_2_eq_2)
qed

lemma BranchIns_indirect_branch:
  assumes g: "builds R P V d (ended i cur g)" and cur: "cur \<in> V" "cur \<noteq> R" "d cur = 0"
    and a: "branches g (INS_Address i) = 5 # ts"
  shows "branch_done R P V d cur g (BranchIns at rtn_name nxt i cur g)"
proof -
  obtain c g1 where c: "new_in (ended i cur g) = (c, g1)" by fastforce
  note b2 = indirect_block [OF g cur c refl, of at 5]
  have "BranchIns at rtn_name nxt i cur g = Inr ((edge at cur c
      (on_heap (setEnding 5 c) (on_heap (setStarting 5 c) g1)))\<lparr>allBlocks := List.insert c (allBlocks g1)\<rparr>)"
    using a c by (simp add: BranchIns_def Let_def edge_allBlocks)
  then show ?thesis using one_edge_done [OF b2(1)] b2(2,3) by auto
qed

text \<open>An edge to the block at an address; a direct jump has one or two of them.\<close>

lemma edge_to_address:
  assumes b: "builds R P V d g" and cur: "cur \<in> V" "cur \<noteq> R"
  shows "\<exists>g'. (let (b, g) = Get_BasicBlock_At n g in Inr (edge at cur b g)) = Inr g' \<and>
    builds R P V (d(cur := Suc (d cur))) g' \<and> branches g' = branches g \<and> targets g' = targets g"
proof -
  obtain c g1 where c: "Get_BasicBlock_At n g = (c, g1)" by fastforce
  note get = Get_BasicBlock_At_builds [OF b c]
  show ?thesis using edge_builds [OF get(1) cur get(3), of at] c get(4,5) by simp
qed

lemma BranchIns_jump:
  assumes g: "builds R P V d (ended i cur g)" and cur: "cur \<in> V" "cur \<noteq> R" "d cur = 0"
    and a: "branches g (INS_Address i) = t # ts" "t \<noteq> 1" "t \<noteq> 2" "t \<noteq> 4" "t \<noteq> 5"
    and nxt: "nxt = None \<Longrightarrow> ends_ok (t # ts) P"
  shows "branch_done R P V d cur g (BranchIns at rtn_name nxt i cur g)"
proof -
  obtain c g1 where c: "Get_BasicBlock_At t (ended i cur g) = (c, g1)" by fastforce
  let ?g2 = "edge at cur c g1"
  have b2: "builds R P V (d(cur := Suc 0)) ?g2" "branches ?g2 = branches g" "targets ?g2 = targets g"
    using edge_to_address [OF g cur(1,2), of t at] c cur(3) by simp_all
  have to_block: "branch_done R P V d cur g (let (b, g) = Get_BasicBlock_At n ?g2 in Inr (edge at cur b g))" for n
    using edge_to_address [OF b2(1) cur(1,2), of n at] b2(2,3) by (simp add: numeral_2_eq_2)
  have step: "BranchIns at rtn_name nxt i cur g =
    (case ts of
       other # _ \<Rightarrow> (let (b, g) = Get_BasicBlock_At other ?g2 in Inr (edge at cur b g))
     | [] \<Rightarrow> if t = startingAddress (heap ?g2 cur)
             then (case nxt of None \<Rightarrow> Inl Null_Dereference
                   | Some n \<Rightarrow> (let (b, g) = Get_BasicBlock_At n ?g2 in Inr (edge at cur b g)))
             else Inr ?g2)"
    using a c by (simp add: BranchIns_def Let_def)
  show ?thesis
  proof (cases "ts = [] \<and> t \<noteq> startingAddress (heap ?g2 cur)")
    case True
    then show ?thesis using step one_edge_done [OF b2(1)] b2(2,3) by simp
  next
    case False
    moreover have "nxt \<noteq> None" if "ts = []"
    proof
      assume "nxt = None"
      then have "t \<notin> P" using nxt that by (simp add: ends_ok_def)
      moreover have "startingAddress (heap ?g2 cur) \<in> P" using b2(1) cur(1,2) by (auto simp: builds_defs)
      ultimately show False using False that by auto
    qed
    ultimately show ?thesis
      unfolding step using to_block by (cases ts; cases nxt) (simp_all del: prod.case split: if_splits)
  qed
qed

lemma BranchIns_builds:
  assumes b: "builds R P V d g" and cur: "cur \<in> V" "cur \<noteq> R" "d cur = 0"
    and a: "INS_Address i \<in> P" "branches g (INS_Address i) = t # ts"
    and nxt: "nxt = None \<Longrightarrow> ends_ok (t # ts) P"
  shows "branch_done R P V d cur g (BranchIns at rtn_name nxt i cur g)"
proof -
  note g = ended_builds [OF b cur(1) a(1)]
  have next_of_call: "\<exists>n. nxt = Some n" if "t = 1 \<or> t = 4"
    using nxt that by (cases nxt) (auto simp: ends_ok_def)
  consider "t = 1" | "t = 2" | "t = 4" | "t = 5" | "t \<noteq> 1" "t \<noteq> 2" "t \<noteq> 4" "t \<noteq> 5" by blast
  then show ?thesis
  proof cases
    case 1
    then show ?thesis using next_of_call BranchIns_call [OF g cur] a(2) by blast
  next
    case 2
    then show ?thesis using BranchIns_return [OF g cur] a(2) by blast
  next
    case 3
    then show ?thesis using next_of_call BranchIns_indirect_call [OF g cur] a(2) by blast
  next
    case 4
    then show ?thesis using BranchIns_indirect_branch [OF g cur] a(2) by blast
  next
    case 5
    then show ?thesis using BranchIns_jump [OF g cur a(2) _ _ _ _ nxt] by blast
  qed
qed

definition builder_inv ::
  "block_id \<Rightarrow> addrint set \<Rightarrow> (addrint \<Rightarrow> addrint list) \<Rightarrow> (addrint \<Rightarrow> addrint list) \<Rightarrow>
   block_id option \<times> graph \<Rightarrow> bool" where
  "builder_inv R P br tg = (\<lambda>(cur, g). \<exists>V.
     builds R P V (\<lambda>p. if cur = Some p then 0 else 2) g \<and> (\<forall>b. cur = Some b \<longrightarrow> b \<in> V \<and> b \<noteq> R) \<and>
     branches g = br \<and> targets g = tg)"

text \<open>Starting the block of an address, and then maybe ending it with a branch.\<close>

lemma branch_inv:
  assumes b: "builds R P V d g" and "b \<in> V" "b \<noteq> R" "d b = 0" "\<And>p. d p \<le> 2"
    and a: "INS_Address i \<in> P" "br (INS_Address i) \<noteq> []" and g: "branches g = br" "targets g = tg"
    and nxt: "nxt = None \<Longrightarrow> ends_ok (br (INS_Address i)) P"
  shows "\<exists>s'. and_then (BranchIns at rtn_name nxt i b g) (\<lambda>g. Inr (None, g)) = Inr s' \<and>
    builder_inv R P br tg s'"
proof -
  obtain t ts where t: "branches g (INS_Address i) = t # ts" using a(2) g(1) by (metis neq_Nil_conv)
  have "nxt = None \<Longrightarrow> ends_ok (t # ts) P" using nxt t g(1) by auto
  from BranchIns_builds [OF b assms(2-4) a(1) t this] obtain g' where g':
    "BranchIns at rtn_name nxt i b g = Inr g'" "builds R P V (d(b := 2)) g'"
    "branches g' = branches g" "targets g' = targets g" by blast
  have "builds R P V (\<lambda>p. if None = Some p then 0 else 2) g'"
    by (rule builds_d [OF g'(2)]) (use assms(5) in auto)
  then show ?thesis using g' g by (auto simp: builder_inv_def)
qed

lemma start_inv:
  assumes b: "builds R P V d g" and d: "\<And>p. d p \<le> 2" and g: "branches g = br" "targets g = tg"
    and a: "addressMap g (INS_Address i) = Some b" "INS_Address i \<notin> insert 2 P"
    and nxt: "nxt = None \<Longrightarrow> ends_ok (br (INS_Address i)) (insert (INS_Address i) P)"
  shows "\<exists>s'. (let g = on_heap (setStarting (INS_Address i) b) g in
      if branches g (INS_Address i) \<noteq> []
      then and_then (BranchIns at rtn_name nxt i b g) (\<lambda>g. Inr (None, g)) else Inr (Some b, g)) = Inr s' \<and>
    builder_inv R (insert (INS_Address i) P) br tg s'"
proof -
  let ?g = "on_heap (setStarting (INS_Address i) b) g" and ?P = "insert (INS_Address i) P"
  have b': "builds R ?P (insert b V) (d(b := 0)) ?g" using builds_start [OF b a] .
  have bR: "b \<noteq> R" using b a mappedD(2) [of R P V g] by (auto simp: builds_def started_def)
  show ?thesis
  proof (cases "br (INS_Address i) = []")
    case True
    have "builds R ?P (insert b V) (\<lambda>p. if Some b = Some p then 0 else 2) ?g"
      by (rule builds_d [OF b']) (use d in auto)
    then show ?thesis using True g bR by (auto simp: builder_inv_def Let_def)
  next
    case False
    then show ?thesis
      using branch_inv [where br = br and tg = tg and nxt = nxt and i = i and at = at and rtn_name = rtn_name, OF b' _ bR _ _ _ False] d nxt g by (simp add: Let_def)
  qed
qed

lemma BlockBuilder_step_inv:
  assumes s: "builder_inv R P br tg (cur, g)" and a: "INS_Address i \<notin> insert 2 P"
    and nxt: "nxt = None \<Longrightarrow> ends_ok (br (INS_Address i)) (insert (INS_Address i) P)"
  shows "\<exists>s'. BlockBuilder_step at rtn_name prev i nxt (cur, g) = Inr s' \<and>
    builder_inv R (insert (INS_Address i) P) br tg s'"
proof -
  let ?a = "INS_Address i" and ?d = "\<lambda>p. if cur = Some p then 0 else 2 :: nat"
  obtain V where V: "builds R P V ?d g" "\<forall>b. cur = Some b \<longrightarrow> b \<in> V \<and> b \<noteq> R"
    "branches g = br" "targets g = tg" using s by (auto simp: builder_inv_def)
  show ?thesis
  proof (cases cur)
    case None
    obtain b g1 where g1: "Get_BasicBlock_At ?a g = (b, g1)" by fastforce
    note get = Get_BasicBlock_At_builds [OF V(1) g1]
    show ?thesis
      using start_inv [where br = br and tg = tg and nxt = nxt and i = i and at = at and rtn_name = rtn_name,
          OF get(1) _ _ _ get(2) a nxt] get(4,5) V(3,4) None g1
      by (simp add: BlockBuilder_step_def Let_def)
  next
    case (Some b)
    then have b: "b \<in> V" "b \<noteq> R" using V(2) by auto
    have P': "builds R (insert ?a P) V ?d g"
      using V(1) a by (intro builds_P [OF V(1)]) (auto simp: builds_def started_def)
    consider (target) "tg ?a \<noteq> []" | (branch) "tg ?a = []" "br ?a \<noteq> []" | (inner) "tg ?a = []" "br ?a = []"
      by blast
    then show ?thesis
    proof cases
      case target
      let ?g = "on_heap (setEnding prev b) g"
      have g: "builds R P V ?d ?g" by (intro builds_quiet V(1)) simp
      obtain c g1 where g1: "Get_BasicBlock_At ?a ?g = (c, g1)" by fastforce
      note get = Get_BasicBlock_At_builds [OF g g1]
      let ?g2 = "on_heap (insertPreds at b c) (on_heap (insertSuccs at c b) g1)"
      have g2: "builds R P V (?d(b := Suc (?d b))) ?g2"
        by (intro builds_edge builds_quiet get b) (simp_all add: get)
      have e: "(?d(b := Suc (?d b))) p \<le> 2" for p using Some by simp
      show ?thesis
        using start_inv [where br = br and tg = tg and nxt = nxt and i = i and b = c and at = at and rtn_name = rtn_name,
            OF g2 e _ _ _ a nxt] get V(3,4) Some g1 target
        by (simp add: BlockBuilder_step_def Let_def)
    next
      case branch
      have e: "?d p \<le> 2" for p by simp
      show ?thesis
        using branch_inv [where br = br and tg = tg and nxt = nxt and i = i and at = at and rtn_name = rtn_name,
            OF P' b _ e _ branch(2) V(3,4) nxt] Some branch V(3,4)
        by (simp add: BlockBuilder_step_def Let_def)
    next
      case inner
      have "builds R (insert ?a P) V ?d (g\<lparr>addressMap := (addressMap g)(?a \<mapsto> b)\<rparr>)"
        using builds_mapped [OF P' _ b(1)] by simp
      then show ?thesis
        using Some inner V b by (auto simp: BlockBuilder_step_def builder_inv_def Let_def)
    qed
  qed
qed

lemma BlockBuilder_loop_inv:
  assumes "builder_inv R P br tg s" "distinct (map INS_Address is)"
    "INS_Address ` set is \<inter> insert 2 P = {}"
    "is \<noteq> [] \<Longrightarrow> ends_ok (br (INS_Address (last is))) (P \<union> INS_Address ` set is)"
  shows "\<exists>s'. BlockBuilder_loop at rtn_name prev is s = Inr s' \<and>
    builder_inv R (P \<union> INS_Address ` set is) br tg s'"
  using assms
proof (induction "is" arbitrary: prev P s)
  case Nil
  then show ?case by simp
next
  case (Cons i "is")
  obtain cur g where s: "s = (cur, g)" by fastforce
  let ?nxt = "case is of [] \<Rightarrow> None | j # _ \<Rightarrow> Some (INS_Address j)"
  have "?nxt = None \<Longrightarrow> ends_ok (br (INS_Address i)) (insert (INS_Address i) P)"
    using Cons.prems(4) by (cases "is") auto
  from BlockBuilder_step_inv [where nxt = ?nxt and i = i and at = at and rtn_name = rtn_name and prev = prev,
      OF Cons.prems(1) [unfolded s] _ this] obtain s1 where s1:
    "BlockBuilder_step at rtn_name prev i ?nxt s = Inr s1" "builder_inv R (insert (INS_Address i) P) br tg s1"
    using Cons.prems(3) s by auto
  from Cons.IH [OF s1(2), of "INS_Address i"] obtain s' where
    "BlockBuilder_loop at rtn_name (INS_Address i) is s1 = Inr s'"
    "builder_inv R (insert (INS_Address i) P \<union> INS_Address ` set is) br tg s'"
    using Cons.prems(2-4) by (auto split: if_splits)
  then show ?case using s1(1) by auto
qed

text \<open>The address of the next instruction is only looked at where its absence is an error.\<close>

definition less_failing :: "'a result \<Rightarrow> 'a result \<Rightarrow> bool" where
  "less_failing r r' \<longleftrightarrow> (\<forall>x. r = Inr x \<longrightarrow> r' = Inr x)"

lemma less_failing_intros:
  "less_failing r r"
  "less_failing (Inl e) r"
  "(c \<Longrightarrow> less_failing r r') \<Longrightarrow> (\<not> c \<Longrightarrow> less_failing q q') \<Longrightarrow>
     less_failing (if c then r else q) (if c then r' else q')"
  "less_failing r r' \<Longrightarrow> (\<And>x xs. less_failing (f x xs) (f' x xs)) \<Longrightarrow>
     less_failing (case l of [] \<Rightarrow> r | x # xs \<Rightarrow> f x xs) (case l of [] \<Rightarrow> r' | x # xs \<Rightarrow> f' x xs)"
  "less_failing r r' \<Longrightarrow> (\<And>x. less_failing (k x) (k' x)) \<Longrightarrow>
     less_failing (case m of None \<Rightarrow> r | Some x \<Rightarrow> k x) (case m of None \<Rightarrow> r' | Some x \<Rightarrow> k' x)"
  "(\<And>x y. less_failing (h x y) (h' x y)) \<Longrightarrow>
     less_failing (case p of (x, y) \<Rightarrow> h x y) (case p of (x, y) \<Rightarrow> h' x y)"
  by (auto simp: less_failing_def split: list.split option.split prod.split)

lemma BranchIns_None:
  "less_failing (BranchIns at rtn_name None i b g) (BranchIns at rtn_name (Some n) i b g)"
  unfolding BranchIns_def Let_def fall_through_of_call_def option.case
  by (intro less_failing_intros)

lemma BlockBuilder_step_None:
  "less_failing (BlockBuilder_step at rtn_name prev i None s) (BlockBuilder_step at rtn_name prev i (Some n) s)"
proof -
  have br: "less_failing (and_then (BranchIns at rtn_name None i b g) f) (and_then (BranchIns at rtn_name (Some n) i b g) f)"
    for b g and f :: "graph \<Rightarrow> (block_id option \<times> graph) result"
    using BranchIns_None [of at rtn_name i b g n] by (auto simp: less_failing_def and_then_Inr_iff)
  show ?thesis
    unfolding BlockBuilder_step_def Let_def by (intro less_failing_intros br)
qed

lemma BlockBuilder_loop_Inr:
  assumes "builder_inv R P br tg s" "distinct (map INS_Address is)"
    "INS_Address ` set is \<inter> insert 2 P = {}" "BlockBuilder_loop at rtn_name prev is s = Inr s'"
  shows "builder_inv R (P \<union> INS_Address ` set is) br tg s'"
  using assms
proof (induction "is" arbitrary: prev P s)
  case Nil
  then show ?case by simp
next
  case (Cons i "is")
  obtain cur g where s: "s = (cur, g)" by fastforce
  let ?nxt = "case is of [] \<Rightarrow> None | j # _ \<Rightarrow> Some (INS_Address j)"
  obtain s1 where s1: "BlockBuilder_step at rtn_name prev i ?nxt s = Inr s1"
    "BlockBuilder_loop at rtn_name (INS_Address i) is s1 = Inr s'"
    using Cons.prems(4) by (auto simp: and_then_Inr_iff)
  obtain n where n: "BlockBuilder_step at rtn_name prev i (Some n) s = Inr s1"
    using s1(1) BlockBuilder_step_None [of at rtn_name prev i s] by (cases ?nxt) (auto simp: less_failing_def)
  have "builder_inv R (insert (INS_Address i) P) br tg s1"
    using BlockBuilder_step_inv [where nxt = "Some n" and i = i and at = at and rtn_name = rtn_name and prev = prev,
      OF Cons.prems(1) [unfolded s]] Cons.prems(3) n s by auto
  from Cons.IH [OF this _ _ s1(2)] show ?case using Cons.prems(2,3) by (auto split: if_splits)
qed

lemma BlockBuilder_starts:
  assumes "INS_Address i \<noteq> 2" "heap g = (\<lambda>_. new_BasicBlock)" "next_block g = 0" "addressMap g = Map.empty"
  obtains g0 where
    "BlockBuilder at rtn_name (i # is) g =
      and_then (BlockBuilder_loop at rtn_name (INS_Address i) is (Some 0, g0)) (\<lambda>(cur, g).
        Inr ((case cur of None \<Rightarrow> g | Some b \<Rightarrow> on_heap (setEnding (INS_Address (last (i # is))) b) g)
          \<lparr>EntranceNode := 0, ReturnNode := 1\<rparr>))"
    "builder_inv 1 {INS_Address i} (branches g) (targets g) (Some 0, g0)"
proof -
  obtain g0 where g0: "BlockBuilder at rtn_name (i # is) g =
      and_then (BlockBuilder_loop at rtn_name (INS_Address i) is (Some 0, g0)) (\<lambda>(cur, g).
        Inr ((case cur of None \<Rightarrow> g | Some b \<Rightarrow> on_heap (setEnding (INS_Address (last (i # is))) b) g)
          \<lparr>EntranceNode := 0, ReturnNode := 1\<rparr>))"
    "heap g0 = setEnding 2 1 (setStarting 2 1 ((setStarting (INS_Address i) 0 (setAsEntryNode 0
       (\<lambda>_. new_BasicBlock)))(1 := new_BasicBlock)))"
    "next_block g0 = 2" "addressMap g0 = [INS_Address i \<mapsto> 0, 2 \<mapsto> 1]"
    "branches g0 = branches g" "targets g0 = targets g"
    using assms by (auto simp: BlockBuilder_def Get_BasicBlock_At_def new_in_def on_heap_def Let_def fun_upd_idem)
  have h: "heap g0 b = new_BasicBlock\<lparr>startingAddress := if b = 0 then INS_Address i else if b = 1 then 2 else 0,
      endingAddress := if b = 1 then 2 else 0, isEntry := if b = 0 then Some 1 else None\<rparr>" for b
    by (simp add: g0(2) setEnding_def setStarting_def setAsEntryNode_def upd_def new_BasicBlock_def)
  have "builds 1 {INS_Address i} {0, 1} (\<lambda>p. if Some 0 = Some p then 0 else 2) g0"
    using assms(1) g0(3,4)
    by (auto simp: builds_defs one_return_def flow_def untouched_def h new_BasicBlock_def split: if_splits)
  then show thesis using that [OF g0(1)] g0(5,6) by (auto simp: builder_inv_def)
qed

end
