(* ===== verification/Control_Graph.thy ===== *)
theory Control_Graph
  imports Block_Builder
begin

text \<open>
  What \<open>RoutineGraph\<close> and \<open>Controlflow\<close> (\<open>src/include/RoutineGraph.H\<close>, \<open>src/dytan.cpp\<close>)
  promise for a routine: the passes return, the post-dominators of a block are among its
  ancestors in the computed tree, and each branch is closed at one address. The two ways in
  which the result is not the meeting point of the branches are shown on small routines.
\<close>

section \<open>The three passes together\<close>

text \<open>Pin gives the instructions distinct addresses; 2 is none of them.\<close>

definition addresses_ok :: "cfg_ins list \<Rightarrow> bool" where
  "addresses_ok is \<longleftrightarrow> distinct (map INS_Address is) \<and> 2 \<notin> INS_Address ` set is"

text \<open>
  A routine that is not empty and whose last instruction is no call, no branch that can fall
  through and no jump back into the routine (nor to the values 1, 4 and 5 that the builder uses
  as flags).
\<close>

definition closed_routine :: "cfg_ins list \<Rightarrow> bool" where
  "closed_routine is \<longleftrightarrow> is \<noteq> [] \<and> (let i = last is in \<not> INS_IsCall i \<and>
     (INS_IsBranch i \<longrightarrow> \<not> INS_HasFallThrough i \<and> \<not> (INS_IsDirectBranchOrCall i \<and>
        INS_DirectBranchOrCallTargetAddress i \<in> {1, 4} \<union> INS_Address ` set is) \<and>
        5 \<notin> INS_Address ` set is))"

lemma graph_of_mapper:
  "heap (fold mapper is new_graph) = (\<lambda>_. new_BasicBlock)" "next_block (fold mapper is new_graph) = 0"
  "addressMap (fold mapper is new_graph) = Map.empty"
  by (simp_all add: new_graph_def)

lemma addresses_unique:
  "addresses_ok is \<Longrightarrow> i \<in> set is \<Longrightarrow> {j \<in> set is. INS_Address j = INS_Address i} = {i}"
  by (auto simp: addresses_ok_def distinct_map dest: inj_onD)

lemma closed_ends_ok:
  assumes "addresses_ok is" "closed_routine is"
  shows "ends_ok (branches (fold mapper is new_graph) (INS_Address (last is))) (INS_Address ` set is)"
proof -
  let ?l = "last is" and ?A = "INS_Address ` set is"
  let ?ts = "branches (fold mapper is new_graph) (INS_Address ?l)"
  have l: "?l \<in> set is" using assms(2) by (simp add: closed_routine_def)
  have "set ?ts = jumps ?l \<union> branch_flags ?l"
    using addresses_unique [OF assms(1) l] by (simp add: fold_mapper_marks new_graph_def)
  also have "\<dots> \<subseteq> - ({1, 4} \<union> ?A)"
    using assms by (auto simp: closed_routine_def addresses_ok_def Let_def jumps_def branch_flags_def
      fall_through_def split: if_splits)
  finally show ?thesis by (cases ?ts) (auto simp: ends_ok_def)
qed

lemma BlockBuilder_shape:
  assumes "addresses_ok is" and g: "BlockBuilder at rtn_name is (fold mapper is new_graph) = Inr g"
  shows "\<exists>V. graph_shape V (ReturnNode g) (heap g)" "untouched (heap g)" "ReturnNode g = 1"
proof -
  let ?g = "fold mapper is new_graph"
  obtain i is' where i: "is = i # is'" using g by (cases "is") (auto simp: BlockBuilder_def)
  have a: "INS_Address i \<noteq> 2" "distinct (map INS_Address is')" "INS_Address ` set is' \<inter> insert 2 {INS_Address i} = {}"
    using assms(1) i by (auto simp: addresses_ok_def)
  from BlockBuilder_starts [OF a(1) graph_of_mapper, of at rtn_name is' "is"] obtain g0 where g0:
    "BlockBuilder at rtn_name (i # is') ?g =
      and_then (BlockBuilder_loop at rtn_name (INS_Address i) is' (Some 0, g0)) (\<lambda>(cur, g).
        Inr ((case cur of None \<Rightarrow> g | Some b \<Rightarrow> on_heap (setEnding (INS_Address (last (i # is'))) b) g)
          \<lparr>EntranceNode := 0, ReturnNode := 1\<rparr>))"
    "builder_inv 1 {INS_Address i} (branches ?g) (targets ?g) (Some 0, g0)" .
  obtain cur g1 where g1: "BlockBuilder_loop at rtn_name (INS_Address i) is' (Some 0, g0) = Inr (cur, g1)"
    and gg: "g = (case cur of None \<Rightarrow> g1 | Some b \<Rightarrow> on_heap (setEnding (INS_Address (last is)) b) g1)
          \<lparr>EntranceNode := 0, ReturnNode := 1\<rparr>"
    using trans [OF g0(1) [symmetric, folded i] g] by (auto simp: and_then_Inr_iff)
  have "builder_inv 1 ({INS_Address i} \<union> INS_Address ` set is') (branches ?g) (targets ?g) (cur, g1)"
    by (rule BlockBuilder_loop_Inr [OF g0(2) a(2,3) g1])
  then obtain P V d where b: "builds 1 P V d g1" "\<And>p. d p \<le> 2"
    unfolding builder_inv_def by (auto split: if_splits)
  define g2 where "g2 = (case cur of None \<Rightarrow> g1 | Some b \<Rightarrow> on_heap (setEnding (INS_Address (last is)) b) g1)"
  have b2: "builds 1 P V d g2"
    using b(1) builds_quiet [OF quiet_writes(1)] by (auto simp: g2_def split: option.split)
  have hg: "heap g = heap g2" "ReturnNode g = 1" using gg by (simp_all add: g2_def)
  have shape: "graph_shape V 1 (heap g2)"
  proof -
    have st: "started 1 P V g2" and li: "linked 1 V d g2" using b2 by (auto simp: builds_def)
    have "finite {c. (p, c) \<in> flow (heap g2)}" for p
    proof (rule finite_subset)
      show "{c. (p, c) \<in> flow (heap g2)} \<subseteq> {..< next_block g2}"
        using li by (auto simp: linked_def flow_def not_less [symmetric])
    qed simp
    moreover have "card {c. (p, c) \<in> flow (heap g2)} \<le> 2" for p
      using li b(2) unfolding linked_def by (meson le_trans)
    moreover have "finite V" using st by (auto simp: started_def intro: finite_subset)
    ultimately show ?thesis using st li by (simp add: graph_shape_def started_def linked_def)
  qed
  show "\<exists>V. graph_shape V (ReturnNode g) (heap g)" using shape hg by auto
  show "untouched (heap g)" using b2 hg by (simp add: builds_def)
  show "ReturnNode g = 1" by (rule hg(2))
qed

lemma BlockBuilder_returns:
  assumes "addresses_ok is" "closed_routine is"
  shows "\<exists>g. BlockBuilder at rtn_name is (fold mapper is new_graph) = Inr g"
proof -
  let ?g = "fold mapper is new_graph"
  obtain i is' where i: "is = i # is'" using assms(2) by (cases "is") (auto simp: closed_routine_def)
  have a: "INS_Address i \<noteq> 2" "distinct (map INS_Address is')" "INS_Address ` set is' \<inter> insert 2 {INS_Address i} = {}"
    using assms(1) i by (auto simp: addresses_ok_def)
  from BlockBuilder_starts [OF a(1) graph_of_mapper, of at rtn_name is' "is"] obtain g0 where g0:
    "BlockBuilder at rtn_name (i # is') ?g =
      and_then (BlockBuilder_loop at rtn_name (INS_Address i) is' (Some 0, g0)) (\<lambda>(cur, g).
        Inr ((case cur of None \<Rightarrow> g | Some b \<Rightarrow> on_heap (setEnding (INS_Address (last (i # is'))) b) g)
          \<lparr>EntranceNode := 0, ReturnNode := 1\<rparr>))"
    "builder_inv 1 {INS_Address i} (branches ?g) (targets ?g) (Some 0, g0)" .
  have "is' \<noteq> [] \<Longrightarrow> ends_ok (branches ?g (INS_Address (last is'))) ({INS_Address i} \<union> INS_Address ` set is')"
    using closed_ends_ok [OF assms] i by simp
  from BlockBuilder_loop_inv [OF g0(2) a(2,3) this, of at rtn_name "INS_Address i"]
  show ?thesis unfolding g0(1) [folded i] by (auto simp: and_then_Inr_iff)
qed

section \<open>The tree of post-dominators\<close>

lemma tree_of_routine:
  assumes "addresses_ok is" "BlockBuilder at rtn_name is (fold mapper is new_graph) = Inr g"
  obtains h num where "initializeRoutineInfo at rtn_name is = Some (Inr (g\<lparr>heap := h\<rparr>))"
    "same_graph (heap g) h" "tree_ok (reaches h (ReturnNode g)) (ReturnNode g) num (up h)"
    "keeps_post_dominators (flow h) (ReturnNode g) (reaches h (ReturnNode g)) (up h)"
    "\<And>b. b \<notin> reaches h (ReturnNode g) \<Longrightarrow> up h b = None"
proof -
  obtain V where V: "graph_shape V (ReturnNode g) (heap g)"
    using BlockBuilder_shape(1) [OF assms] ..
  obtain h num where h: "buildPostDominanceTree (ReturnNode g) [] (heap g) = Some (Inr h)"
    "same_graph (heap g) h" "tree_ok (reaches (heap g) (ReturnNode g)) (ReturnNode g) num (up h)"
    "keeps_post_dominators (flow (heap g)) (ReturnNode g) (reaches (heap g) (ReturnNode g)) (up h)"
    "\<And>b. b \<notin> reaches (heap g) (ReturnNode g) \<Longrightarrow> up h b = None"
    using buildPostDominanceTree_ends [OF V BlockBuilder_shape(2) [OF assms]] by blast
  have "initializeRoutineInfo at rtn_name is = Some (Inr (g\<lparr>heap := h\<rparr>))"
    using assms(2) h(1) by (simp add: initializeRoutineInfo_def)
  moreover have "reaches h R = reaches (heap g) R" for R
    using flow_same [OF h(2)] by (simp add: reaches_def)
  ultimately show thesis using h(2-5) flow_same [OF h(2)] by (intro that [of h num]) simp_all
qed

text \<open>
  C14: Building the graph of a routine always returns, whatever the order in which the sets of
  blocks are walked. On a routine that is not empty and does not end in a call, in a branch
  that can fall through or in a jump back into itself it succeeds: no null pointer is followed.
\<close>

theorem initializeRoutineInfo_returns:
  assumes "addresses_ok is"
  shows "\<exists>r. initializeRoutineInfo at rtn_name is = Some r \<and>
    (closed_routine is \<longrightarrow> (\<exists>g. r = Inr g))"
proof (cases "BlockBuilder at rtn_name is (fold mapper is new_graph)")
  case (Inl e)
  moreover from this have "\<not> closed_routine is"
    using BlockBuilder_returns [OF assms, of at rtn_name] by auto
  ultimately show ?thesis by (simp add: initializeRoutineInfo_def)
next
  case (Inr g)
  then show ?thesis using tree_of_routine [OF assms Inr] by blast
qed

text \<open>
  C15: In the graph of a routine, the blocks that reach the return block hang in a tree below
  it, and every block that all paths from \<open>b\<close> to the return block go through is an ancestor of
  \<open>b\<close>: no post-dominator is lost. The other blocks get no post-dominator.
\<close>

theorem post_dominators_are_ancestors:
  assumes "addresses_ok is" "initializeRoutineInfo at rtn_name is = Some (Inr g)"
    and "d \<noteq> b" "post_dominates (flow (heap g)) (ReturnNode g) d b"
    and "(b, ReturnNode g) \<in> (flow (heap g))\<^sup>*"
  shows "d \<in> anc (up (heap g)) b \<and> ReturnNode g \<in> anc (up (heap g)) b"
proof -
  obtain g0 where g0: "BlockBuilder at rtn_name is (fold mapper is new_graph) = Inr g0"
    using assms(2) by (cases "BlockBuilder at rtn_name is (fold mapper is new_graph)")
      (auto simp: initializeRoutineInfo_def)
  obtain h num where h: "g = g0\<lparr>heap := h\<rparr>" "tree_ok (reaches h (ReturnNode g0)) (ReturnNode g0) num (up h)"
    "keeps_post_dominators (flow h) (ReturnNode g0) (reaches h (ReturnNode g0)) (up h)"
    using tree_of_routine [OF assms(1) g0] assms(2) by (metis option.inject sum.inject(2))
  have b: "b \<in> reaches h (ReturnNode g0)" using assms(5) h(1) by (simp add: reaches_def)
  have "d \<in> sanc (up h) b"
    using strict_pd_sanc [OF h(2,3) b] assms(3,4) h(1) by (simp add: strict_pd_def)
  then show ?thesis using tree_root_anc [OF h(2) b] h(1) by (simp add: anc_sanc)
qed

lemma routine_tree:
  assumes "addresses_ok is" "initializeRoutineInfo at rtn_name is = Some (Inr g)"
  obtains g0 num where "BlockBuilder at rtn_name is (fold mapper is new_graph) = Inr g0"
    "same_graph (heap g0) (heap g)" "ReturnNode g = ReturnNode g0"
    "tree_ok (reaches (heap g) (ReturnNode g)) (ReturnNode g) num (up (heap g))"
    "\<And>b. up (heap g) b \<noteq> None \<longleftrightarrow> b \<noteq> ReturnNode g \<and> (b, ReturnNode g) \<in> (flow (heap g))\<^sup>*"
proof -
  obtain g0 where g0: "BlockBuilder at rtn_name is (fold mapper is new_graph) = Inr g0"
    using assms(2) by (cases "BlockBuilder at rtn_name is (fold mapper is new_graph)")
      (auto simp: initializeRoutineInfo_def)
  obtain h num where h: "initializeRoutineInfo at rtn_name is = Some (Inr (g0\<lparr>heap := h\<rparr>))"
    "same_graph (heap g0) h" "tree_ok (reaches h (ReturnNode g0)) (ReturnNode g0) num (up h)"
    "\<And>b. b \<notin> reaches h (ReturnNode g0) \<Longrightarrow> up h b = None"
    using tree_of_routine [OF assms(1) g0] by metis
  have g: "heap g = h" "ReturnNode g = ReturnNode g0" using h(1) assms(2) by auto
  have "up h b \<noteq> None \<longleftrightarrow> b \<noteq> ReturnNode g0 \<and> b \<in> reaches h (ReturnNode g0)" for b
    using h(3,4) by (auto simp: tree_ok_def)
  then show thesis using that [OF g0] h(2,3) g by (simp add: reaches_def)
qed

text \<open>
  C18: what \<open>RoutineGraph\<close> builds is well-formed whenever it returns: the blocks are finitely many
  and start at different addresses, only the return block starts at 2, predecessors are blocks of
  the routine and not the return block, a block has at most two successors, and the pointers to
  post-dominators form a tree below the return block on exactly the blocks that reach it.
\<close>

theorem built_graph_well_formed:
  assumes "addresses_ok is" "initializeRoutineInfo at rtn_name is = Some (Inr g)"
  shows "(\<exists>V. graph_shape V (ReturnNode g) (heap g)) \<and>
    (\<exists>num. tree_ok (reaches (heap g) (ReturnNode g)) (ReturnNode g) num (up (heap g))) \<and>
    (\<forall>b. up (heap g) b \<noteq> None \<longleftrightarrow> b \<noteq> ReturnNode g \<and> (b, ReturnNode g) \<in> (flow (heap g))\<^sup>*)"
proof -
  obtain g0 num where g: "BlockBuilder at rtn_name is (fold mapper is new_graph) = Inr g0"
    "same_graph (heap g0) (heap g)" "ReturnNode g = ReturnNode g0"
    "tree_ok (reaches (heap g) (ReturnNode g)) (ReturnNode g) num (up (heap g))"
    "\<And>b. up (heap g) b \<noteq> None \<longleftrightarrow> b \<noteq> ReturnNode g \<and> (b, ReturnNode g) \<in> (flow (heap g))\<^sup>*"
    using routine_tree [OF assms] by metis
  have "\<exists>V. graph_shape V (ReturnNode g) (heap g)"
    using BlockBuilder_shape(1) [OF assms(1) g(1)] graph_shape_same [OF g(2)] g(3) by simp
  then show ?thesis using g(4,5) by blast
qed

section \<open>Small routines\<close>

definition plain_ins :: "addrint \<Rightarrow> cfg_ins" where
  "plain_ins a = \<lparr>INS_Address = a, INS_NextAddress = a + 1, INS_IsBranch = False, INS_IsCall = False,
     INS_IsRet = False, INS_IsDirectBranchOrCall = False, INS_HasFallThrough = True,
     INS_DirectBranchOrCallTargetAddress = 0, INS_IsCondBranch = False\<rparr>"

definition jump_if :: "addrint \<Rightarrow> addrint \<Rightarrow> cfg_ins" where
  "jump_if a t = (plain_ins a)\<lparr>INS_IsBranch := True, INS_IsDirectBranchOrCall := True,
     INS_DirectBranchOrCallTargetAddress := t, INS_IsCondBranch := True\<rparr>"

definition jump :: "addrint \<Rightarrow> addrint \<Rightarrow> cfg_ins" where
  "jump a t = (jump_if a t)\<lparr>INS_HasFallThrough := False, INS_IsCondBranch := False\<rparr>"

definition return_ins :: "addrint \<Rightarrow> cfg_ins" where
  "return_ins a = (plain_ins a)\<lparr>INS_IsRet := True, INS_HasFallThrough := False\<rparr>"

text \<open>
  An \<open>if\<close> whose arms meet, an \<open>if\<close> whose arms both return, and two branches to a common
  block beside a third way out.
\<close>

definition meeting_arms :: "cfg_ins list" where
  "meeting_arms = [plain_ins 100, jump_if 101 103, plain_ins 102, return_ins 103]"

definition returning_arms :: "cfg_ins list" where
  "returning_arms = [plain_ins 100, jump_if 101 103, return_ins 102, return_ins 103]"

definition three_ways :: "cfg_ins list" where
  "three_ways = [plain_ins 100, jump_if 101 110, jump_if 102 110, jump 103 105, return_ins 105, return_ins 110]"

text \<open>Two orders of the addresses of the blocks.\<close>

definition ascending :: "block_id \<Rightarrow> addrint" where
  "ascending b = of_nat b"

definition descending :: "block_id \<Rightarrow> addrint" where
  "descending b = 100 - of_nat b"

definition no_names :: "addrint \<Rightarrow> string option" where
  "no_names a = None"

lemmas sample_defs = plain_ins_def jump_if_def jump_def return_ins_def meeting_arms_def
  returning_arms_def three_ways_def ascending_def descending_def no_names_def

lemmas graph_eval =
  initializeRoutineInfo_def mapper_def insert_fall_through_def insert_branch_def insert_target_def
  new_graph_def insort_insert_key_def BlockBuilder_def BlockBuilder_step_def BranchIns_def
  Get_BasicBlock_At_def edge_def new_in_def on_heap_def fall_through_of_call_def
  new_BasicBlock_def upd_def setRoutineCalled_def setAsEntryNode_def insertPreds_def
  insertSuccs_def setEnding_def setStarting_def setPostDominator_def addImmediatePostDominator_def
  buildPostDominanceTree.simps visit_predecessor_def addPredecessorAsPostDominated_def
  holds_key_def read_key_def erase_keys_def getCommonPostDominator.simps
  passDownPostDominanceInfo.simps deleteDownPostDominanceInfo.simps

text \<open>The graph and the parent of the first block on each of them.\<close>

definition graph_of :: "(block_id \<Rightarrow> addrint) \<Rightarrow> cfg_ins list \<Rightarrow> graph" where
  "graph_of at is = (case initializeRoutineInfo at no_names is of Some (Inr g) \<Rightarrow> g | _ \<Rightarrow> new_graph)"

lemma graph_ofI:
  assumes "case initializeRoutineInfo at no_names is of Some (Inr g) \<Rightarrow> Q g | _ \<Rightarrow> False"
  shows "initializeRoutineInfo at no_names is = Some (Inr (graph_of at is)) \<and> Q (graph_of at is)"
  using assms by (auto simp: graph_of_def split: option.splits sum.splits)

lemma meeting_arms_graph:
  "initializeRoutineInfo ascending no_names meeting_arms = Some (Inr (graph_of ascending meeting_arms)) \<and>
   PostDominator (heap (graph_of ascending meeting_arms) 0) = Some 3 \<and>
   map (\<lambda>b. predecessors (heap (graph_of ascending meeting_arms) b)) [0, 1, 2, 3] = [[], [3], [0], [0, 2]] \<and>
   ReturnNode (graph_of ascending meeting_arms) = 1"
  by (rule graph_ofI) (simp add: sample_defs graph_eval Let_def)

lemma meeting_arms_meets:
  "addressMap (graph_of ascending meeting_arms) 101 = Some 0 \<and>
   startingAddress (heap (graph_of ascending meeting_arms) 3) = 103 \<and>
   PostDominator (heap (graph_of ascending meeting_arms) 0) = Some 3"
  by (rule conjunct2 [OF graph_ofI]) (simp add: sample_defs graph_eval Let_def)

text \<open>The one branch of this routine meets at its return.\<close>

lemma meeting_arms_branch:
  "(\<exists>i. x = INS_Address i \<and> i \<in> set meeting_arms \<and>
      meeting_point (graph_of ascending meeting_arms) i = Some (INS_Address (return_ins 103))) \<longleftrightarrow> x = 101"
proof -
  let ?g = "graph_of ascending meeting_arms"
  have "i \<in> set meeting_arms \<longleftrightarrow> i \<in> {plain_ins 100, jump_if 101 103, plain_ins 102, return_ins 103}" for i
    by (simp add: meeting_arms_def)
  moreover have "meeting_point ?g (jump_if 101 103) = Some 103"
    using meeting_arms_meets by (simp add: meeting_point_def jump_if_def plain_ins_def)
  moreover have "meeting_point ?g (plain_ins a) = None" "meeting_point ?g (return_ins a) = None" for a
    by (simp_all add: meeting_point_def return_ins_def plain_ins_def)
  moreover have "INS_Address (jump_if 101 103) = 101" "INS_Address (return_ins 103) = 103"
    by (simp_all add: jump_if_def return_ins_def plain_ins_def)
  ultimately show ?thesis by auto
qed

lemma samples_ok:
  "addresses_ok meeting_arms" "addresses_ok returning_arms" "addresses_ok three_ways"
  "closed_routine meeting_arms" "closed_routine returning_arms" "closed_routine three_ways"
  by (simp_all add: addresses_ok_def closed_routine_def sample_defs)

theorem initializeRoutineInfo_returns_witness:
  "\<exists>r. initializeRoutineInfo ascending no_names meeting_arms = Some r \<and> (\<exists>g. r = Inr g)"
  using initializeRoutineInfo_returns [OF samples_ok(1), of ascending no_names] samples_ok(4) by simp

theorem built_graph_well_formed_witness:
  "\<exists>num. tree_ok (reaches (heap (graph_of ascending meeting_arms)) 1) 1 num (up (heap (graph_of ascending meeting_arms)))"
  using built_graph_well_formed [OF samples_ok(1)] meeting_arms_graph by metis

lemma return_post_dominates: "post_dominates E R R b"
  by (auto simp: post_dominates_def)

text \<open>Both arms and the branch reach the return block 1 through block 3.\<close>

theorem post_dominators_are_ancestors_witness:
  "3 \<in> anc (up (heap (graph_of ascending meeting_arms))) 0"
proof -
  let ?g = "graph_of ascending meeting_arms" and ?E = "flow (heap (graph_of ascending meeting_arms))"
  note g = meeting_arms_graph [THEN conjunct1] meeting_arms_graph [THEN conjunct2, THEN conjunct1]
    meeting_arms_graph [THEN conjunct2, THEN conjunct2, THEN conjunct1]
    meeting_arms_graph [THEN conjunct2, THEN conjunct2, THEN conjunct2]
  have in1: "(p, 1) \<in> ?E \<longleftrightarrow> p = 3" for p using g(3) by (simp add: flow_def)
  have in3: "(p, 3) \<in> ?E \<longleftrightarrow> p = 0 \<or> p = 2" for p using g(3) by (auto simp: flow_def)
  have last: "3 \<in> set (x # xs)" if "walk ?E (x # xs)" "last (x # xs) = 1" "x \<noteq> 1" for x xs
    using that
  proof (induction xs arbitrary: x)
    case (Cons y ys)
    show ?case
    proof (cases "y = 1")
      case True
      then show ?thesis using Cons.prems(1) in1 by auto
    next
      case False
      then show ?thesis using Cons.IH [of y] Cons.prems by auto
    qed
  qed simp
  have "post_dominates ?E (ReturnNode ?g) 3 0"
    unfolding post_dominates_def g(4) using last [of 0] by auto
  moreover have "(0, ReturnNode ?g) \<in> ?E\<^sup>*"
    using in1 in3 g(4) by (metis converse_rtrancl_into_rtrancl rtrancl.rtrancl_refl)
  ultimately show ?thesis
    using post_dominators_are_ancestors [OF samples_ok(1) g(1), of 3 0] by simp
qed

text \<open>
  The parent of a block need not post-dominate it, and which block it is depends on the
  addresses that the allocator gave to the blocks. On three branches to two returns, ascending
  addresses make the block at 110 the parent of the first block, although a path avoids it;
  descending addresses give the return block. (\<open>addPredecessorAsPostDominated\<close> compares only
  the two parents at hand, and moves no block that hangs below the one it moves.)
\<close>

theorem parent_depends_on_allocation:
  "\<exists>g. initializeRoutineInfo ascending no_names three_ways = Some (Inr g) \<and>
     map_option (\<lambda>d. startingAddress (heap g d)) (PostDominator (heap g 0)) = Some 110 \<and>
     \<not> post_dominates (flow (heap g)) (ReturnNode g) 3 0 \<and> startingAddress (heap g 3) = 110 \<and>
   (\<exists>g'. initializeRoutineInfo descending no_names three_ways = Some (Inr g') \<and>
     map_option (\<lambda>d. startingAddress (heap g' d)) (PostDominator (heap g' 0)) = Some 2)"
proof -
  let ?g = "graph_of ascending three_ways" and ?g' = "graph_of descending three_ways"
  have "initializeRoutineInfo ascending no_names three_ways = Some (Inr ?g) \<and>
    PostDominator (heap ?g 0) = Some 3 \<and> startingAddress (heap ?g 3) = 110 \<and> ReturnNode ?g = 1 \<and>
    map (\<lambda>b. predecessors (heap ?g b)) [0, 1, 2, 3, 4, 5] = [[], [3, 5], [0], [0, 2], [2], [4]]"
    by (rule graph_ofI) (simp add: sample_defs graph_eval Let_def)
  then have g: "initializeRoutineInfo ascending no_names three_ways = Some (Inr ?g)"
    "PostDominator (heap ?g 0) = Some 3" "startingAddress (heap ?g 3) = 110" "ReturnNode ?g = 1"
    "map (\<lambda>b. predecessors (heap ?g b)) [0, 1, 2, 3, 4, 5] = [[], [3, 5], [0], [0, 2], [2], [4]]"
    by blast+
  have g': "initializeRoutineInfo descending no_names three_ways = Some (Inr ?g') \<and>
    map_option (\<lambda>d. startingAddress (heap ?g' d)) (PostDominator (heap ?g' 0)) = Some 2"
    by (rule graph_ofI) (simp add: sample_defs graph_eval Let_def)
  have "walk (flow (heap ?g)) [0, 2, 4, 5, 1]" using g(5) by (simp add: flow_def)
  then have "\<not> post_dominates (flow (heap ?g)) (ReturnNode ?g) 3 0"
    using g(4) by (auto simp: post_dominates_def intro!: exI [of _ "[2, 4, 5, 1]"])
  then show ?thesis using g g' by auto
qed

section \<open>The calls at branches and meeting points\<close>

lemma controls_fold:
  fixes g :: graph
  defines "step \<equiv> \<lambda>ins c. case meeting_point g ins of None \<Rightarrow> c
    | Some a \<Rightarrow> c(a := insort_insert (INS_Address ins) (c a))"
  shows "set (fold step xs c a) = set (c a) \<union> {INS_Address i | i. i \<in> set xs \<and> meeting_point g i = Some a}"
    and "sorted (c a) \<and> distinct (c a) \<Longrightarrow> (\<And>b. sorted (c b) \<and> distinct (c b)) \<Longrightarrow>
      sorted (fold step xs c a) \<and> distinct (fold step xs c a)"
proof (induction xs arbitrary: c)
  case (Cons i xs)
  {
    case 1
    show ?case
      unfolding fold.simps comp_apply Cons(1) by (auto simp: step_def set_insort_insert split: option.splits)
  next
    case 2
    show ?case
      unfolding fold.simps comp_apply
      by (rule Cons(2)) (use 2 in \<open>auto simp: step_def sorted_insort_insert distinct_insort_insert split: option.splits\<close>)
  }
qed simp_all

lemma controls_set:
  "set (controls g is a) = {INS_Address i | i. i \<in> set is \<and> meeting_point g i = Some a}"
  "sorted (controls g is a)" "distinct (controls g is a)"
  unfolding controls_def using controls_fold [where g = g and c = "\<lambda>_. []" and a = a and xs = "is"] by simp_all

lemma meeting_point_iff:
  "meeting_point g i = Some a \<longleftrightarrow> INS_IsCondBranch i \<and> (\<exists>b d. addressMap g (INS_Address i) = Some b \<and>
     PostDominator (heap g b) = Some d \<and> startingAddress (heap g d) = a)"
  by (auto simp: meeting_point_def split: option.splits)

lemma control_calls_parts:
  "Call_PushControl a \<in> set (control_calls g is i) \<longleftrightarrow> a = INS_Address i \<and> meeting_point g i \<noteq> None"
  "Call_PopControl bs \<in> set (control_calls g is i) \<longleftrightarrow> bs \<noteq> [] \<and> bs = controls g is (INS_Address i)"
  "distinct (control_calls g is i)"
proof -
  let ?c = "controls g is (INS_Address i)"
  show "Call_PushControl a \<in> set (control_calls g is i) \<longleftrightarrow> a = INS_Address i \<and> meeting_point g i \<noteq> None"
    by (cases "meeting_point g i") (auto simp: control_calls_def split: list.split)
  show "Call_PopControl bs \<in> set (control_calls g is i) \<longleftrightarrow> bs \<noteq> [] \<and> bs = ?c"
    by (cases ?c) (auto simp: control_calls_def split: option.splits)
  show "distinct (control_calls g is i)"
    by (cases "meeting_point g i") (auto simp: control_calls_def split: list.split)
qed

text \<open>
  C16: \<open>Controlflow\<close> goes through the instructions of the routine in order and inserts, each at
  most once: before an instruction \<open>PushControl\<close>, with its own address, exactly when it is a
  conditional branch whose block reaches the return block (other than as that block itself); and
  \<open>PopControl\<close>, exactly when there are conditional branches whose block has a parent in the tree of
  post-dominators that starts at the instruction, with the addresses of exactly these branches,
  each once and in ascending order.
\<close>

theorem control_calls_exact:
  assumes "addresses_ok is" "Controlflow at rtn_name False is = Some (Inr calls)"
  shows "\<exists>g. initializeRoutineInfo at rtn_name is = Some (Inr g) \<and> map fst calls = is \<and>
    (\<forall>(i, cs) \<in> set calls. distinct cs \<and>
      (\<forall>a. Call_PushControl a \<in> set cs \<longleftrightarrow> a = INS_Address i \<and> INS_IsCondBranch i \<and>
         (\<exists>b. addressMap g a = Some b \<and> b \<noteq> ReturnNode g \<and> (b, ReturnNode g) \<in> (flow (heap g))\<^sup>*)) \<and>
      (\<forall>bs. Call_PopControl bs \<in> set cs \<longleftrightarrow> bs \<noteq> [] \<and> sorted bs \<and> distinct bs \<and>
         set bs = {INS_Address j | j b d. j \<in> set is \<and> INS_IsCondBranch j \<and>
           addressMap g (INS_Address j) = Some b \<and> PostDominator (heap g b) = Some d \<and>
           startingAddress (heap g d) = INS_Address i}))"
proof -
  obtain g where g: "initializeRoutineInfo at rtn_name is = Some (Inr g)"
    and calls: "calls = map (\<lambda>i. (i, control_calls g is i)) is"
    using assms(2) by (auto simp: Controlflow_def bind_opt_def split: option.splits sum.splits)
  have parent: "PostDominator (heap g b) \<noteq> None \<longleftrightarrow> b \<noteq> ReturnNode g \<and> (b, ReturnNode g) \<in> (flow (heap g))\<^sup>*" for b
    using routine_tree [OF assms(1) g] unfolding up_def by metis
  have "meeting_point g i \<noteq> None \<longleftrightarrow> INS_IsCondBranch i \<and>
      (\<exists>b. addressMap g (INS_Address i) = Some b \<and> PostDominator (heap g b) \<noteq> None)" for i
    by (auto simp: meeting_point_iff)
  then have push: "Call_PushControl a \<in> set (control_calls g is i) \<longleftrightarrow> a = INS_Address i \<and> INS_IsCondBranch i \<and>
      (\<exists>b. addressMap g a = Some b \<and> b \<noteq> ReturnNode g \<and> (b, ReturnNode g) \<in> (flow (heap g))\<^sup>*)" for a i
    unfolding control_calls_parts(1) parent by auto
  have pop: "bs = controls g is a \<longleftrightarrow> sorted bs \<and> distinct bs \<and>
      set bs = {INS_Address j | j b d. j \<in> set is \<and> INS_IsCondBranch j \<and> addressMap g (INS_Address j) = Some b \<and>
        PostDominator (heap g b) = Some d \<and> startingAddress (heap g d) = a}" for bs a
  proof -
    have "bs = controls g is a \<longleftrightarrow> sorted bs \<and> distinct bs \<and> set bs = set (controls g is a)"
      using controls_set(2,3) sorted_distinct_set_unique by blast
    also have "set (controls g is a) = {INS_Address j | j b d. j \<in> set is \<and> INS_IsCondBranch j \<and>
        addressMap g (INS_Address j) = Some b \<and> PostDominator (heap g b) = Some d \<and> startingAddress (heap g d) = a}"
      by (auto simp: controls_set(1) meeting_point_iff)
    finally show ?thesis .
  qed
  show ?thesis
    using g unfolding calls by (intro exI [of _ g]) (auto simp: control_calls_parts(2,3) push pop comp_def)
qed

theorem control_calls_exact_witness:
  "\<exists>calls cs ds. Controlflow ascending no_names False meeting_arms = Some (Inr calls) \<and>
     (jump_if 101 103, cs) \<in> set calls \<and> Call_PushControl 101 \<in> set cs \<and>
     (plain_ins 102, ds) \<in> set calls \<and> (\<forall>a. Call_PushControl a \<notin> set ds)"
proof -
  let ?g = "graph_of ascending meeting_arms"
  let ?calls = "map (\<lambda>i. (i, control_calls ?g meeting_arms i)) meeting_arms"
  have run: "Controlflow ascending no_names False meeting_arms = Some (Inr ?calls)"
    using meeting_arms_graph by (simp add: Controlflow_def)
  have "(0, 3) \<in> flow (heap ?g)" "(3, 1) \<in> flow (heap ?g)"
    using meeting_arms_graph by (simp_all add: flow_def)
  then have r: "(0, 1) \<in> (flow (heap ?g))\<^sup>*" by (meson converse_rtrancl_into_rtrancl rtrancl.rtrancl_refl)
  have i: "(jump_if 101 103, control_calls ?g meeting_arms (jump_if 101 103)) \<in> set ?calls"
    "(plain_ins 102, control_calls ?g meeting_arms (plain_ins 102)) \<in> set ?calls"
    by (simp_all add: meeting_arms_def)
  have f: "INS_IsCondBranch (jump_if 101 103)" "INS_Address (jump_if 101 103) = 101" "\<not> INS_IsCondBranch (plain_ins 102)"
    by (simp_all add: jump_if_def plain_ins_def)
  obtain g where g: "initializeRoutineInfo ascending no_names meeting_arms = Some (Inr g)"
    and push: "\<And>i cs a. (i, cs) \<in> set ?calls \<Longrightarrow> Call_PushControl a \<in> set cs \<longleftrightarrow> a = INS_Address i \<and> INS_IsCondBranch i \<and>
         (\<exists>b. addressMap g a = Some b \<and> b \<noteq> ReturnNode g \<and> (b, ReturnNode g) \<in> (flow (heap g))\<^sup>*)"
    using control_calls_exact [OF samples_ok(1) run]
    by (elim exE conjE) (rule that, assumption, drule (1) bspec, simp)
  have "g = ?g" using g meeting_arms_graph by simp
  then have "Call_PushControl 101 \<in> set (control_calls ?g meeting_arms (jump_if 101 103))"
    unfolding push [OF i(1)] using f r meeting_arms_meets meeting_arms_graph by auto
  moreover have "Call_PushControl a \<notin> set (control_calls ?g meeting_arms (plain_ins 102))" for a
    unfolding push [OF i(2)] using f by simp
  ultimately show ?thesis using run i by blast
qed

text \<open>
  C17: A branch whose arms meet only at the return of the routine is pushed and never popped:
  its meeting point is the flag 2 of the return block, where no instruction is.
\<close>

theorem return_meeting_never_popped:
  assumes "addresses_ok is" "i \<in> set is" "meeting_point g i = Some 2"
  shows "Call_PushControl (INS_Address i) \<in> set (control_calls g is i) \<and>
    (\<forall>j bs. j \<in> set is \<and> Call_PopControl bs \<in> set (control_calls g is j) \<longrightarrow> INS_Address i \<notin> set bs)"
proof -
  have "INS_Address i \<notin> set (controls g is (INS_Address j))" if j: "j \<in> set is" for j
  proof
    assume "INS_Address i \<in> set (controls g is (INS_Address j))"
    then obtain k where "k \<in> set is" "INS_Address k = INS_Address i" "meeting_point g k = Some (INS_Address j)"
      by (auto simp: controls_set(1))
    then have "k = i" using addresses_unique [OF assms(1,2)] by blast
    then have "INS_Address j = 2"
      using \<open>meeting_point g k = Some (INS_Address j)\<close> assms(3) by simp
    then show False using assms(1) j by (auto simp: addresses_ok_def)
  qed
  then show ?thesis
    using assms(3) by (auto simp: control_calls_def split: option.splits list.splits)
qed

definition pops :: "addrint \<Rightarrow> control_call \<Rightarrow> bool" where
  "pops a c = (case c of Call_PushControl _ \<Rightarrow> False | Call_PopControl bs \<Rightarrow> a \<in> set bs)"

theorem return_meeting_never_popped_witness:
  "\<exists>g. initializeRoutineInfo ascending no_names returning_arms = Some (Inr g) \<and>
     Call_PushControl 101 \<in> set (control_calls g returning_arms (jump_if 101 103)) \<and>
     filter (pops 101) (concat (map (control_calls g returning_arms) returning_arms)) = []"
proof -
  let ?g = "graph_of ascending returning_arms"
  have g: "initializeRoutineInfo ascending no_names returning_arms = Some (Inr ?g) \<and>
    addressMap ?g 101 = Some 0 \<and> PostDominator (heap ?g 0) = Some 1 \<and> startingAddress (heap ?g 1) = 2"
    by (rule graph_ofI) (simp add: sample_defs graph_eval Let_def)
  have m: "meeting_point ?g (jump_if 101 103) = Some 2"
    using g by (simp add: meeting_point_def jump_if_def plain_ins_def)
  have i: "jump_if 101 103 \<in> set returning_arms" "INS_Address (jump_if 101 103) = 101"
    by (simp_all add: returning_arms_def jump_if_def plain_ins_def)
  note never = return_meeting_never_popped [OF samples_ok(2) i(1) m, unfolded i(2)]
  then have "filter (pops 101) (concat (map (control_calls ?g returning_arms) returning_arms)) = []"
    by (auto simp: filter_empty_conv pops_def split: control_call.splits)
  then show ?thesis using g never by blast
qed

text \<open>A routine whose first instruction is a branch over the second one.\<close>

definition branch_first :: "cfg_ins list" where
  "branch_first = [jump_if 100 102, plain_ins 101, return_ins 102]"

text \<open>
  A branch that is the first instruction of a routine is never passed to \<open>BranchIns\<close>, so the
  edge to its target is missing: the branch over 101 is closed at 101, inside its own arm,
  instead of at 102, where its arms meet.
\<close>

theorem first_branch_closed_in_arm:
  "Controlflow ascending no_names False branch_first =
     Some (Inr [(jump_if 100 102, [Call_PushControl 100]), (plain_ins 101, [Call_PopControl [100]]),
                (return_ins 102, [])]) \<and>
   addresses_ok branch_first \<and> closed_routine branch_first"
proof -
  let ?g = "graph_of ascending branch_first"
  have g: "initializeRoutineInfo ascending no_names branch_first = Some (Inr ?g) \<and>
    addressMap ?g 100 = Some 0 \<and> PostDominator (heap ?g 0) = Some 2 \<and> startingAddress (heap ?g 2) = 101"
    by (rule graph_ofI) (simp add: branch_first_def sample_defs graph_eval Let_def)
  have m: "meeting_point ?g (jump_if 100 102) = Some 101" "meeting_point ?g (plain_ins 101) = None"
    "meeting_point ?g (return_ins 102) = None"
    using g by (simp_all add: meeting_point_def jump_if_def plain_ins_def return_ins_def)
  have c: "controls ?g branch_first = (\<lambda>_. [])(101 := [100])"
    using m by (simp add: controls_def branch_first_def insort_insert_key_def)
      (simp add: jump_if_def plain_ins_def)
  have a: "INS_Address (jump_if 100 102) = 100" "INS_Address (plain_ins 101) = 101"
    "INS_Address (return_ins 102) = 102"
    by (simp_all add: jump_if_def plain_ins_def return_ins_def)
  have "control_calls ?g branch_first (jump_if 100 102) = [Call_PushControl 100]"
    "control_calls ?g branch_first (plain_ins 101) = [Call_PopControl [100]]"
    "control_calls ?g branch_first (return_ins 102) = []"
    by (simp_all add: control_calls_def m c a)
  then show ?thesis
    using g by (simp add: Controlflow_def branch_first_def)
      (simp add: addresses_ok_def closed_routine_def branch_first_def sample_defs)
qed

end
