(* ===== verification/Implicit_Flow.thy ===== *)
theory Implicit_Flow
  imports Tool_Start Control_Graph
begin

text \<open>
  Taint through control flow, over the parts that bring it about: a comparison gives its
  operands' marks to the flags (\<open>src/instrument_functions.c\<close>), \<open>PushControl\<close> makes the branch
  pending with the marks of the flags, the writes in its arm add the marks of the pending
  branches, and \<open>PopControl\<close> ends it at the meeting point (\<open>src/dytan.cpp\<close>).
\<close>

section \<open>Single events, by their marks\<close>

abbreviation marks_now :: "config \<Rightarrow> taint" where
  "marks_now c \<equiv> abs_state (engine (source_state (snd c)))"

lemma engine_event:
  assumes "config_ok c" "possible e" "happen e c = on_engine f c"
    and "f (engine (source_state (snd c))) = Inr st'"
  shows "\<exists>c'. tool_step c e c' \<and> config_ok c' \<and> engine (source_state (snd c')) = st'"
proof -
  obtain m s where c: "c = (m, s)" by (cases c)
  have h: "happen e c = Inr (m, with_engine (\<lambda>_. st') s)"
    using assms(3,4) by (simp add: c on_engine_def)
  then show ?thesis
    using tool_step.step [OF assms(2) h] happen_keeps [OF assms(1,2) h]
    by (intro exI [of _ "(m, with_engine (\<lambda>_. st') s)"]) (simp add: with_engine_def)
qed

lemma config_state_ok: "config_ok c \<Longrightarrow> state_ok (engine (source_state (snd c)))"
  by (cases c) (simp add: config_ok.simps tool_ok_def engine_ok_def)

lemma instruction_event:
  assumes "config_ok c" "implements (Dataflow ins) spec" "writes_ok x"
  shows "\<exists>c'. tool_step c (Instruction ins x) c' \<and> config_ok c' \<and>
    regs (marks_now c') = regs (spec x (marks_now c)) \<and>
    mem (marks_now c') = mem (spec x (marks_now c)) \<and> ctl (marks_now c') = ctl (spec x (marks_now c))"
proof -
  obtain cs st' where st': "Dataflow ins = Inr cs" "run_calls x cs (engine (source_state (snd c))) = Inr st'"
    "regs (abs_state st') = regs (spec x (marks_now c))"
    "mem (abs_state st') = mem (spec x (marks_now c))" "ctl (abs_state st') = ctl (spec x (marks_now c))"
    using implements_run [OF assms(2,3) config_state_ok [OF assms(1)]] by blast
  then show ?thesis
    using engine_event [of c "Instruction ins x" "run_calls x cs" st'] assms(1,3) by force
qed

lemma branch_event:
  assumes "config_ok c"
  shows "\<exists>c'. tool_step c (Branch a) c' \<and> config_ok c' \<and> marks_now c' = push_control a (marks_now c)"
proof -
  obtain st' where "PushControl a (engine (source_state (snd c))) = Inr st'"
    "abs_state st' = push_control a (marks_now c)"
    using PushControl_ok [OF config_state_ok [OF assms], of a] by blast
  then show ?thesis using engine_event [OF assms, of "Branch a"] by fastforce
qed

lemma meet_event:
  assumes "config_ok c"
  shows "\<exists>c'. tool_step c (Meet as) c' \<and> config_ok c' \<and> marks_now c' = pop_control as (marks_now c)"
  using engine_event [OF assms, of "Meet as" "\<lambda>st. Inr (PopControl as st)"]
    PopControl_ok [OF config_state_ok [OF assms], of as] by fastforce

lemma mark_event:
  assumes "config_ok c" "0 \<le> rnd" "0 \<le> m" "m < NUMBER_OF_TAINT_MARKS (engine (source_state (snd c)))"
  shows "\<exists>c'. tool_step c (Mark rnd a sz m) c' \<and> config_ok c' \<and>
    marks_now c' = taint_range a sz (nat m) (marks_now c)"
proof -
  let ?st = "engine (source_state (snd c))"
  have "new_mark rnd m ?st = Inr (m, ?st\<lparr>taintGen := taintGen ?st\<rparr>)"
    using assms(3,4) by (simp add: new_mark_def)
  then obtain st' where "SetNewTaintForMemory rnd a sz m ?st = Inr st'"
    "abs_state st' = taint_range a sz (nat m) (abs_state ?st)"
    using SetNewTaintForMemory_mark [OF config_state_ok [OF assms(1)] _ assms(3,4)] by blast
  then show ?thesis
    using engine_event [OF assms(1), of "Mark rnd a sz m" "SetNewTaintForMemory rnd a sz m"] assms(2,3)
    by fastforce
qed

section \<open>A branch on a comparison\<close>

lemma Dataflow_CMP: "INS_Opcode ins = ''CMP'' \<Longrightarrow> Dataflow ins = Instrument_CMP ins"
  by (simp add: Dataflow_def instrument_functions_def instrument_table_1_def instrument_table_2_def)

lemma Dataflow_MOV: "INS_Opcode ins = ''MOV'' \<Longrightarrow> Dataflow ins = Instrument_MOV ins"
  by (simp add: Dataflow_def instrument_functions_def instrument_table_1_def instrument_table_2_def)

text \<open>The comparison and the branch: the branch is pending with the marks of both operands.\<close>

lemma comparison_pends:
  assumes "config_ok c" "ctl (marks_now c) = (\<lambda>_. None)" "writes_ok x"
    and "INS_Opcode cmp = ''CMP''" "readable cmp 0" "readable_imm cmp 1"
    and F: "F = operand_marks x cmp 0 (marks_now c) \<union> operand_marks x cmp 1 (marks_now c)" "F \<noteq> {}"
  shows "\<exists>c'. tool_run c [Instruction cmp x, Branch a] c' \<and> config_ok c' \<and>
    ctl (marks_now c') = [a \<mapsto> F] \<and> mem (marks_now c') = mem (marks_now c)"
proof -
  have free: "control_marks (marks_now c) = {}" using assms(2) by (simp add: control_marks_def)
  have "implements (Dataflow cmp) (\<lambda>x a. write_reg REG_RFLAGS
      (operand_marks x cmp 0 a \<union> operand_marks x cmp 1 a) a)"
    unfolding Dataflow_CMP [OF assms(4)] by (rule Instrument_CMP_flow) (use assms(5,6) in simp_all)
  then obtain c1 where c1: "tool_step c (Instruction cmp x) c1" "config_ok c1"
    "regs (marks_now c1) = regs (write_reg REG_RFLAGS F (marks_now c))"
    "mem (marks_now c1) = mem (marks_now c)" "ctl (marks_now c1) = (\<lambda>_. None)"
    using instruction_event [OF assms(1) _ assms(3)] assms(2) F(1) by (fastforce simp: write_reg_def)
  have flags: "regs (marks_now c1) REG_RFLAGS = Some F"
    unfolding c1(3) by (simp add: write_reg_def free)
  obtain c2 where c2: "tool_step c1 (Branch a) c2" "config_ok c2"
    "marks_now c2 = push_control a (marks_now c1)" using branch_event [OF c1(2)] by blast
  have "ctl (marks_now c2) = [a \<mapsto> F] \<and> mem (marks_now c2) = mem (marks_now c)"
    unfolding c2(3) using flags c1(4,5) F(2) by (simp add: push_control_def del: abs_state_sel)
  then show ?thesis
    using c2(2) run_snoc [OF run_snoc [OF run_Nil c1(1)] c2(1)] by (intro exI [of _ c2]) simp
qed

section \<open>The calls at an instruction, as events\<close>

fun control_event :: "control_call \<Rightarrow> event" where
  "control_event (Call_PushControl a) = Branch a"
| "control_event (Call_PopControl bs) = Meet bs"

text \<open>A pop in ascending order ends at the first branch that is not pending.\<close>

lemma pop_control_ascending:
  assumes "sorted bs" "distinct bs"
  shows "ctl (pop_control bs a) x =
    (if x \<in> set bs \<and> (\<forall>b \<in> set bs. b \<le> x \<longrightarrow> ctl a b \<noteq> None) then None else ctl a x)"
  using assms
proof (induction bs arbitrary: a)
  case (Cons b bs)
  show ?case
  proof (cases "ctl a b")
    case None
    then show ?thesis using Cons.prems by auto
  next
    case (Some F)
    let ?a = "a\<lparr>ctl := (ctl a)(b := None)\<rparr>"
    have "ctl (pop_control bs ?a) x =
      (if x \<in> set bs \<and> (\<forall>y \<in> set bs. y \<le> x \<longrightarrow> ctl ?a y \<noteq> None) then None else ctl ?a x)"
      using Cons.prems by (intro Cons.IH) simp_all
    also have "\<dots> = (if x \<in> set (b # bs) \<and> (\<forall>y \<in> set (b # bs). y \<le> x \<longrightarrow> ctl a y \<noteq> None)
      then None else ctl a x)"
      using Some Cons.prems by auto
    finally show ?thesis using Some by simp
  qed
qed simp

lemma control_calls_run:
  assumes "config_ok c" "meeting_point g j = None"
  shows "\<exists>c'. tool_run c (map control_event (control_calls g xs j)) c' \<and> config_ok c' \<and>
    marks_now c' = pop_control (controls g xs (INS_Address j)) (marks_now c)"
proof (cases "controls g xs (INS_Address j)")
  case Nil
  then show ?thesis using assms run_Nil [of c] by (intro exI [of _ c]) (simp add: control_calls_def)
next
  case (Cons b bs)
  obtain c' where "tool_step c (Meet (b # bs)) c'" "config_ok c'" "marks_now c' = pop_control (b # bs) (marks_now c)"
    using meet_event [OF assms(1)] by blast
  then show ?thesis
    using Cons assms(2) run_snoc [OF run_Nil [of c]] by (intro exI [of _ c']) (simp add: control_calls_def)
qed

end
