(* ===== verification/Class_Flow.thy ===== *)
theory Class_Flow
  imports Dispatch
begin

text \<open>
  The taint policy of the tool, class by class: a table of rules that says, for the classes of
  instructions that move taint and the shapes of their operands, which marks go where, without
  mentioning handlers, temporaries or inserted calls. The dispatch table and the handlers
  (\<open>src/dytan.cpp\<close>, \<open>src/instrument_functions.c\<close>) are shown to implement it.
\<close>

section \<open>Rules\<close>

record taint_rule =
  classes :: "string list"
  shape :: "ins \<Rightarrow> bool"
  moves :: "ins \<Rightarrow> execution \<Rightarrow> taint \<Rightarrow> taint"

text \<open>The accumulator, the upper half and the flags of a multiplication, by width.\<close>

definition accumulator :: "ins \<Rightarrow> reg \<times> reg \<times> reg" where
  "accumulator ins = (if INS_OperandWidth ins 0 = 32 then (REG_EAX, REG_EDX, REG_EFLAGS)
     else (REG_RAX, REG_RDX, REG_RFLAGS))"

definition two_widths :: "ins \<Rightarrow> bool" where
  "two_widths ins \<longleftrightarrow> INS_OperandWidth ins 0 = 32 \<or> INS_OperandWidth ins 0 = 64"

definition product :: "ins \<Rightarrow> execution \<Rightarrow> taint \<Rightarrow> taint" where
  "product ins x a =
     (let (ax, dx, fl) = accumulator ins; M = marks_of (regs a ax) \<union> operand_marks x ins 0 a in
      write_reg fl M (write_reg dx M (write_reg ax M a)))"

definition quotient :: "ins \<Rightarrow> execution \<Rightarrow> taint \<Rightarrow> taint" where
  "quotient ins x a =
     (let (ax, dx, fl) = accumulator ins;
          M = marks_of (regs a ax) \<union> marks_of (regs a dx) \<union> operand_marks x ins 0 a in
      clear_reg fl (write_reg dx M (write_reg ax M a)))"

text \<open>Arithmetic: results and flags take the marks of what the result is computed from.\<close>

definition arithmetic_rules :: "taint_rule list" where
  "arithmetic_rules =
     [\<lparr>classes = [''ADD'', ''SUB'', ''AND'', ''OR''], shape = alu_operands,
       moves = (\<lambda>ins x a. let M = operand_marks x ins 0 a \<union> operand_marks x ins 1 a in
         write_reg REG_RFLAGS M (write_operand x ins 0 M a))\<rparr>,
      \<lparr>classes = [''ADC'', ''SBB''], shape = alu_operands,
       moves = (\<lambda>ins x a. let M = operand_marks x ins 0 a \<union> operand_marks x ins 1 a \<union> marks_of (regs a REG_RFLAGS) in
         write_reg REG_RFLAGS M (write_operand x ins 0 M a))\<rparr>,
      \<lparr>classes = [''XOR''], shape = alu_operands,
       moves = (\<lambda>ins x a. let M = operand_marks x ins 0 a \<union> operand_marks x ins 1 a in
         write_reg REG_RFLAGS M (if same_register ins then clear_reg (INS_OperandReg ins 0) a
           else write_operand x ins 0 M a))\<rparr>,
      \<lparr>classes = [''INC'', ''DEC'', ''NEG''], shape = (\<lambda>ins. readable ins 0),
       moves = (\<lambda>ins x a. write_reg REG_RFLAGS (operand_marks x ins 0 a) a)\<rparr>,
      \<lparr>classes = [''CMP''], shape = (\<lambda>ins. readable ins 0 \<and> readable_imm ins 1),
       moves = (\<lambda>ins x a. write_reg REG_RFLAGS (operand_marks x ins 0 a \<union> operand_marks x ins 1 a) a)\<rparr>,
      \<lparr>classes = [''TEST''], shape = (\<lambda>ins. readable ins 0 \<and> reg_or_imm ins 1),
       moves = (\<lambda>ins x a. write_reg REG_RFLAGS (operand_marks x ins 0 a \<union> operand_marks x ins 1 a) a)\<rparr>,
      \<lparr>classes = [''SAR'', ''SHL'', ''SHR''], shape = (\<lambda>ins. readable ins 0 \<and> writable ins 0 \<and> reg_or_imm ins 1),
       moves = (\<lambda>ins x a. let M = operand_marks x ins 0 a \<union> operand_marks x ins 1 a in
         write_reg REG_RFLAGS M (write_operand x ins 0 M a))\<rparr>,
      \<lparr>classes = [''SHLD'', ''SHRD''],
       shape = (\<lambda>ins. readable ins 0 \<and> writable ins 0 \<and> \<not> INS_OperandIsReg ins 2 \<and> INS_OperandIsImmediate ins 2),
       moves = (\<lambda>ins x a. let M = operand_marks x ins 0 a \<union> marks_of (regs a (INS_OperandReg ins 1)) in
         write_reg REG_RFLAGS M (write_operand x ins 0 M a))\<rparr>]"

text \<open>The memory form of the long multiplication and its form with one operand, and divisions.\<close>

definition product_rules :: "taint_rule list" where
  "product_rules =
     [\<lparr>classes = [''MUL''], shape = (\<lambda>ins. readable ins 0 \<and> two_widths ins), moves = product\<rparr>,
      \<lparr>classes = [''IMUL''], shape = (\<lambda>ins. operand_count ins = 1 \<and> readable ins 0 \<and> two_widths ins),
       moves = product\<rparr>,
      \<lparr>classes = [''IMUL''],
       shape = (\<lambda>ins. operand_count ins \<in> {2, 3} \<and> \<not> INS_OperandIsReg ins 1 \<and> INS_OperandIsMemory ins 1 \<and>
         INS_IsMemoryRead ins),
       moves = (\<lambda>ins x a. let r = INS_OperandReg ins 0; M = marks_of (regs a r) \<union> operand_marks x ins 1 a in
         write_reg REG_RFLAGS M (write_reg r M a))\<rparr>,
      \<lparr>classes = [''DIV'', ''IDIV''], shape = (\<lambda>ins. readable ins 0 \<and> two_widths ins),
       moves = quotient\<rparr>]"

text \<open>Moves: the destination takes the marks of the source.\<close>

definition move_rules :: "taint_rule list" where
  "move_rules =
     [\<lparr>classes = [''MOV'', ''MOVZX'', ''MOVSX''], shape = (\<lambda>ins. readable_imm ins 1 \<and> writable ins 0),
       moves = (\<lambda>ins x a. write_operand x ins 0 (operand_marks x ins 1 a) a)\<rparr>,
      \<lparr>classes = [''MOVDQU''], shape = (\<lambda>ins. readable ins 1 \<and> writable ins 0),
       moves = (\<lambda>ins x a. write_operand x ins 0 (operand_marks x ins 1 a) a)\<rparr>,
      \<lparr>classes = [''LDDQU''],
       shape = (\<lambda>ins. INS_OperandIsMemory ins 1 \<and> INS_IsMemoryRead ins \<and> INS_OperandIsReg ins 0),
       moves = (\<lambda>ins x a. write_reg (INS_OperandReg ins 0)
         (mem_marks a (IARG_MEMORYREAD_EA x) (IARG_MEMORYREAD_SIZE x)) a)\<rparr>,
      \<lparr>classes = [''LEA''], shape = (\<lambda>_. True),
       moves = (\<lambda>ins x a. write_reg (INS_OperandReg ins 0) (marks_of (regs a (INS_OperandMemoryBaseReg ins 1)) \<union>
         marks_of (regs a (INS_OperandMemoryIndexReg ins 1))) a)\<rparr>,
      \<lparr>classes = [''PUSH''], shape = (\<lambda>ins. readable_imm ins 0 \<and> INS_IsMemoryWrite ins),
       moves = (\<lambda>ins x a. write_mem (IARG_MEMORYWRITE_EA x) (IARG_MEMORYWRITE_SIZE x) (operand_marks x ins 0 a) a)\<rparr>,
      \<lparr>classes = [''POP''], shape = (\<lambda>ins. INS_IsMemoryRead ins \<and> writable ins 0),
       moves = (\<lambda>ins x a. write_operand x ins 0 (mem_marks a (IARG_MEMORYREAD_EA x) (IARG_MEMORYREAD_SIZE x)) a)\<rparr>,
      \<lparr>classes = [''CWDE''], shape = (\<lambda>_. True),
       moves = (\<lambda>ins x a. write_reg REG_EAX (marks_of (regs a REG_AX)) a)\<rparr>,
      \<lparr>classes = [''CDQ''], shape = two_widths,
       moves = (\<lambda>ins x a. write_reg (fst (snd (accumulator ins))) (marks_of (regs a (fst (accumulator ins)))) a)\<rparr>]"

text \<open>Exchanges, where each operand takes the marks of the other.\<close>

definition exchange_rules :: "taint_rule list" where
  "exchange_rules =
     [\<lparr>classes = [''XCHG''], shape = (\<lambda>ins. readable ins 0 \<and> writable ins 0 \<and> readable ins 1 \<and> writable ins 1),
       moves = (\<lambda>ins x a. write_operand x ins 1 (operand_marks x ins 0 a)
         (write_operand x ins 0 (operand_marks x ins 1 a) a))\<rparr>,
      \<lparr>classes = [''XADD''], shape = (\<lambda>ins. readable ins 0 \<and> writable ins 0 \<and> INS_OperandIsReg ins 1),
       moves = (\<lambda>ins x a. let D = operand_marks x ins 0 a; M = D \<union> operand_marks x ins 1 a in
         write_reg REG_RFLAGS M (write_reg (INS_OperandReg ins 1) D (write_operand x ins 0 M a)))\<rparr>,
      \<lparr>classes = [''CMPXCHG''], shape = (\<lambda>ins. two_widths ins \<and> INS_OperandIsReg ins 0),
       moves = (\<lambda>ins x a. let M = marks_of (regs a (INS_OperandReg ins 1)) in
         if IARG_REG_VALUE x (INS_OperandReg ins 0) = IARG_REG_VALUE x (INS_OperandReg ins 2)
         then write_reg (INS_OperandReg ins 0) M a else write_reg (INS_OperandReg ins 2) M a)\<rparr>]"

text \<open>Strings and flags.\<close>

definition string_rules :: "taint_rule list" where
  "string_rules =
     [\<lparr>classes = [''MOVSB'', ''MOVSW'', ''MOVSD''], shape = (\<lambda>_. True),
       moves = (\<lambda>ins x a. write_mem (IARG_MEMORYWRITE_EA x) (IARG_MEMORYWRITE_SIZE x)
         (mem_marks a (IARG_MEMORYREAD_EA x) (IARG_MEMORYREAD_SIZE x) \<union>
          (if INS_HasRealRep ins then marks_of (regs a REG_ECX) else {})) a)\<rparr>,
      \<lparr>classes = [''CMPSB''], shape = INS_IsMemoryRead,
       moves = (\<lambda>ins x a. write_reg REG_RFLAGS
         (mem_marks a (IARG_MEMORYREAD_EA x) (IARG_MEMORYREAD_SIZE x) \<union>
          mem_marks a (IARG_MEMORYREAD2_EA x) (IARG_MEMORYREAD_SIZE x)) a)\<rparr>,
      \<lparr>classes = [''STOSB''], shape = INS_IsMemoryWrite,
       moves = (\<lambda>ins x a. write_mem (IARG_MEMORYWRITE_EA x) (IARG_MEMORYWRITE_SIZE x) (marks_of (regs a REG_AL)) a)\<rparr>,
      \<lparr>classes = [''STOSD''], shape = INS_IsMemoryWrite,
       moves = (\<lambda>ins x a. write_mem (IARG_MEMORYWRITE_EA x) (IARG_MEMORYWRITE_SIZE x) (marks_of (regs a REG_AX)) a)\<rparr>,
      \<lparr>classes = [''SCASB''], shape = INS_IsMemoryRead,
       moves = (\<lambda>ins x a. let M = mem_marks a (IARG_MEMORYREAD_EA x) (IARG_MEMORYREAD_SIZE x) \<union> marks_of (regs a REG_AL);
           a' = write_reg REG_RFLAGS M a in
         if INS_RepPrefix ins \<or> INS_RepnePrefix ins then write_reg REG_ECX M a' else a')\<rparr>,
      \<lparr>classes = [''PUSHFD''], shape = (\<lambda>_. True),
       moves = (\<lambda>ins x a. write_mem (IARG_MEMORYWRITE_EA x) (IARG_MEMORYWRITE_SIZE x) (marks_of (regs a REG_RFLAGS)) a)\<rparr>,
      \<lparr>classes = [''POPFD''], shape = INS_IsMemoryRead, moves = (\<lambda>ins x a. a)\<rparr>,
      \<lparr>classes = [''SETB'', ''SETNB'', ''SETZ'', ''SETNZ'', ''SETBE'', ''SETNBE'', ''SETS'', ''SETL'', ''SETNL'',
         ''SETLE'', ''SETNLE''], shape = (\<lambda>ins. INS_OperandIsReg ins 0),
       moves = (\<lambda>ins x a. write_reg (INS_OperandReg ins 0) (marks_of (regs a REG_RFLAGS)) a)\<rparr>]"

text \<open>Results that do not depend on tainted operands lose their marks.\<close>

definition clearing_rules :: "taint_rule list" where
  "clearing_rules =
     [\<lparr>classes = [''RDTSC''], shape = (\<lambda>_. True), moves = (\<lambda>ins x a. clear_reg REG_EDX (clear_reg REG_EAX a))\<rparr>,
      \<lparr>classes = [''CPUID''], shape = (\<lambda>_. True),
       moves = (\<lambda>ins x a. clear_reg REG_EDX (clear_reg REG_ECX (clear_reg REG_EBX (clear_reg REG_EAX a))))\<rparr>,
      \<lparr>classes = [''BSF'', ''BSR''], shape = (\<lambda>_. True), moves = (\<lambda>ins x. clear_reg (INS_OperandReg ins 0))\<rparr>,
      \<lparr>classes = [''CLD'', ''STD''], shape = (\<lambda>_. True), moves = (\<lambda>ins x. clear_reg REG_RFLAGS)\<rparr>,
      \<lparr>classes = [''FNSTSW''], shape = (\<lambda>ins. INS_OperandIsReg ins 0),
       moves = (\<lambda>ins x. clear_reg (INS_OperandReg ins 0))\<rparr>,
      \<lparr>classes = [''FNSTCW'', ''STMXCSR''], shape = (\<lambda>_. True),
       moves = (\<lambda>ins x. clear_mem (IARG_MEMORYWRITE_EA x) (IARG_MEMORYWRITE_SIZE x))\<rparr>]"

definition taint_rules :: "taint_rule list" where
  "taint_rules = arithmetic_rules @ product_rules @ move_rules @ exchange_rules @ string_rules @ clearing_rules"

section \<open>Handlers that have no lemma of their own\<close>

lemma carries_load_mem [carries_intros]:
  "INS_IsMemoryRead ins \<Longrightarrow> carries (load_mem ins k s) (\<lambda>x a.
    set_tmp s (mem_marks a (IARG_MEMORYREAD_EA x) (IARG_MEMORYREAD_SIZE x)) a)"
  by (simp add: carries_def load_mem_def return_unless_def insert_call_def engine_simps)

lemma SHLD_immediate:
  assumes "readable ins 0" "writable ins 0" "\<not> INS_OperandIsReg ins 2" "INS_OperandIsImmediate ins 2"
  shows "implements (Instrument_SHLD ins) (\<lambda>x a.
    let M = operand_marks x ins 0 a \<union> marks_of (regs a (INS_OperandReg ins 1)) in
    write_reg REG_RFLAGS M (write_operand x ins 0 M a))"
proof -
  have h: "Instrument_SHLD ins = handler
      [load_rm ins 0 Dest, load_reg (INS_OperandReg ins 1) Cnt, insert_call (Call_ClearTaintSet Src),
       store_rm ins 0 [Dest, Src, Cnt], store_reg REG_RFLAGS [Dest, Src, Cnt]]"
    using assms(3,4) by (simp add: Instrument_SHLD_def)
  show ?thesis
    unfolding h
    by (rule implements_handler, (rule carries_intros assms(1,2))+) (simp add: engine_simps Let_def)
qed

lemma mul_registers_accumulator:
  assumes "two_widths ins" "accumulator ins = (ax, dx, fl)"
  obtains s where "mul_registers (INS_OperandWidth ins 0) = Some (ax, dx, fl, s)"
  using assms by (auto simp: two_widths_def accumulator_def mul_registers_def intro: that split: if_splits)

lemma MUL_product:
  assumes "readable ins 0" "two_widths ins"
  shows "implements (Instrument_MUL ins) (product ins)"
proof -
  obtain ax dx fl where a: "accumulator ins = (ax, dx, fl)" by (cases "accumulator ins")
  obtain s where "mul_registers (INS_OperandWidth ins 0) = Some (ax, dx, fl, s)"
    by (rule mul_registers_accumulator [OF assms(2) a])
  from Instrument_MUL_flow [OF assms(1) this] show ?thesis
    unfolding product_def a by (simp add: Let_def)
qed

lemma DIV_quotient:
  assumes "readable ins 0" "two_widths ins" "h \<in> {Instrument_DIV, Instrument_IDIV}"
  shows "implements (h ins) (quotient ins)"
proof -
  obtain ax dx fl where a: "accumulator ins = (ax, dx, fl)" by (cases "accumulator ins")
  obtain s where "mul_registers (INS_OperandWidth ins 0) = Some (ax, dx, fl, s)"
    by (rule mul_registers_accumulator [OF assms(2) a])
  from Instrument_DIV_flow [OF assms(1) this assms(3)] show ?thesis unfolding quotient_def a by (simp add: Let_def)
qed

lemma IMUL_memory:
  assumes "operand_count ins = 2 \<or> operand_count ins = 3" "\<not> INS_OperandIsReg ins 1" "INS_OperandIsMemory ins 1"
    and "INS_IsMemoryRead ins"
  shows "implements (Instrument_IMUL ins) (\<lambda>x a. let r = INS_OperandReg ins 0;
      M = marks_of (regs a r) \<union> operand_marks x ins 1 a in write_reg REG_RFLAGS M (write_reg r M a))"
proof -
  let ?r = "INS_OperandReg ins 0"
  have h: "Instrument_IMUL ins = handler
      [load_reg ?r Dest, load_mem ins 1 Src, store_reg ?r [Dest, Src], store_reg REG_RFLAGS [Dest, Src]]"
    using assms(1-3) by (auto simp: Instrument_IMUL_def imul_source_def)
  show ?thesis
    unfolding h
    by (rule implements_handler, (rule carries_intros assms(4))+)
      (use assms(2,3) in \<open>simp add: engine_simps Let_def operand_marks_def\<close>)
qed

lemma MOVDQU_implements:
  assumes "readable ins 1" "writable ins 0"
  shows "implements (Instrument_MOVDQU ins) (\<lambda>x a. write_operand x ins 0 (operand_marks x ins 1 a) a)"
  unfolding Instrument_MOVDQU_def
  by (rule implements_handler, (rule carries_intros assms)+) (simp add: engine_simps Let_def)

lemma LDDQU_implements:
  assumes "INS_OperandIsMemory ins 1" "INS_IsMemoryRead ins" "INS_OperandIsReg ins 0"
  shows "implements (Instrument_LDDQU ins) (\<lambda>x a. write_reg (INS_OperandReg ins 0)
    (mem_marks a (IARG_MEMORYREAD_EA x) (IARG_MEMORYREAD_SIZE x)) a)"
proof -
  have h: "Instrument_LDDQU ins = handler [load_mem ins 1 Src, store_reg (INS_OperandReg ins 0) [Src]]"
    using assms(1,3) by (simp add: Instrument_LDDQU_def)
  show ?thesis
    unfolding h by (rule implements_handler, (rule carries_intros assms(2))+) (simp add: engine_simps)
qed

lemma CWDE_implements:
  shows "implements (Instrument_CWDE ins) (\<lambda>x a. write_reg REG_EAX (marks_of (regs a REG_AX)) a)"
  unfolding Instrument_CWDE_def
  by (rule implements_handler, (rule carries_intros)+) (simp add: engine_simps Let_def)

lemma CDQ_implements:
  assumes "two_widths ins"
  shows "implements (Instrument_CDQ ins) (\<lambda>x a.
    write_reg (fst (snd (accumulator ins))) (marks_of (regs a (fst (accumulator ins)))) a)"
proof (cases "INS_OperandWidth ins 0 = 32")
  case True
  have h: "Instrument_CDQ ins = handler [load_reg REG_EAX Eax, store_reg REG_EDX [Eax]]"
    using True by (simp add: Instrument_CDQ_def)
  show ?thesis
    unfolding h by (rule implements_handler, (rule carries_intros)+) (simp add: engine_simps accumulator_def True)
next
  case False
  then have h: "Instrument_CDQ ins = handler [load_reg REG_RAX Rax, store_reg REG_RDX [Rax]]"
    using assms by (simp add: Instrument_CDQ_def two_widths_def)
  show ?thesis
    unfolding h by (rule implements_handler, (rule carries_intros)+) (simp add: engine_simps accumulator_def False)
qed

lemma XCHG_implements:
  assumes "readable ins 0" "writable ins 0" "readable ins 1" "writable ins 1"
  shows "implements (Instrument_XCHG ins) (\<lambda>x a. write_operand x ins 1 (operand_marks x ins 0 a)
    (write_operand x ins 0 (operand_marks x ins 1 a) a))"
  unfolding Instrument_XCHG_def
  by (rule implements_handler, (rule carries_intros assms)+) (simp add: engine_simps)

lemma XADD_implements:
  assumes "readable ins 0" "writable ins 0" "INS_OperandIsReg ins 1"
  shows "implements (Instrument_XADD ins) (\<lambda>x a. let D = operand_marks x ins 0 a; M = D \<union> operand_marks x ins 1 a in
    write_reg REG_RFLAGS M (write_reg (INS_OperandReg ins 1) D (write_operand x ins 0 M a)))"
proof -
  have h: "Instrument_XADD ins = handler
      [load_rm ins 0 Dest, load_reg (INS_OperandReg ins 1) Src, store_rm ins 0 [Dest, Src],
       store_reg (INS_OperandReg ins 1) [Dest], store_reg REG_RFLAGS [Dest, Src]]"
    using assms(3) by (simp add: Instrument_XADD_def)
  have o: "operand_marks x ins 1 a = marks_of (regs a (INS_OperandReg ins 1))" for x a
    using assms(3) by (simp add: operand_marks_def)
  show ?thesis
    unfolding h o
    by (rule implements_handler, (rule carries_intros assms(1,2))+) (simp add: engine_simps Let_def)
qed

lemma CMPSB_implements:
  assumes "INS_IsMemoryRead ins"
  shows "implements (Instrument_CMPSB ins) (\<lambda>x a. write_reg REG_RFLAGS
    (mem_marks a (IARG_MEMORYREAD_EA x) (IARG_MEMORYREAD_SIZE x) \<union>
     mem_marks a (IARG_MEMORYREAD2_EA x) (IARG_MEMORYREAD_SIZE x)) a)"
  unfolding Instrument_CMPSB_def
  by (rule implements_handler, (rule carries_intros assms)+) (simp add: engine_simps Let_def)

lemma STOSB_implements:
  assumes "INS_IsMemoryWrite ins"
  shows "implements (Instrument_STOSB ins) (\<lambda>x a.
      write_mem (IARG_MEMORYWRITE_EA x) (IARG_MEMORYWRITE_SIZE x) (marks_of (regs a REG_AL)) a)"
    and "implements (Instrument_STOSD ins) (\<lambda>x a.
      write_mem (IARG_MEMORYWRITE_EA x) (IARG_MEMORYWRITE_SIZE x) (marks_of (regs a REG_AX)) a)"
  unfolding Instrument_STOSB_def Instrument_STOSD_def
  by (rule implements_handler, (rule carries_intros assms)+, simp add: engine_simps)+

lemma SCASB_implements:
  assumes "INS_IsMemoryRead ins"
  shows "implements (Instrument_SCASB ins) (\<lambda>x a.
    let M = mem_marks a (IARG_MEMORYREAD_EA x) (IARG_MEMORYREAD_SIZE x) \<union> marks_of (regs a REG_AL);
        a' = write_reg REG_RFLAGS M a in
    if INS_RepPrefix ins \<or> INS_RepnePrefix ins then write_reg REG_ECX M a' else a')"
proof -
  have s: "carries (step_if b (store_reg r ss)) (\<lambda>x a. if b then write_reg r (tmp_union a ss) a else a)" for b r ss
    using carries_store_reg [of r ss] by (simp add: step_if_def) (simp add: carries_def engine_simps)
  show ?thesis
    unfolding Instrument_SCASB_def
    by (rule implements_handler, (rule carries_intros s assms)+) (simp add: engine_simps Let_def)
qed

lemma PUSHFD_implements:
  "implements (Instrument_PUSHFD ins) (\<lambda>x a.
    write_mem (IARG_MEMORYWRITE_EA x) (IARG_MEMORYWRITE_SIZE x) (marks_of (regs a REG_RFLAGS)) a)"
  unfolding Instrument_PUSHFD_def
  by (rule implements_handler, (rule carries_intros)+) (simp add: engine_simps)

lemma POPFD_implements: "INS_IsMemoryRead ins \<Longrightarrow> implements (Instrument_POPFD ins) (\<lambda>x a. a)"
  unfolding Instrument_POPFD_def
  by (rule implements_handler, (rule carries_intros | assumption)+) (simp add: engine_simps)

lemma SETcc_register:
  assumes "INS_OperandIsReg ins 0"
  shows "implements (Instrument_SETcc ins) (\<lambda>x a.
    write_reg (INS_OperandReg ins 0) (marks_of (regs a REG_RFLAGS)) a)"
proof -
  have h: "Instrument_SETcc ins = handler [load_reg REG_RFLAGS Src, store_reg (INS_OperandReg ins 0) [Src]]"
    using assms by (simp add: Instrument_SETcc_def)
  show ?thesis
    unfolding h by (rule implements_handler, (rule carries_intros)+) (simp add: engine_simps)
qed

lemma CLD_implements:
  "implements (Instrument_CLD ins) (\<lambda>x. clear_reg REG_RFLAGS)"
  "implements (Instrument_STD ins) (\<lambda>x. clear_reg REG_RFLAGS)"
  unfolding Instrument_CLD_def Instrument_STD_def
  by (rule implements_handler, (rule carries_intros)+, simp)+

lemma FNSTSW_implements:
  assumes "INS_OperandIsReg ins 0"
  shows "implements (Instrument_FNSTSW ins) (\<lambda>x. clear_reg (INS_OperandReg ins 0))"
proof -
  have h: "Instrument_FNSTSW ins = handler [clear_reg_step (INS_OperandReg ins 0)]"
    using assms by (simp add: Instrument_FNSTSW_def step_if_def)
  show ?thesis unfolding h by (rule implements_handler, (rule carries_intros)+) simp
qed

lemma FNSTCW_implements:
  "implements (Instrument_FNSTCW ins) (\<lambda>x. clear_mem (IARG_MEMORYWRITE_EA x) (IARG_MEMORYWRITE_SIZE x))"
  "implements (Instrument_STMXCSR ins) (\<lambda>x. clear_mem (IARG_MEMORYWRITE_EA x) (IARG_MEMORYWRITE_SIZE x))"
  unfolding Instrument_FNSTCW_def Instrument_STMXCSR_def
  by (rule implements_handler, (rule carries_intros)+, simp add: engine_simps)+

section \<open>The handlers follow the rules\<close>

definition holds :: "taint_rule \<Rightarrow> bool" where
  "holds ru \<longleftrightarrow> (\<forall>ins. INS_Opcode ins \<in> set (classes ru) \<and> shape ru ins \<longrightarrow>
     implements (Dataflow ins) (moves ru ins))"

text \<open>A rule whose classes the table gives to one handler or to handlers that do the same.\<close>

lemma holdsI:
  assumes "list_all (\<lambda>k. (k, h k) \<in> set (instrument_table_1 @ instrument_table_2)) cs"
    and "\<And>k ins. k \<in> set cs \<Longrightarrow> ok ins \<Longrightarrow> implements (h k ins) (f ins)"
  shows "holds \<lparr>classes = cs, shape = ok, moves = f\<rparr>"
proof -
  have "implements (Dataflow ins) (f ins)" if "INS_Opcode ins \<in> set cs" "ok ins" for ins
    using Dataflow_listed [of ins "h (INS_Opcode ins)"] assms that by (simp add: list_all_iff)
  then show ?thesis by (simp add: holds_def)
qed

lemmas in_table = instrument_table_1_def instrument_table_2_def

lemma arithmetic_rules_hold: "list_all holds arithmetic_rules"
  unfolding arithmetic_rules_def list.pred_inject(2)
proof (intro conjI list.pred_inject(1), goal_cases)
  case 1
  show ?case by (rule holdsI [where h = "(\<lambda>k. the (map_of [(''ADD'', Instrument_ADD), (''SUB'', Instrument_SUB), (''AND'', Instrument_AND), (''OR'', Instrument_OR)] k))"])
      (simp add: in_table, auto simp del: One_nat_def simp: Instrument_SUB_def Instrument_OR_def Instrument_AND_def Instrument_ADD_implements)
next
  case 2
  show ?case by (rule holdsI [where h = "(\<lambda>k. the (map_of [(''ADC'', Instrument_ADC), (''SBB'', Instrument_SBB)] k))"])
      (simp add: in_table, auto simp del: One_nat_def intro: Instrument_ADC_flow)
next
  case 3
  show ?case by (rule holdsI [where h = "\<lambda>_. Instrument_XOR"])
      (simp add: in_table, auto simp del: One_nat_def intro: Instrument_XOR_carries)
next
  case 4
  show ?case by (rule holdsI [where h = "(\<lambda>k. the (map_of [(''INC'', Instrument_INC), (''DEC'', Instrument_DEC), (''NEG'', Instrument_NEG)] k))"])
      (simp add: in_table, auto simp del: One_nat_def intro: Instrument_DEC_flow)
next
  case 5
  show ?case by (rule holdsI [where h = "\<lambda>_. Instrument_CMP"])
      (simp add: in_table, auto simp del: One_nat_def intro: Instrument_CMP_flow)
next
  case 6
  show ?case by (rule holdsI [where h = "\<lambda>_. Instrument_TEST"])
      (simp add: in_table, auto simp del: One_nat_def intro: Instrument_CMP_flow)
next
  case 7
  show ?case by (rule holdsI [where h = "(\<lambda>k. the (map_of [(''SAR'', Instrument_SAR), (''SHL'', Instrument_SHL), (''SHR'', Instrument_SHR)] k))"])
      (simp add: in_table, auto simp del: One_nat_def intro: Instrument_SAR_flow)
next
  case 8
  show ?case by (rule holdsI [where h = "(\<lambda>k. the (map_of [(''SHLD'', Instrument_SHLD), (''SHRD'', Instrument_SHRD)] k))"])
      (simp add: in_table, auto simp del: One_nat_def simp: Instrument_SHRD_def intro: SHLD_immediate)
qed

lemma product_rules_hold: "list_all holds product_rules"
  unfolding product_rules_def list.pred_inject(2)
proof (intro conjI list.pred_inject(1), goal_cases)
  case 1
  show ?case by (rule holdsI [where h = "\<lambda>_. Instrument_MUL"])
      (simp add: in_table, auto simp del: One_nat_def intro: MUL_product)
next
  case 2
  show ?case by (rule holdsI [where h = "\<lambda>_. Instrument_IMUL"])
      (simp add: in_table, auto simp del: One_nat_def simp: Instrument_IMUL_def intro: MUL_product)
next
  case 3
  show ?case by (rule holdsI [where h = "\<lambda>_. Instrument_IMUL"])
      (simp add: in_table, auto simp del: One_nat_def intro: IMUL_memory)
next
  case 4
  show ?case by (rule holdsI [where h = "(\<lambda>k. the (map_of [(''DIV'', Instrument_DIV), (''IDIV'', Instrument_IDIV)] k))"])
      (simp add: in_table, auto simp del: One_nat_def intro: DIV_quotient)
qed

lemma move_rules_hold: "list_all holds move_rules"
  unfolding move_rules_def list.pred_inject(2)
proof (intro conjI list.pred_inject(1), goal_cases)
  case 1
  show ?case by (rule holdsI [where h = "(\<lambda>k. the (map_of [(''MOV'', Instrument_MOV), (''MOVZX'', Instrument_MOVZX), (''MOVSX'', Instrument_MOVSX)] k))"])
      (simp add: in_table, auto simp del: One_nat_def simp: Instrument_MOVZX_def Instrument_MOVSX_def intro: Instrument_MOV_implements)
next
  case 2
  show ?case by (rule holdsI [where h = "\<lambda>_. Instrument_MOVDQU"])
      (simp add: in_table, auto simp del: One_nat_def intro: MOVDQU_implements)
next
  case 3
  show ?case by (rule holdsI [where h = "\<lambda>_. Instrument_LDDQU"])
      (simp add: in_table, auto simp del: One_nat_def intro: LDDQU_implements)
next
  case 4
  show ?case by (rule holdsI [where h = "\<lambda>_. Instrument_LEA"])
      (simp add: in_table, auto simp del: One_nat_def simp: address_and_constant_results_flow)
next
  case 5
  show ?case by (rule holdsI [where h = "\<lambda>_. Instrument_PUSH"])
      (simp add: in_table, auto simp del: One_nat_def intro: Instrument_PUSH_implements)
next
  case 6
  show ?case by (rule holdsI [where h = "\<lambda>_. Instrument_POP"])
      (simp add: in_table, auto simp del: One_nat_def intro: Instrument_POP_implements)
next
  case 7
  show ?case by (rule holdsI [where h = "\<lambda>_. Instrument_CWDE"])
      (simp add: in_table, auto simp del: One_nat_def intro: CWDE_implements)
next
  case 8
  show ?case by (rule holdsI [where h = "\<lambda>_. Instrument_CDQ"])
      (simp add: in_table, auto simp del: One_nat_def intro: CDQ_implements)
qed

lemma exchange_rules_hold: "list_all holds exchange_rules"
  unfolding exchange_rules_def list.pred_inject(2)
proof (intro conjI list.pred_inject(1), goal_cases)
  case 1
  show ?case by (rule holdsI [where h = "\<lambda>_. Instrument_XCHG"])
      (simp add: in_table, auto simp del: One_nat_def intro: XCHG_implements)
next
  case 2
  show ?case by (rule holdsI [where h = "\<lambda>_. Instrument_XADD"])
      (simp add: in_table, auto simp del: One_nat_def intro: XADD_implements)
next
  case 3
  show ?case by (rule holdsI [where h = "\<lambda>_. Instrument_CMPXCHG"])
      (simp add: in_table, auto simp del: One_nat_def simp: two_widths_def intro: Instrument_CMPXCHG_registers)
qed

lemma string_rules_hold: "list_all holds string_rules"
  unfolding string_rules_def list.pred_inject(2)
proof (intro conjI list.pred_inject(1), goal_cases)
  case 1
  show ?case by (rule holdsI [where h = "(\<lambda>k. the (map_of [(''MOVSB'', Instrument_MOVSB), (''MOVSW'', Instrument_MOVSW), (''MOVSD'', Instrument_MOVSD)] k))"])
      (simp add: in_table, auto simp del: One_nat_def intro: Instrument_MOVS_flow)
next
  case 2
  show ?case by (rule holdsI [where h = "\<lambda>_. Instrument_CMPSB"])
      (simp add: in_table, auto simp del: One_nat_def intro: CMPSB_implements)
next
  case 3
  show ?case by (rule holdsI [where h = "\<lambda>_. Instrument_STOSB"])
      (simp add: in_table, auto simp del: One_nat_def intro: STOSB_implements)
next
  case 4
  show ?case by (rule holdsI [where h = "\<lambda>_. Instrument_STOSD"])
      (simp add: in_table, auto simp del: One_nat_def intro: STOSB_implements)
next
  case 5
  show ?case by (rule holdsI [where h = "\<lambda>_. Instrument_SCASB"])
      (simp add: in_table, auto simp del: One_nat_def intro: SCASB_implements)
next
  case 6
  show ?case by (rule holdsI [where h = "\<lambda>_. Instrument_PUSHFD"])
      (simp add: in_table, auto simp del: One_nat_def intro: PUSHFD_implements)
next
  case 7
  show ?case by (rule holdsI [where h = "\<lambda>_. Instrument_POPFD"])
      (simp add: in_table, auto simp del: One_nat_def intro: POPFD_implements)
next
  case 8
  show ?case by (rule holdsI [where h = "\<lambda>_. Instrument_SETcc"])
      (simp add: in_table, auto simp del: One_nat_def intro: SETcc_register)
qed

lemma clearing_rules_hold: "list_all holds clearing_rules"
  unfolding clearing_rules_def list.pred_inject(2)
proof (intro conjI list.pred_inject(1), goal_cases)
  case 1
  show ?case by (rule holdsI [where h = "\<lambda>_. Instrument_RDTSC"])
      (simp add: in_table, auto simp del: One_nat_def simp: address_and_constant_results_flow)
next
  case 2
  show ?case by (rule holdsI [where h = "\<lambda>_. Instrument_CPUID"])
      (simp add: in_table, auto simp del: One_nat_def simp: address_and_constant_results_flow)
next
  case 3
  show ?case by (rule holdsI [where h = "(\<lambda>k. the (map_of [(''BSF'', Instrument_BSF), (''BSR'', Instrument_BSR)] k))"])
      (simp add: in_table, auto simp del: One_nat_def simp: address_and_constant_results_flow)
next
  case 4
  show ?case by (rule holdsI [where h = "(\<lambda>k. the (map_of [(''CLD'', Instrument_CLD), (''STD'', Instrument_STD)] k))"])
      (simp add: in_table, auto simp del: One_nat_def intro: CLD_implements)
next
  case 5
  show ?case by (rule holdsI [where h = "\<lambda>_. Instrument_FNSTSW"])
      (simp add: in_table, auto simp del: One_nat_def intro: FNSTSW_implements)
next
  case 6
  show ?case by (rule holdsI [where h = "(\<lambda>k. the (map_of [(''FNSTCW'', Instrument_FNSTCW), (''STMXCSR'', Instrument_STMXCSR)] k))"])
      (simp add: in_table, auto simp del: One_nat_def intro: FNSTCW_implements)
qed

lemma rules_hold: "ru \<in> set taint_rules \<Longrightarrow> holds ru"
  using arithmetic_rules_hold product_rules_hold move_rules_hold exchange_rules_hold string_rules_hold
    clearing_rules_hold by (auto simp: taint_rules_def list_all_iff)

text \<open>The other classes of the table, and those without an entry, insert nothing.\<close>

lemma silent_classes:
  "list_all (\<lambda>(k, h). k \<in> (\<Union>ru \<in> set taint_rules. set (classes ru)) \<or> (\<forall>ins. h ins = Inr [])) instrument_table_1"
  "list_all (\<lambda>(k, h). k \<in> (\<Union>ru \<in> set taint_rules. set (classes ru)) \<or> (\<forall>ins. h ins = Inr [])) instrument_table_2"
  by (simp_all add: in_table empty_handlers taint_rules_def arithmetic_rules_def product_rules_def
      move_rules_def exchange_rules_def string_rules_def clearing_rules_def)

text \<open>
  C8: Instrumenting an instruction of a class and shape that the table of rules lists inserts
  calls that succeed at every execution from every well-formed state, keep the state
  well-formed and move the marks of registers, memory and pending branches exactly as the rule
  says: the entry of the dispatch table, the handler and the order of its calls are right for
  every one of the classes. Instrumenting an instruction of any other class inserts nothing, and
  the only way in which instrumenting an instruction stops the tool is \<open>abort()\<close>.
\<close>

theorem Dataflow_follows_rules:
  "(\<forall>ru \<in> set taint_rules. INS_Opcode ins \<in> set (classes ru) \<and> shape ru ins \<longrightarrow>
      implements (Dataflow ins) (moves ru ins)) \<and>
   (INS_Opcode ins \<notin> (\<Union>ru \<in> set taint_rules. set (classes ru)) \<longrightarrow> Dataflow ins = Inr []) \<and>
   (\<forall>e. Dataflow ins = Inl e \<longrightarrow> e = Abort_Called)"
proof (intro conjI ballI allI impI)
  show "implements (Dataflow ins) (moves ru ins)"
    if "ru \<in> set taint_rules" "INS_Opcode ins \<in> set (classes ru) \<and> shape ru ins" for ru
    using rules_hold [OF that(1)] that(2) by (simp add: holds_def)
  show "e = Abort_Called" if "Dataflow ins = Inl e" for e
    using Dataflow_only_abort [of ins] that by (simp add: only_abort_def)
  assume n: "INS_Opcode ins \<notin> (\<Union>ru \<in> set taint_rules. set (classes ru))"
  show "Dataflow ins = Inr []"
    using instrument_functions_cases [of "INS_Opcode ins"] silent_classes n
    by (fastforce simp: Dataflow_def UnimplementedInstruction_def list_all_iff)
qed

theorem Dataflow_follows_rules_witness:
  "implements (Dataflow ((register_ins 32 [REG_EAX, REG_EBX])\<lparr>INS_Opcode := ''MOV''\<rparr>))
     (\<lambda>x a. write_reg REG_EAX (marks_of (regs a REG_EBX)) a) \<and>
   Dataflow ((register_ins 32 [REG_EAX, REG_EBX])\<lparr>INS_Opcode := ''CMOVZ''\<rparr>) = Inr []"
proof
  let ?i = "(register_ins 32 [REG_EAX, REG_EBX])\<lparr>INS_Opcode := ''MOV''\<rparr>"
  have i: "INS_OperandIsReg ?i 0" "INS_OperandIsReg ?i 1" "INS_OperandReg ?i 0 = REG_EAX"
    "INS_OperandReg ?i 1 = REG_EBX" by (simp_all add: register_ins_def)
  have "hd move_rules \<in> set taint_rules" by (simp add: taint_rules_def move_rules_def)
  moreover have "INS_Opcode ?i \<in> set (classes (hd move_rules)) \<and> shape (hd move_rules) ?i"
    using i by (simp add: move_rules_def readable_imm_def readable_def writable_def)
  ultimately have "implements (Dataflow ?i) (moves (hd move_rules) ?i)"
    using Dataflow_follows_rules [of ?i] by blast
  also have "moves (hd move_rules) ?i = (\<lambda>x a. write_reg REG_EAX (marks_of (regs a REG_EBX)) a)"
    using i by (simp add: move_rules_def write_operand_def operand_marks_def)
  finally show "implements (Dataflow ?i) (\<lambda>x a. write_reg REG_EAX (marks_of (regs a REG_EBX)) a)" .
  show "Dataflow ((register_ins 32 [REG_EAX, REG_EBX])\<lparr>INS_Opcode := ''CMOVZ''\<rparr>) = Inr []"
    using Dataflow_follows_rules [of "(register_ins 32 [REG_EAX, REG_EBX])\<lparr>INS_Opcode := ''CMOVZ''\<rparr>"]
    by (simp add: taint_rules_def arithmetic_rules_def product_rules_def move_rules_def exchange_rules_def
        string_rules_def clearing_rules_def)
qed

end
