(* ===== verification/Dominator_Tree.thy ===== *)
theory Dominator_Tree
  imports Control_Graph
begin

text \<open>
  The tree of dominators (\<open>buildDominanceTree\<close> of \<open>src/include/RoutineGraph.H\<close> and its helpers in
  \<open>src/include/BasicBlock.H\<close>), which the source keeps as deprecated and does not call. Its walks
  end at the block with \<open>isEntry == 1\<close>, a field that is never set for the other blocks; the
  theorem says for which graphs this does not matter.
\<close>

section \<open>Methods of a block\<close>

definition setDominator :: "block_id \<Rightarrow> block_id \<Rightarrow> heap \<Rightarrow> heap" where
  "setDominator block b = upd b (\<lambda>x. x\<lparr>Dominator := Some block\<rparr>)"

definition addImmediateDominator :: "heap \<Rightarrow> block_id \<Rightarrow> block_id \<Rightarrow> heap \<Rightarrow> heap" where
  "addImmediateDominator h newBlock b =
     upd b (\<lambda>x. x\<lparr>immediatelyDominated :=
       (immediatelyDominated x)(startingAddress (h newBlock) \<mapsto> Some newBlock)\<rparr>)"

partial_function (option) getCommonDominator ::
  "block_id \<Rightarrow> heap \<Rightarrow> block_id \<Rightarrow> (block_id \<times> heap) result option" where
  "getCommonDominator siblingBlock h this =
     (let k = startingAddress (h siblingBlock);
          found = holds_key (dominated (h this)) k;
          h' = upd this (dominated_update (read_key k)) h in
      if found then Some (Inr (this, h'))
      else (case isEntry (h' this) of
              None \<Rightarrow> Some (Inl Uninitialised_Read)
            | Some e \<Rightarrow>
                if e = 1 then Some (Inr (this, h'))
                else (case Dominator (h' this) of
                        None \<Rightarrow> Some (Inl Null_Dereference)
                      | Some parent \<Rightarrow> getCommonDominator siblingBlock h' parent)))"

partial_function (option) passUpDominanceInfo ::
  "block_id \<Rightarrow> heap \<Rightarrow> block_id \<Rightarrow> heap result option" where
  "passUpDominanceInfo newChild h this =
     (let k = startingAddress (h newChild);
          h' = upd this (dominated_update (\<lambda>m. m(k \<mapsto> Some newChild))) h in
      case isEntry (h' this) of
        None \<Rightarrow> Some (Inl Uninitialised_Read)
      | Some e \<Rightarrow>
          if e = 0
          then (case Dominator (h' this) of
                  None \<Rightarrow> Some (Inl Null_Dereference)
                | Some parent \<Rightarrow> passUpDominanceInfo newChild h' parent)
          else Some (Inr h'))"

text \<open>The walk goes on while the addresses are below that of the last block.\<close>

partial_function (option) deleteUpDominanceInfo ::
  "block_map \<Rightarrow> addrint \<Rightarrow> addrint \<Rightarrow> heap \<Rightarrow> block_id \<Rightarrow> heap result option" where
  "deleteUpDominanceInfo deletableBlocks deletableBlocksParent lastNodesStarting h this =
     (if startingAddress (h this) < lastNodesStarting
      then (let h' = upd this (dominated_update
              (erase_keys deletableBlocks deletableBlocksParent)) h in
            case Dominator (h' this) of
              None \<Rightarrow> Some (Inr h')
            | Some parent \<Rightarrow> deleteUpDominanceInfo deletableBlocks deletableBlocksParent
                lastNodesStarting h' parent)
      else Some (Inr h))"

declare getCommonDominator.simps [code] passUpDominanceInfo.simps [code]
  deleteUpDominanceInfo.simps [code]

definition addSuccessorAsDominated ::
  "block_id \<Rightarrow> block_id \<Rightarrow> heap \<Rightarrow> heap result option" where
  "addSuccessorAsDominated this successor h =
     (case Dominator (h successor) of
        None \<Rightarrow>
          (let h = setDominator this successor h;
               h = addImmediateDominator h successor this h in
           passUpDominanceInfo successor h this)
      | Some competingSibling \<Rightarrow>
          bind_opt (getCommonDominator successor h this) (\<lambda>(newDominator, h).
          let k = startingAddress (h successor);
              h = upd this (\<lambda>x. x\<lparr>immediatelyDominated := (immediatelyDominated x)(k := None)\<rparr>) h in
          bind_opt (deleteUpDominanceInfo (dominated (h successor)) k
            (startingAddress (h newDominator)) h competingSibling) (\<lambda>h.
          let h = setDominator newDominator successor h in
          Some (Inr (addImmediateDominator h successor newDominator h)))))"

section \<open>The search from the entry\<close>

definition visit_successor ::
  "block_id \<Rightarrow> block_id \<Rightarrow> block_id list \<times> heap \<Rightarrow> (block_id list \<times> heap) result option" where
  "visit_successor currentBlock targetBlock = (\<lambda>(blockQueue, h).
     let blockQueue = (if Dominator (h targetBlock) = None then blockQueue @ [targetBlock]
                       else blockQueue) in
     bind_opt (addSuccessorAsDominated currentBlock targetBlock h) (\<lambda>h.
       Some (Inr (blockQueue, h))))"

partial_function (option) buildDominanceTree ::
  "block_id \<Rightarrow> block_id list \<Rightarrow> heap \<Rightarrow> heap result option" where
  "buildDominanceTree currentBlock blockQueue h =
     (case fold_opt (visit_successor currentBlock) (successors (h currentBlock)) (blockQueue, h) of
        None \<Rightarrow> None
      | Some (Inl e) \<Rightarrow> Some (Inl e)
      | Some (Inr (queue, h')) \<Rightarrow>
          (case queue of
             [] \<Rightarrow> Some (Inr h')
           | nextBlock # queue' \<Rightarrow> buildDominanceTree nextBlock queue' h'))"

declare buildDominanceTree.simps [code]

section \<open>What the search does\<close>

text \<open>Before the search: only the entry knows what it is, and nothing is dominated.\<close>

definition one_entry :: "block_id \<Rightarrow> heap \<Rightarrow> bool" where
  "one_entry E h \<longleftrightarrow> isEntry (h E) = Some 1 \<and> (\<forall>b. b \<noteq> E \<longrightarrow> isEntry (h b) = None \<and> dominated (h b) = Map.empty)"

lemma one_entryD:
  assumes "one_entry E h"
  shows "isEntry (h E) = Some 1" "b \<noteq> E \<Longrightarrow> isEntry (h b) = None" "b \<noteq> E \<Longrightarrow> dominated (h b) = Map.empty"
  using assms by (simp_all add: one_entry_def)

lemma setters_keep [simp]:
  "isEntry (setDominator d b h x) = isEntry (h x)"
  "isEntry (addImmediateDominator h' n b h x) = isEntry (h x)"
  "successors (setDominator d b h x) = successors (h x)"
  "successors (addImmediateDominator h' n b h x) = successors (h x)"
  "dominated (setDominator d b h x) = dominated (h x)"
  "dominated (addImmediateDominator h' n b h x) = dominated (h x)"
  "Dominator (setDominator d b h x) = (if x = b then Some d else Dominator (h x))"
  "Dominator (addImmediateDominator h' n b h x) = Dominator (h x)"
  by (simp_all add: setDominator_def addImmediateDominator_def upd_def)

lemma passUp_steps:
  "isEntry (h b) = None \<Longrightarrow> passUpDominanceInfo s h b = Some (Inl Uninitialised_Read)"
  "isEntry (h b) = Some 1 \<Longrightarrow> passUpDominanceInfo s h b =
    Some (Inr (upd b (dominated_update (\<lambda>m. m(startingAddress (h s) \<mapsto> Some s))) h))"
  by (subst passUpDominanceInfo.simps, simp add: Let_def upd_def)+

lemma getCommonDominator_inner:
  assumes "isEntry (h b) = None" "dominated (h b) = Map.empty"
  shows "getCommonDominator s h b = Some (Inl Uninitialised_Read)"
  by (subst getCommonDominator.simps) (simp add: Let_def upd_def holds_key_def assms)

text \<open>A block other than the entry cannot take a successor.\<close>

lemma add_to_inner:
  assumes "one_entry E h" "b \<noteq> E"
  shows "addSuccessorAsDominated b s h = Some (Inl Uninitialised_Read)"
  using passUp_steps(1) getCommonDominator_inner [of h b s] one_entryD(2,3) [OF assms]
  by (simp add: addSuccessorAsDominated_def Let_def split: option.split)

lemma visit_inner:
  assumes "one_entry E h" "b \<noteq> E"
  shows "fold_opt (visit_successor b) ss (q, h) =
    (if ss = [] then Some (Inr (q, h)) else Some (Inl Uninitialised_Read))"
  by (cases ss) (simp_all add: visit_successor_def Let_def add_to_inner [OF assms])

text \<open>The entry takes its successors, as long as none of them has a dominator.\<close>

lemma add_to_entry:
  assumes "one_entry E h" "s \<noteq> E" "Dominator (h s) = None"
  shows "\<exists>h'. addSuccessorAsDominated E s h = Some (Inr h') \<and> one_entry E h' \<and>
    (\<forall>b. successors (h' b) = successors (h b)) \<and>
    (\<forall>b. Dominator (h' b) = (if b = s then Some E else Dominator (h b)))"
  using assms
  by (simp add: addSuccessorAsDominated_def Let_def passUp_steps(2) one_entry_def)
    (simp add: upd_def)

lemma visit_entry:
  assumes "one_entry E h" "distinct ss" "E \<notin> set ss" "\<And>s. s \<in> set ss \<Longrightarrow> Dominator (h s) = None"
  shows "\<exists>h'. fold_opt (visit_successor E) ss (q, h) = Some (Inr (q @ ss, h')) \<and> one_entry E h' \<and>
    (\<forall>b. successors (h' b) = successors (h b)) \<and>
    (\<forall>b. Dominator (h' b) = (if b \<in> set ss then Some E else Dominator (h b)))"
  using assms
proof (induction ss arbitrary: q h)
  case (Cons s ss)
  obtain h1 where h1: "addSuccessorAsDominated E s h = Some (Inr h1)" "one_entry E h1"
    "\<forall>b. successors (h1 b) = successors (h b)"
    "\<forall>b. Dominator (h1 b) = (if b = s then Some E else Dominator (h b))"
    using add_to_entry [OF Cons.prems(1), of s] Cons.prems(3,4) by auto
  have undominated: "Dominator (h1 x) = None" if "x \<in> set ss" for x
    using that Cons.prems(2,4) h1(4) by auto
  obtain h2 where h2: "fold_opt (visit_successor E) ss (q @ [s], h1) = Some (Inr ((q @ [s]) @ ss, h2))"
    "one_entry E h2" "\<forall>b. successors (h2 b) = successors (h1 b)"
    "\<forall>b. Dominator (h2 b) = (if b \<in> set ss then Some E else Dominator (h1 b))"
    using Cons.IH [OF h1(2) _ _ undominated, of "q @ [s]"] Cons.prems(2,3) by auto
  have "visit_successor E s (q, h) = Some (Inr (q @ [s], h1))"
    using h1(1) Cons.prems(4) by (simp add: visit_successor_def)
  then show ?case using h1 h2 by (intro exI [of _ h2]) simp
qed simp

text \<open>The blocks of the queue are searched to the first that has a successor.\<close>

lemma search_inner:
  assumes "one_entry E h" "E \<noteq> b" "E \<notin> set q"
  shows "buildDominanceTree b q h =
    (if \<forall>x \<in> set (b # q). successors (h x) = [] then Some (Inr h) else Some (Inl Uninitialised_Read))"
  using assms(2,3)
proof (induction q arbitrary: b)
  case Nil
  then show ?case
    by (subst buildDominanceTree.simps) (simp add: visit_inner [OF assms(1)])
next
  case (Cons c q)
  have "buildDominanceTree c q h = (if \<forall>x \<in> set (c # q). successors (h x) = []
      then Some (Inr h) else Some (Inl Uninitialised_Read))"
    using Cons.prems by (intro Cons.IH) auto
  then show ?case
    using Cons.prems by (subst buildDominanceTree.simps) (simp add: visit_inner [OF assms(1)])
qed

text \<open>
  On a fresh graph the search for dominators ends; it succeeds, with the entry as dominator of
  each of its successors, exactly when none of these has a successor of its own, and otherwise
  reads \<open>isEntry\<close> of a block for which it was never set.
\<close>

theorem buildDominanceTree_depth_one:
  assumes "one_entry E h" "\<And>b. Dominator (h b) = None"
    and "distinct (successors (h E))" "E \<notin> set (successors (h E))"
  shows "if \<forall>s \<in> set (successors (h E)). successors (h s) = []
    then \<exists>h'. buildDominanceTree E [] h = Some (Inr h') \<and>
      (\<forall>b. Dominator (h' b) = (if b \<in> set (successors (h E)) then Some E else None))
    else buildDominanceTree E [] h = Some (Inl Uninitialised_Read)"
proof -
  obtain h' where h': "fold_opt (visit_successor E) (successors (h E)) ([], h) =
      Some (Inr (successors (h E), h'))" "one_entry E h'" "\<forall>b. successors (h' b) = successors (h b)"
    "\<forall>b. Dominator (h' b) = (if b \<in> set (successors (h E)) then Some E else Dominator (h b))"
    using visit_entry [OF assms(1,3,4), of "[]"] assms(2) by auto
  have start: "buildDominanceTree E [] h =
      (case successors (h E) of [] \<Rightarrow> Some (Inr h') | b # q \<Rightarrow> buildDominanceTree b q h')"
    by (subst buildDominanceTree.simps) (simp add: h'(1))
  show ?thesis
  proof (cases "successors (h E)")
    case Nil
    then show ?thesis using start h'(4) assms(2) by auto
  next
    case (Cons b q)
    then have "E \<noteq> b" "E \<notin> set q" using assms(4) by auto
    from search_inner [OF h'(2) this] show ?thesis
      using start Cons h'(3,4) assms(2) by auto
  qed
qed

lemma meeting_arms_entry:
  "EntranceNode (graph_of ascending meeting_arms) = 0 \<and> one_entry 0 (heap (graph_of ascending meeting_arms)) \<and>
   (\<forall>b. Dominator (heap (graph_of ascending meeting_arms) b) = None) \<and>
   successors (heap (graph_of ascending meeting_arms) 0) = [2, 3] \<and>
   successors (heap (graph_of ascending meeting_arms) 2) = [3]"
  by (rule conjunct2 [OF graph_ofI]) (simp add: sample_defs graph_eval Let_def one_entry_def)

theorem buildDominanceTree_depth_one_witness:
  "EntranceNode (graph_of ascending meeting_arms) = 0 \<and>
   buildDominanceTree 0 [] (heap (graph_of ascending meeting_arms)) = Some (Inl Uninitialised_Read)"
  using buildDominanceTree_depth_one [of 0 "heap (graph_of ascending meeting_arms)"] meeting_arms_entry
  by simp

end
