(* ===== verification/Dump_Taints.thy ===== *)
theory Dump_Taints
  imports Taint_Engine "HOL-Library.Sublist"
begin

text \<open>
  \<open>dump_taints\<close> (\<open>src/dytan.cpp\<close>, lines 1049--1111): the pruning of the histories, which
  is meant to leave out what was cleared, and the two tables that are written to the log.
  A table is the list of its rows. The parameters: \<open>tail\<close>, what the node at the end of each
  list holds (it is allocated and never filled), and \<open>app_mem\<close>, the memory of the
  application, from which the dump prints a character per address.
\<close>

section \<open>Pruning a history\<close>

text \<open>
  The chain of the nodes with the node at the end. The search runs from the node after \<open>pre\<close>
  to the end; a hit unlinks the node after \<open>pre\<close>, and the node that was hit if the two are
  neither the same nor neighbours: the two assignments through the old pointers then
  overwrite each other.
\<close>

fun find_cleared :: "addrint \<Rightarrow> memlist list \<Rightarrow> nat option" where
  "find_cleared a [] = None"
| "find_cleared a (e # l) =
     (if memAddress e = a \<and> isCleared e \<noteq> 0 then Some 0 else map_option Suc (find_cleared a l))"

fun drop_nth :: "nat \<Rightarrow> 'a list \<Rightarrow> 'a list" where
  "drop_nth i [] = []"
| "drop_nth 0 (x # l) = l"
| "drop_nth (Suc i) (x # l) = x # drop_nth i l"

definition unlink_hit :: "nat \<Rightarrow> memlist list \<Rightarrow> memlist list" where
  "unlink_hit j l = (if j \<le> 1 then tl l else tl (drop_nth j l))"

lemma length_unlink_hit: "l \<noteq> [] \<Longrightarrow> length (unlink_hit j l) < length l"
proof -
  have "length (drop_nth j l) \<le> length l"
    by (induction j l rule: drop_nth.induct) auto
  then show "l \<noteq> [] \<Longrightarrow> length (unlink_hit j l) < length l"
    by (cases l) (auto simp: unlink_hit_def)
qed

function prune :: "memlist list \<Rightarrow> memlist list" where
  "prune [] = []"
| "prune [z] = [z]"
| "prune (pre # current # l) =
     (if isCleared pre = 0
      then (case find_cleared (memAddress current) (current # l) of
              None \<Rightarrow> pre # prune (current # l)
            | Some j \<Rightarrow> prune (pre # unlink_hit j (current # l)))
      else pre # prune (current # l))"
  by pat_completeness auto
termination
  by (relation "measure length") (auto simp: length_unlink_hit [of "_ # _", simplified])

section \<open>The tables\<close>

record dump =
  tag_table :: "(size_t \<times> (addrint \<times> int \<times> 8 word) list) list"
  mem_table :: "(addrint \<times> nat list) list"

definition tag_row ::
  "(addrint \<Rightarrow> 8 word) \<Rightarrow> size_t \<times> memlist list \<Rightarrow> size_t \<times> (addrint \<times> int \<times> 8 word) list" where
  "tag_row app_mem = (\<lambda>(tag, chain).
     (tag, map (\<lambda>e. (memAddress e, isCleared e, app_mem (memAddress e))) (butlast chain)))"

definition positions :: "bitset \<Rightarrow> nat list result" where
  "positions s =
     fold_res (\<lambda>i out. and_then (bitset_test_bit s (of_nat i)) (\<lambda>b. Inr (if b then out @ [i] else out)))
       [0..<nat (c_int (nbits s))] []"

definition mem_row :: "addrint \<times> bitset \<Rightarrow> (addrint \<times> nat list) list \<Rightarrow> (addrint \<times> nat list) list result" where
  "mem_row = (\<lambda>(a, s) rows.
     and_then (bitset_is_empty s) (\<lambda>e.
       if e then Inr rows else and_then (positions s) (\<lambda>ps. Inr (rows @ [(a, ps)]))))"

text \<open>The entries of a \<open>map<ADDRINT, bitset *>\<close> in the order of its keys.\<close>

definition entries :: "(addrint \<Rightarrow> bitset option) \<Rightarrow> (addrint \<times> bitset) list" where
  "entries m = map (\<lambda>a. (a, the (m a))) (sorted_list_of_set (dom m))"

definition dump_taints ::
  "(size_t \<Rightarrow> memlist) \<Rightarrow> (addrint \<Rightarrow> 8 word) \<Rightarrow> dytan \<Rightarrow> (dump \<times> dytan) result" where
  "dump_taints tail app_mem st =
     (let chains = map (\<lambda>(tag, l). (tag, prune (l @ [tail tag]))) (tagMemoryMap st) in
      and_then (fold_res mem_row (entries (memTaintMap st)) []) (\<lambda>rows.
        Inr (\<lparr>tag_table = map (tag_row app_mem) (filter (\<lambda>(tag, chain). tl chain \<noteq> []) chains),
              mem_table = rows\<rparr>,
             st\<lparr>tagMemoryMap := map (\<lambda>(tag, chain). (tag, butlast chain)) chains\<rparr>)))"

section \<open>The table of memory\<close>

lemma fold_filter: "fold (\<lambda>i out. if P i then out @ [i] else out) xs z = z @ filter P xs"
  by (induction xs arbitrary: z) simp_all

lemma positions_ok:
  assumes "bitset_ok s"
  shows "positions s = Inr (sorted_list_of_set (marks s))"
proof -
  let ?n = "unat (nbits s)"
  have n: "?n < 2 ^ 31" "nat (c_int (nbits s)) = ?n"
    using bitset_okD(1) [OF assms] by (simp_all add: c_int_small)
  have "positions s = Inr (fold (\<lambda>i out. if i \<in> marks s then out @ [i] else out) [0..<?n] []) \<and> True"
    unfolding positions_def n(2)
  proof (rule fold_res_Inr)
    fix i and out :: "nat list" assume "i \<in> set [0..<?n]"
    then have i: "i < ?n" by simp
    then have u: "unat (of_nat i :: size_t) = i" using n(1) by (simp add: unat_of_nat take_bit_eq_mod)
    with i have "(of_nat i :: size_t) < nbits s" by (simp only: word_less_nat_alt)
    with u show "and_then (bitset_test_bit s (of_nat i)) (\<lambda>b. Inr (if b then out @ [i] else out)) =
        Inr (if i \<in> marks s then out @ [i] else out) \<and> True"
      by (simp only: bitset_test_bit_ok [OF assms] and_then.simps)
  qed simp
  moreover have "filter (\<lambda>i. i \<in> marks s) [0..<?n] = sorted_list_of_set (marks s)"
  proof (rule sorted_distinct_set_unique)
    show "sorted (filter (\<lambda>i. i \<in> marks s) [0..<?n])" by (simp add: sorted_wrt_filter)
    show "set (filter (\<lambda>i. i \<in> marks s) [0..<?n]) = set (sorted_list_of_set (marks s))"
      using bitset_okD(3) [OF assms] by auto
  qed simp_all
  ultimately show ?thesis by (simp add: fold_filter)
qed

text \<open>The rows of the addresses with a mark.\<close>

definition taint_rows :: "taint \<Rightarrow> (addrint \<times> nat list) list" where
  "taint_rows t =
     map (\<lambda>a. (a, sorted_list_of_set (marks_of (mem t a))))
       (sorted_list_of_set {a. marks_of (mem t a) \<noteq> {}})"

lemma sorted_list_of_set_filter:
  "finite A \<Longrightarrow> filter P (sorted_list_of_set A) = sorted_list_of_set {a \<in> A. P a}"
  by (intro sorted_distinct_set_unique) (auto simp: sorted_wrt_filter)

lemma mem_rows_ok:
  assumes "\<And>a s. (a, s) \<in> set xs \<Longrightarrow> bitset_ok s"
  shows "fold_res mem_row xs rows =
    Inr (rows @ map (\<lambda>(a, s). (a, sorted_list_of_set (marks s))) (filter (\<lambda>(a, s). marks s \<noteq> {}) xs))"
  using assms
proof (induction xs arbitrary: rows)
  case (Cons x xs)
  obtain a s where x: "x = (a, s)" by fastforce
  then have s: "bitset_ok s" using Cons.prems by auto
  have "mem_row x rows = Inr (if marks s = {} then rows else rows @ [(a, sorted_list_of_set (marks s))])"
    using bitset_is_empty_ok [OF s] positions_ok [OF s] x by (simp add: mem_row_def)
  moreover have "fold_res mem_row xs rows' =
      Inr (rows' @ map (\<lambda>(a, s). (a, sorted_list_of_set (marks s))) (filter (\<lambda>(a, s). marks s \<noteq> {}) xs))" for rows'
    using Cons.prems by (intro Cons.IH) auto
  ultimately show ?case using x by simp
qed simp

lemma mem_table_ok:
  assumes "state_ok st"
  shows "fold_res mem_row (entries (memTaintMap st)) [] = Inr (taint_rows (abs_state st))"
proof -
  let ?m = "memTaintMap st"
  have ok: "bitset_ok s" if "(a, s) \<in> set (entries ?m)" for a s
    using that state_okD(4) [OF assms] by (auto simp: entries_def wf_set_def)
  have "{a. marks_of (mem (abs_state st) a) \<noteq> {}} = {a \<in> dom ?m. marks (the (?m a)) \<noteq> {}}"
    by (auto simp: marks_of_def split: option.splits)
  then have "sorted_list_of_set {a. marks_of (mem (abs_state st) a) \<noteq> {}} =
      filter (\<lambda>a. marks (the (?m a)) \<noteq> {}) (sorted_list_of_set (dom ?m))"
    by (simp add: sorted_list_of_set_filter)
  then have "taint_rows (abs_state st) =
      map (\<lambda>(a, s). (a, sorted_list_of_set (marks s))) (filter (\<lambda>(a, s). marks s \<noteq> {}) (entries ?m))"
    by (auto simp: taint_rows_def entries_def filter_map o_def)
  then show ?thesis using mem_rows_ok [OF ok] by simp
qed

text \<open>
  C36: On a well-formed state the dump succeeds, and its table of memory says exactly which
  addresses carry a mark and which marks, in ascending order; the state only loses entries
  of the histories.
\<close>

theorem dump_taints_reports_memory:
  assumes "state_ok st"
  shows "\<exists>d st'. dump_taints tail app_mem st = Inr (d, st') \<and> mem_table d = taint_rows (abs_state st) \<and>
    ((a, ps) \<in> set (mem_table d) \<longleftrightarrow>
      marks_of (mem (abs_state st) a) \<noteq> {} \<and> ps = sorted_list_of_set (marks_of (mem (abs_state st) a))) \<and>
    abs_state st' = abs_state st \<and> state_ok st'"
proof -
  let ?tags = "map (\<lambda>(tag, l). (tag, butlast (prune (l @ [tail tag])))) (tagMemoryMap st)"
  let ?st = "st\<lparr>tagMemoryMap := ?tags\<rparr>"
  have e: "map fst ?tags = map fst (tagMemoryMap st)" by (simp add: case_prod_beta)
  have "tags_ok (NUMBER_OF_TAINT_MARKS st) (tagMemoryMap_isInitialized st) ?tags"
    using state_okD(8) [OF assms] unfolding tags_ok_def e by (auto split: if_splits)
  then have "state_ok ?st" using assms by (simp add: state_ok_def)
  moreover have "abs_state ?st = abs_state st" by (rule taint_eqI) simp_all
  moreover obtain d where "dump_taints tail app_mem st = Inr (d, ?st)" "mem_table d = taint_rows (abs_state st)"
    using mem_table_ok [OF assms] by (simp add: dump_taints_def Let_def o_def case_prod_beta)
  moreover have "(a, ps) \<in> set (taint_rows (abs_state st)) \<longleftrightarrow>
      marks_of (mem (abs_state st) a) \<noteq> {} \<and> ps = sorted_list_of_set (marks_of (mem (abs_state st) a))"
    by (auto simp: taint_rows_def)
  ultimately show ?thesis by (intro exI [of _ d] exI [of _ ?st]) simp
qed

section \<open>What pruning keeps\<close>

lemma find_cleared_Some:
  "find_cleared a l = Some j \<Longrightarrow> j < length l \<and> memAddress (l ! j) = a \<and> isCleared (l ! j) \<noteq> 0"
  by (induction l arbitrary: j) (auto split: if_splits)

lemma drop_nth_facts:
  "subseq (drop_nth j l) l"
  "(j < length l \<Longrightarrow> \<not> P (l ! j)) \<Longrightarrow> filter P (drop_nth j l) = filter P l"
  "Suc j < length l \<Longrightarrow> drop_nth j l \<noteq> [] \<and> last (drop_nth j l) = last l"
  by (induction j l rule: drop_nth.induct) auto

lemma subseq_set: "subseq xs ys \<Longrightarrow> x \<in> set xs \<Longrightarrow> x \<in> set ys"
  using list_emb_set [of "(=)" xs ys x] by auto

text \<open>
  A hit: the node before the search, the node after it and the node found. The node at the
  end is not cleared, so it is neither of the two that are unlinked.
\<close>

lemma unlink_hit_facts:
  assumes "find_cleared (memAddress c) (c # l) = Some j"
  shows "subseq (unlink_hit j (c # l)) (c # l)"
    "\<not> P c \<Longrightarrow> \<not> P ((c # l) ! j) \<Longrightarrow> filter P (unlink_hit j (c # l)) = filter P (c # l)"
    "isCleared (last (c # l)) = 0 \<Longrightarrow> unlink_hit j (c # l) \<noteq> [] \<and> last (unlink_hit j (c # l)) = last (c # l)"
proof -
  have j: "j < length (c # l)" "isCleared ((c # l) ! j) \<noteq> 0" using find_cleared_Some [OF assms] by auto
  obtain i where i: "1 < j \<Longrightarrow> j = Suc i" by (cases j) auto
  show "subseq (unlink_hit j (c # l)) (c # l)"
    using drop_nth_facts(1) [of i l] i by (auto simp: unlink_hit_def)
  show "filter P (unlink_hit j (c # l)) = filter P (c # l)" if "\<not> P c" "\<not> P ((c # l) ! j)"
    using drop_nth_facts(2) [of i l P] i that by (auto simp: unlink_hit_def)
  assume z: "isCleared (last (c # l)) = 0"
  have "(c # l) ! j \<noteq> last (c # l)" using j(2) z by auto
  then have "Suc j < length (c # l)" using j(1) by (auto simp: last_conv_nth less_Suc_eq)
  then show "unlink_hit j (c # l) \<noteq> [] \<and> last (unlink_hit j (c # l)) = last (c # l)"
    using drop_nth_facts(3) [of i l] i by (auto simp: unlink_hit_def)
qed

lemma prune_subseq: "subseq (prune l) l"
proof (induction l rule: prune.induct)
  case (3 pre c l)
  show ?case
  proof (cases "find_cleared (memAddress c) (c # l)")
    case None
    then show ?thesis using 3 by simp
  next
    case (Some j)
    show ?thesis
    proof (cases "isCleared pre = 0")
      case True
      have "subseq (prune (pre # unlink_hit j (c # l))) (pre # unlink_hit j (c # l))"
        by (rule 3(2) [OF True Some])
      also have "subseq \<dots> (pre # c # l)" using unlink_hit_facts(1) [OF Some] by simp
      finally show ?thesis using True Some by (simp del: find_cleared.simps)
    qed (use 3 in simp)
  qed
qed simp_all

lemma prune_keeps:
  "(\<And>e. e \<in> set l \<Longrightarrow> memAddress e = a \<Longrightarrow> isCleared e = 0) \<Longrightarrow>
    filter (\<lambda>e. memAddress e = a) (prune l) = filter (\<lambda>e. memAddress e = a) l"
proof (induction l rule: prune.induct)
  case (3 pre c l)
  let ?P = "\<lambda>e. memAddress e = a"
  show ?case
  proof (cases "isCleared pre = 0 \<and> find_cleared (memAddress c) (c # l) \<noteq> None")
    case True
    then obtain j where j: "find_cleared (memAddress c) (c # l) = Some j" by blast
    note f = find_cleared_Some [OF j]
    have "(c # l) ! j \<in> set (c # l)" using f nth_mem by blast
    then have "memAddress c \<noteq> a" using 3(4) [of "(c # l) ! j"] f by auto
    then have same: "filter ?P (unlink_hit j (c # l)) = filter ?P (c # l)"
      using unlink_hit_facts(2) [OF j, of ?P] f by auto
    have "set (pre # unlink_hit j (c # l)) \<subseteq> set (pre # c # l)"
      using unlink_hit_facts(1) [OF j] by (auto dest: subseq_set)
    then have "isCleared e = 0" if "e \<in> set (pre # unlink_hit j (c # l))" "memAddress e = a" for e
      using that 3(4) by blast
    then have "filter ?P (prune (pre # unlink_hit j (c # l))) = filter ?P (pre # unlink_hit j (c # l))"
      using True j by (intro 3(2)) auto
    then show ?thesis using True j same by (simp del: find_cleared.simps)
  next
    case False
    then show ?thesis using 3(1,3,4) by (auto simp del: find_cleared.simps)
  qed
qed simp_all

lemma prune_ends:
  assumes "l \<noteq> []" "isCleared (last l) = 0"
  shows "prune l \<noteq> [] \<and> hd (prune l) = hd l \<and> last (prune l) = last l \<and>
    (2 \<le> length l \<longrightarrow> 2 \<le> length (prune l))"
  using assms
proof (induction l rule: prune.induct)
  case (3 pre c l)
  show ?case
  proof (cases "isCleared pre = 0 \<and> find_cleared (memAddress c) (c # l) \<noteq> None")
    case True
    then obtain j where j: "find_cleared (memAddress c) (c # l) = Some j" by blast
    note u = unlink_hit_facts(3) [OF j]
    have "isCleared (last (pre # unlink_hit j (c # l))) = 0" "unlink_hit j (c # l) \<noteq> []"
      using u 3(5) by auto
    with 3(2) [OF _ j] True
    have "prune (pre # unlink_hit j (c # l)) \<noteq> [] \<and> hd (prune (pre # unlink_hit j (c # l))) = pre \<and>
      last (prune (pre # unlink_hit j (c # l))) = last (pre # unlink_hit j (c # l)) \<and>
      2 \<le> length (prune (pre # unlink_hit j (c # l)))"
      by (cases "unlink_hit j (c # l)") auto
    then show ?thesis using True j u 3(5) by (simp del: find_cleared.simps)
  next
    case False
    then have "prune (pre # c # l) = pre # prune (c # l)" by (auto simp del: find_cleared.simps)
    moreover have "prune (c # l) \<noteq> [] \<and> last (prune (c # l)) = last (c # l)"
      using False 3(1,3,5) by (cases "isCleared pre = 0") (auto simp del: find_cleared.simps)
    ultimately show ?thesis by (cases "prune (c # l)") auto
  qed
qed simp_all

section \<open>The table of tags\<close>

text \<open>
  The node at the end is zero memory. Then the row of a mark lists all entries of every
  address that was never cleared.
\<close>

definition row_of :: "memlist \<Rightarrow> memlist list \<Rightarrow> memlist list" where
  "row_of z l = butlast (prune (l @ [z]))"

lemma prune_row:
  assumes "isCleared z = 0"
  shows "prune (l @ [z]) = row_of z l @ [z]" "l \<noteq> [] \<Longrightarrow> row_of z l \<noteq> [] \<and> hd (row_of z l) = hd l"
proof -
  have e: "prune (l @ [z]) \<noteq> []" "hd (prune (l @ [z])) = hd (l @ [z])" "last (prune (l @ [z])) = z"
    "2 \<le> length (l @ [z]) \<Longrightarrow> 2 \<le> length (prune (l @ [z]))"
    using prune_ends [of "l @ [z]"] assms by auto
  then show r: "prune (l @ [z]) = row_of z l @ [z]"
    by (metis append_butlast_last_id row_of_def)
  show "row_of z l \<noteq> [] \<and> hd (row_of z l) = hd l" if "l \<noteq> []"
    using e(2,4) r that by (cases "row_of z l"; cases l) auto
qed

text \<open>
  The dump of the histories invents nothing: the row of a mark is a part of its history in
  the same order, and an address that never lost the mark keeps all its entries.
\<close>

theorem dump_row_keeps_live:
  assumes "isCleared z = 0"
  shows "subseq (row_of z l) l \<and>
    ((\<forall>e \<in> set l. memAddress e = a \<longrightarrow> isCleared e = 0) \<longrightarrow>
      filter (\<lambda>e. memAddress e = a) (row_of z l) = filter (\<lambda>e. memAddress e = a) l)"
proof (intro conjI impI)
  have "subseq (row_of z l @ [z]) (l @ [z])" using prune_subseq [of "l @ [z]"] prune_row(1) [OF assms] by simp
  then show "subseq (row_of z l) l" by simp
  assume "\<forall>e \<in> set l. memAddress e = a \<longrightarrow> isCleared e = 0"
  then have "filter (\<lambda>e. memAddress e = a) (prune (l @ [z])) = filter (\<lambda>e. memAddress e = a) (l @ [z])"
    using assms by (intro prune_keeps) auto
  then show "filter (\<lambda>e. memAddress e = a) (row_of z l) = filter (\<lambda>e. memAddress e = a) l"
    unfolding prune_row(1) [OF assms] by (simp split: if_splits)
qed

text \<open>
  The dump announces that deleted addresses are excluded, but when the first address of a
  history has lost the mark again, its live entry is still printed: the search looks at the
  node after the one it starts from, and unlinks that.
\<close>

theorem dump_lists_cleared_address:
  assumes "isCleared z = 0" "l \<noteq> []" "hd l = \<lparr>memAddress = a, isCleared = 0\<rparr>" "last_state l a = Some 1"
  shows "(a, 0, app_mem a) \<in> set (snd (tag_row app_mem (tag, prune (l @ [z]))))"
proof -
  have "hd l \<in> set (row_of z l)" using prune_row(2) [OF assms(1,2)] hd_in_set by metis
  then show ?thesis using assms(3) by (force simp: tag_row_def row_of_def)
qed

text \<open>One byte is marked, then overwritten without the mark.\<close>

theorem dump_lists_cleared_address_witness:
  "\<exists>l. mark_history 4096 1 [] = Inr l \<and> last_state (clear_history 4096 1 l) 4096 = Some 1 \<and>
    (4096, 0, 65) \<in> set (snd (tag_row (\<lambda>_. 65) (7, prune (clear_history 4096 1 l @ [\<lparr>memAddress = 0, isCleared = 0\<rparr>]))))"
proof -
  let ?l = "[\<lparr>memAddress = 4096, isCleared = 0\<rparr>]"
  have m: "mark_history 4096 1 [] = Inr ?l"
    by (simp add: mark_history_def addr_range_def addr_loop_less addr_loop_ge append_unflagged_def int_add_def INT_MAX_def)
  have c: "clear_history 4096 1 ?l = [\<lparr>memAddress = 4096, isCleared = 0\<rparr>, \<lparr>memAddress = 4096, isCleared = 1\<rparr>]"
    by (simp add: in_range_def)
  then have s: "last_state (clear_history 4096 1 ?l) 4096 = Some 1" by (simp add: last_state_Cons)
  show ?thesis
    using m s dump_lists_cleared_address [of "\<lparr>memAddress = 0, isCleared = 0\<rparr>" "clear_history 4096 1 ?l" 4096 "\<lambda>_. 65" 7]
    by (intro exI [of _ ?l]) (simp add: c)
qed

theorem dump_row_keeps_live_witness:
  "row_of \<lparr>memAddress = 0, isCleared = 0\<rparr> [\<lparr>memAddress = 4096, isCleared = 0\<rparr>, \<lparr>memAddress = 4097, isCleared = 0\<rparr>] \<noteq> []"
  using dump_row_keeps_live [of "\<lparr>memAddress = 0, isCleared = 0\<rparr>"
      "[\<lparr>memAddress = 4096, isCleared = 0\<rparr>, \<lparr>memAddress = 4097, isCleared = 0\<rparr>]" 4096]
  by auto

theorem dump_taints_reports_memory_witness:
  "\<exists>d st'. dump_taints (\<lambda>_. \<lparr>memAddress = 0, isCleared = 0\<rparr>) (\<lambda>_. 0)
      ((init_state 100 None)\<lparr>memTaintMap := [4096 \<mapsto> sample_set]\<rparr>) = Inr (d, st') \<and>
    mem_table d = [(4096, [3, 70])]"
proof -
  let ?st = "(init_state 100 None)\<lparr>memTaintMap := [4096 \<mapsto> sample_set]\<rparr>"
  have "n_marks (init_state 100 None) = nbits sample_set"
    by (simp add: n_marks_def init_state_def sample_set_def)
  then have ok: "state_ok ?st"
    using state_ok_mem [OF state_ok_init, of 100 None sample_set 4096] sample_set_ok
    by (simp add: wf_set_def) (simp add: init_state_def)
  have "{a. marks_of (mem (abs_state ?st) a) \<noteq> {}} = {4096}"
    by (auto simp: sample_set_marks marks_of_def split: option.splits if_splits)
  then have "taint_rows (abs_state ?st) = [(4096, [3, 70])]"
    by (simp add: taint_rows_def sample_set_marks)
  then show ?thesis using dump_taints_reports_memory [OF ok] by metis
qed

end
