(* ===== verification/User_Functions.thy ===== *)
theory User_Functions
  imports Dump_Taints
begin

text \<open>
  The functions through which an application talks to the tool
  (\<open>src/replace_functions.cpp\<close>), the wrapper that taints the arguments of \<open>main\<close>
  (\<open>src/taint_func_args.cpp\<close>) and the taint source for function results, which has no
  effect yet (\<open>src/taint_source_func.cpp\<close>). The parameters: what \<open>rand()\<close> returns, the
  pointers and the string lengths in the memory of the application, and which routines an
  image has.
\<close>

section \<open>Replaced functions\<close>

record user_state =
  u_engine :: dytan
  tagMap :: "string \<Rightarrow> int option"
  tracing :: bool

definition SetTrace :: "int \<Rightarrow> user_state \<Rightarrow> user_state" where
  "SetTrace trace us = us\<lparr>tracing := (trace \<noteq> 0)\<rparr>"

text \<open>The tag of a name: drawn from the generator when the name is new.\<close>

definition tag_of_name :: "int \<Rightarrow> string \<Rightarrow> user_state \<Rightarrow> (int \<times> user_state) result" where
  "tag_of_name rnd name us =
     (case tagMap us name of
        Some t \<Rightarrow> Inr (t, us)
      | None \<Rightarrow>
          (case taintGen (u_engine us) of
             None \<Rightarrow> Inl Null_Dereference
           | Some g \<Rightarrow> and_then (nextTaintMark rnd g) (\<lambda>(t, g').
               Inr (t, us\<lparr>tagMap := (tagMap us)(name \<mapsto> t),
                          u_engine := (u_engine us)\<lparr>taintGen := Some g'\<rparr>\<rparr>))))"

text \<open>It returns the positions that it prints.\<close>

definition AssignTagToByteRange ::
  "int \<Rightarrow> addrint \<Rightarrow> size_t \<Rightarrow> string \<Rightarrow> user_state \<Rightarrow> (nat list \<times> user_state) result" where
  "AssignTagToByteRange rnd start sz name us =
     (if taintGen (u_engine us) = None then Inl Assertion_Failed
      else and_then (tag_of_name rnd name us) (\<lambda>(t, us).
        and_then (bitset_set_bit (fresh_set (u_engine us)) (word_of_int t)) (\<lambda>s.
        and_then (positions s) (\<lambda>printed.
        and_then (fold_res (\<lambda>addr st. and_then (bitset_copy s) (\<lambda>c.
              Inr (st\<lparr>memTaintMap := (memTaintMap st)(addr \<mapsto> c)\<rparr>)))
            (addr_range start sz) (u_engine us)) (\<lambda>st.
          Inr (printed, us\<lparr>u_engine := st\<rparr>))))))"

text \<open>The two lists that it prints: the marks of the range and those of the pending branches.\<close>

definition DisplayTagsForByteRange ::
  "addrint \<Rightarrow> size_t \<Rightarrow> user_state \<Rightarrow> (nat list \<times> nat list) result" where
  "DisplayTagsForByteRange start sz us =
     and_then (fold_res (\<lambda>addr tmp. case memTaintMap (u_engine us) addr of
            Some s \<Rightarrow> bitset_union tmp s
          | None \<Rightarrow> Inr tmp) (addr_range start sz) (fresh_set (u_engine us))) (\<lambda>tmp.
     and_then (control_taint (u_engine us)) (\<lambda>controlTaint.
     and_then (bitset_union tmp controlTaint) (\<lambda>tmp.
     and_then (positions tmp) (\<lambda>taint.
     and_then (positions controlTaint) (\<lambda>control. Inr (taint, control))))))"

datatype user_function = SetTrace_fn | DisplayTagsForByteRange_fn | AssignTagToByteRange_fn

text \<open>The replacements in an image: which routine by which function.\<close>

definition ReplaceUserFunctions :: "bool \<Rightarrow> (string \<Rightarrow> bool) \<Rightarrow> (string \<times> user_function) list" where
  "ReplaceUserFunctions shared_library has_routine =
     (if shared_library then []
      else filter (\<lambda>(name, f). has_routine name)
        [(''DYTAN_set_trace'', SetTrace_fn), (''DYTAN_display'', DisplayTagsForByteRange_fn),
         (''DYTAN_tag'', AssignTagToByteRange_fn)])"

section \<open>Arguments of main\<close>

text \<open>\<open>argc\<close> and \<open>argv\<close> are the values of the two parameters, \<open>argcAddr\<close> is where the first lies.\<close>

definition main_wrapper_func ::
  "(nat \<Rightarrow> int) \<Rightarrow> (addrint \<Rightarrow> addrint) \<Rightarrow> (addrint \<Rightarrow> size_t) \<Rightarrow> addrint \<Rightarrow> int \<Rightarrow> addrint \<Rightarrow>
   dytan \<Rightarrow> dytan result" where
  "main_wrapper_func rnd load strlen argcAddr argc argv st =
     and_then (SetNewTaintForMemory (rnd 0) argcAddr 4 (-1) st)
       (fold_res (\<lambda>i st. let addr = argv + of_nat (8 * i) in
            SetNewTaintForMemory (rnd (Suc i)) addr (strlen (load addr)) (-1) st)
          [0..<nat argc])"

text \<open>The dump at the end of \<open>main\<close>.\<close>

definition main_wrapper_func_end ::
  "(size_t \<Rightarrow> memlist) \<Rightarrow> (addrint \<Rightarrow> 8 word) \<Rightarrow> dytan \<Rightarrow> (dump \<times> dytan) result" where
  "main_wrapper_func_end tail app_mem st = dump_taints tail app_mem st"

datatype main_wrapper = Before_main | After_main

definition taint_routines :: "(string \<Rightarrow> bool) \<Rightarrow> main_wrapper list" where
  "taint_routines has_routine = (if has_routine ''main'' then [Before_main, After_main] else [])"

section \<open>Function results\<close>

type_synonym function_source = "string list"

definition addFunctionSource :: "string \<Rightarrow> function_source \<Rightarrow> function_source" where
  "addFunctionSource funcName functions = functions @ [funcName]"

text \<open>The routines of an image that get a call of \<open>taint_return_val\<close>, which does nothing.\<close>

definition ImageLoad :: "(string \<Rightarrow> bool) \<Rightarrow> function_source \<Rightarrow> string list" where
  "ImageLoad has_routine functions = filter has_routine functions"

definition taint_return_val :: "dytan \<Rightarrow> dytan" where
  "taint_return_val st = st"

section \<open>Tagging and displaying\<close>

definition user_ok :: "user_state \<Rightarrow> bool" where
  "user_ok us \<longleftrightarrow> state_ok (u_engine us) \<and>
     (\<forall>g. taintGen (u_engine us) = Some g \<longrightarrow> gen_ok (NUMBER_OF_TAINT_MARKS (u_engine us)) g) \<and>
     (\<forall>name t. tagMap us name = Some t \<longrightarrow> 0 \<le> t \<and> t < NUMBER_OF_TAINT_MARKS (u_engine us))"

text \<open>The tag: that of the name if it has one, otherwise the generator's next mark.\<close>

lemma tag_of_name_cases:
  assumes "user_ok us" "0 \<le> rnd" "taintGen (u_engine us) \<noteq> None"
  obtains (overflow) g where "tagMap us name = None" "tag_of_name rnd name us = Inl Signed_Overflow"
        "taintGen (u_engine us) = Some g" "nextTaintMark rnd g = Inl Signed_Overflow"
    | (tag) t us' where "tag_of_name rnd name us = Inr (t, us')" "user_ok us'"
        "0 \<le> t" "t < NUMBER_OF_TAINT_MARKS (u_engine us')" "tagMap us' = (tagMap us)(name \<mapsto> t)"
        "tagMap us name \<noteq> None \<Longrightarrow> tagMap us name = Some t" "abs_state (u_engine us') = abs_state (u_engine us)"
        "tagMap us name = None \<Longrightarrow> \<exists>g g'. taintGen (u_engine us) = Some g \<and> nextTaintMark rnd g = Inr (t, g')"
proof (cases "tagMap us name")
  case (Some t)
  have "(tagMap us)(name \<mapsto> t) = tagMap us" using Some by (auto simp: fun_eq_iff)
  then show ?thesis using Some assms by (intro tag [of t us]) (simp_all add: tag_of_name_def user_ok_def)
next
  case None
  obtain g where g: "taintGen (u_engine us) = Some g" using assms(3) by blast
  have "gen_ok (NUMBER_OF_TAINT_MARKS (u_engine us)) g" using assms(1) g by (simp add: user_ok_def)
  from this assms(2) show ?thesis
  proof (cases rule: taint_gen.next_cases)
    case (mark t g')
    let ?us = "us\<lparr>tagMap := (tagMap us)(name \<mapsto> t), u_engine := (u_engine us)\<lparr>taintGen := Some g'\<rparr>\<rparr>"
    have "user_ok ?us" using assms(1) mark by (auto simp: user_ok_def state_ok_gen)
    moreover have "abs_state (u_engine ?us) = abs_state (u_engine us)" by (simp add: abs_state_def)
    ultimately show ?thesis using mark g None by (intro tag [of t ?us]) (simp_all add: tag_of_name_def)
  next
    case overflow: overflow
    then show ?thesis using g None by (intro that(1) [of g]) (simp_all add: tag_of_name_def)
  qed
qed

text \<open>
  \<open>DYTAN_tag\<close> gives every byte of the range exactly the one mark of the name: the mark that
  the name already has, or the generator's next one, which the name keeps. It prints that
  mark and changes nothing else; the only failure is the overflow of the generator's counter.
\<close>

lemma AssignTag_ok:
  assumes "user_ok us" "0 \<le> rnd" "taintGen (u_engine us) \<noteq> None"
  shows "(\<exists>g. tagMap us name = None \<and> taintGen (u_engine us) = Some g \<and>
       nextTaintMark rnd g = Inl Signed_Overflow \<and>
       AssignTagToByteRange rnd start sz name us = Inl Signed_Overflow) \<or>
    (\<exists>t us'. AssignTagToByteRange rnd start sz name us = Inr ([nat t], us') \<and> user_ok us' \<and>
       tagMap us' = (tagMap us)(name \<mapsto> t) \<and> (tagMap us name \<noteq> None \<longrightarrow> tagMap us name = Some t) \<and>
       (tagMap us name = None \<longrightarrow> (\<exists>g g'. taintGen (u_engine us) = Some g \<and> nextTaintMark rnd g = Inr (t, g'))) \<and>
       abs_state (u_engine us') = taint_range start sz (nat t) (abs_state (u_engine us)))"
  using assms
proof (cases rule: tag_of_name_cases [where name = name])
  case overflow
  then show ?thesis using assms(3) by (simp add: AssignTagToByteRange_def)
next
  case (tag t us')
  have ok: "state_ok (u_engine us')" using tag(2) by (simp add: user_ok_def)
  obtain tmp st' where m: "bitset_set_bit (fresh_set (u_engine us')) (word_of_int t) = Inr tmp"
    "wf_set (n_marks (u_engine us')) tmp" "marks tmp = {nat t}"
    "fold_res (\<lambda>address st. and_then (bitset_copy tmp) (\<lambda>s.
        Inr (st\<lparr>memTaintMap := (memTaintMap st)(address \<mapsto> s)\<rparr>))) (addr_range start sz) (u_engine us') = Inr st'"
    "state_ok st'" "taintGen st' = taintGen (u_engine us')"
    "NUMBER_OF_TAINT_MARKS st' = NUMBER_OF_TAINT_MARKS (u_engine us')"
    "abs_state st' = taint_range start sz (nat t) (abs_state (u_engine us'))"
    using mark_loop [OF ok tag(3,4), of start sz] by blast
  have "positions tmp = Inr [nat t]" using positions_ok [of tmp] m(2,3) by (simp add: wf_set_def)
  then have "AssignTagToByteRange rnd start sz name us = Inr ([nat t], us'\<lparr>u_engine := st'\<rparr>)"
    using assms(3) tag(1) m(1,4) by (simp add: AssignTagToByteRange_def)
  moreover have "user_ok (us'\<lparr>u_engine := st'\<rparr>)" using tag(2) m(5-7) by (simp add: user_ok_def)
  ultimately show ?thesis using tag(5-8) m(8)
    by (intro disjI2 exI [of _ t] exI [of _ "us'\<lparr>u_engine := st'\<rparr>"]) simp
qed

lemma DisplayTags_ok:
  assumes "state_ok (u_engine us)"
  shows "DisplayTagsForByteRange start sz us =
    Inr (sorted_list_of_set (mem_marks (abs_state (u_engine us)) start sz \<union> control_marks (abs_state (u_engine us))),
         sorted_list_of_set (control_marks (abs_state (u_engine us))))"
proof -
  let ?st = "u_engine us"
  have f: "wf_set (n_marks ?st) (fresh_set ?st)" using fresh_set_ok [OF assms] by blast
  have r: "bitset_reset (fresh_set ?st) = Inr (fresh_set ?st)"
    using wf_set_reset [OF f] by (simp add: fresh_set_def)
  obtain tmp where tmp: "TaintForMemory start sz REG_INVALID REG_INVALID (fresh_set ?st) ?st = Inr tmp"
    "wf_set (n_marks ?st) tmp" "marks tmp = mem_marks (abs_state ?st) start sz"
    using TaintForMemory_ok [OF assms f] by blast
  obtain c where c: "control_taint ?st = Inr c" "wf_set (n_marks ?st) c" "marks c = control_marks (abs_state ?st)"
    using control_taint_ok [OF assms] by blast
  obtain u where u: "bitset_union tmp c = Inr u" "wf_set (n_marks ?st) u" "marks u = marks tmp \<union> marks c"
    using wf_set_union [OF tmp(2) c(2)] by blast
  have "fold_res (\<lambda>addr tmp. case memTaintMap ?st addr of Some s \<Rightarrow> bitset_union tmp s | None \<Rightarrow> Inr tmp)
      (addr_range start sz) (fresh_set ?st) = Inr tmp"
    using tmp(1) r by (simp add: TaintForMemory_def)
  then show ?thesis
    using c u tmp(3) positions_ok [of u] positions_ok [of c] by (simp add: DisplayTagsForByteRange_def wf_set_def)
qed

lemma mem_marks_tagged:
  "mem_marks (taint_range start sz m t) d n =
    (if \<exists>a. in_range d n a \<and> in_range start sz a then {m} else {}) \<union>
    (\<Union>a \<in> {a. in_range d n a \<and> \<not> in_range start sz a}. marks_of (mem t a))"
  by (auto simp: mem_marks_def taint_range_def split: if_splits)

text \<open>
  C37: Tagging a range and displaying it gives the tag back. \<open>DYTAN_tag\<close> prints one legal mark,
  which the name keeps: the mark that the name already had, or else the one that the generator
  owes next. From then on \<open>DYTAN_display\<close> of any range prints, in order, that mark if the two
  ranges meet, the marks that the bytes outside the tagged range had before, and those of the
  pending branches, and beside them the marks of the pending branches alone.
\<close>

theorem tag_display_roundtrip:
  assumes "user_ok us" "AssignTagToByteRange rnd start sz name us = Inr (printed, us')" "0 \<le> rnd"
  shows "\<exists>t. printed = [nat t] \<and> 0 \<le> t \<and> t < NUMBER_OF_TAINT_MARKS (u_engine us') \<and>
    tagMap us' = (tagMap us)(name \<mapsto> t) \<and>
    (case tagMap us name of Some k \<Rightarrow> t = k
     | None \<Rightarrow> \<exists>g g'. taintGen (u_engine us) = Some g \<and> mark_spec rnd g = Some (t, g')) \<and>
    (\<forall>d n. let t' = abs_state (u_engine us) in
      DisplayTagsForByteRange d n us' =
        Inr (sorted_list_of_set
              ((if \<exists>a. in_range d n a \<and> in_range start sz a then {nat t} else {}) \<union>
               (\<Union>a \<in> {a. in_range d n a \<and> \<not> in_range start sz a}. marks_of (mem t' a)) \<union>
               control_marks t'),
             sorted_list_of_set (control_marks t')))"
proof -
  let ?t' = "abs_state (u_engine us)"
  have g: "taintGen (u_engine us) \<noteq> None"
    using assms(2) by (auto simp: AssignTagToByteRange_def split: if_splits)
  obtain t where t: "printed = [nat t]" "user_ok us'" "tagMap us' = (tagMap us)(name \<mapsto> t)"
    "tagMap us name \<noteq> None \<longrightarrow> tagMap us name = Some t"
    "tagMap us name = None \<longrightarrow> (\<exists>g g'. taintGen (u_engine us) = Some g \<and> nextTaintMark rnd g = Inr (t, g'))"
    "abs_state (u_engine us') = taint_range start sz (nat t) ?t'"
    using AssignTag_ok [OF assms(1,3) g, where start = start and sz = sz and name = name] assms(2) by auto
  have "control_marks (abs_state (u_engine us')) = control_marks ?t'"
    unfolding t(6) by (simp add: control_marks_def taint_range_def)
  moreover have "state_ok (u_engine us')" using t(2) by (simp add: user_ok_def)
  ultimately have d: "DisplayTagsForByteRange d n us' =
      Inr (sorted_list_of_set
            ((if \<exists>a. in_range d n a \<and> in_range start sz a then {nat t} else {}) \<union>
             (\<Union>a \<in> {a. in_range d n a \<and> \<not> in_range start sz a}. marks_of (mem ?t' a)) \<union> control_marks ?t'),
           sorted_list_of_set (control_marks ?t'))" for d n
    using DisplayTags_ok [of us' d n] unfolding t(6) mem_marks_tagged by simp
  have "mark_spec rnd g = Some (t, g')"
    if "taintGen (u_engine us) = Some g" "nextTaintMark rnd g = Inr (t, g')" for g g'
    using assms(1) that nextTaintMark_spec [OF _ assms(3), of "NUMBER_OF_TAINT_MARKS (u_engine us)" g]
      state_okD(2) [of "u_engine us"] by (auto simp: user_ok_def split: option.splits)
  then have "case tagMap us name of Some k \<Rightarrow> t = k
      | None \<Rightarrow> \<exists>g g'. taintGen (u_engine us) = Some g \<and> mark_spec rnd g = Some (t, g')"
    using t(4,5) by (auto split: option.split)
  moreover have "tagMap us' name = Some t" using t(3) by simp
  then have "0 \<le> t \<and> t < NUMBER_OF_TAINT_MARKS (u_engine us')" using t(2) unfolding user_ok_def by blast
  ultimately show ?thesis using t(1,3) d by (intro exI [of _ t]) (simp add: Let_def)
qed

definition fresh_user :: user_state where
  "fresh_user = \<lparr>u_engine = init_state 16 (Some (TaintGenerator 1 16)), tagMap = Map.empty, tracing = False\<rparr>"

lemma fresh_user_ok: "user_ok fresh_user"
  using state_ok_init [of 16 "Some (TaintGenerator 1 16)"]
  by (simp add: user_ok_def fresh_user_def) (simp add: init_state_def gen_ok_def)

theorem tag_display_roundtrip_witness:
  "\<exists>us'. AssignTagToByteRange 0 4096 8 ''key'' fresh_user = Inr ([2], us') \<and>
    DisplayTagsForByteRange 4100 32 us' = Inr ([2], [])"
proof -
  have g: "taintGen (u_engine fresh_user) = Some (TaintGenerator 1 16)" "tagMap fresh_user ''key'' = None"
    "abs_state (u_engine fresh_user) = abs_state (init_state 16 None)"
    by (simp_all add: fresh_user_def abs_state_def) (simp_all add: init_state_def)
  have n: "nextTaintMark 0 (TaintGenerator 1 16) = Inr (2, TaintGenerator 2 16)"
    using next_counter [of 1 16 0] by (simp add: INT_MAX_def)
  obtain us' where a: "AssignTagToByteRange 0 4096 8 ''key'' fresh_user = Inr ([2], us')"
    using AssignTag_ok [OF fresh_user_ok, where rnd = 0 and start = 4096 and sz = 8 and name = "''key''"] g n by auto
  have m: "mem (abs_state (u_engine fresh_user)) x = None" for x
    unfolding g(3) by (simp add: init_state_def)
  have c: "control_marks (abs_state (u_engine fresh_user)) = {}"
    unfolding g(3) by (simp add: control_marks_def) (simp add: init_state_def)
  have "in_range 4100 32 (4100 :: addrint)" "in_range 4096 8 (4100 :: addrint)"
    by (simp_all add: in_range_def)
  then have r: "\<exists>x :: addrint. in_range 4100 32 x \<and> in_range 4096 8 x" by blast
  have "DisplayTagsForByteRange 4100 32 us' = Inr ([2], [])"
    using tag_display_roundtrip [OF fresh_user_ok a] r by (auto simp: m c Let_def simp del: abs_state_sel)
  then show ?thesis using a by blast
qed

section \<open>The arguments of main\<close>

text \<open>
  The marks that a counting generator gives out: the next one for \<open>argc\<close>, the following ones
  for the elements of \<open>argv\<close>.
\<close>

lemma mark_with_counter:
  assumes "state_ok st" "taintGen st = Some (TaintGenerator c m)" "-1 \<le> c" "0 < m"
    "m \<le> NUMBER_OF_TAINT_MARKS st" "c < INT_MAX"
  shows "\<exists>st'. SetNewTaintForMemory rnd start sz (-1) st = Inr st' \<and> state_ok st' \<and>
    taintGen st' = Some (TaintGenerator (c + 1) m) \<and>
    NUMBER_OF_TAINT_MARKS st' = NUMBER_OF_TAINT_MARKS st \<and>
    abs_state st' = taint_range start sz (nat ((c + 1) mod m)) (abs_state st)"
proof (rule SetNewTaintForMemory_mark [OF assms(1)])
  show "new_mark rnd (- 1) st =
      Inr ((c + 1) mod m, st\<lparr>taintGen := Some (TaintGenerator (c + 1) m)\<rparr>)"
    using assms(2) next_counter [OF assms(3,4,6), of rnd] by (simp add: new_mark_def)
  show "0 \<le> (c + 1) mod m" using assms(4) by simp
  have "(c + 1) mod m < m" using assms(4) by simp
  then show "(c + 1) mod m < NUMBER_OF_TAINT_MARKS st" using assms(5) by (rule less_le_trans)
qed

definition argv_taint ::
  "(addrint \<Rightarrow> addrint) \<Rightarrow> (addrint \<Rightarrow> size_t) \<Rightarrow> addrint \<Rightarrow> int \<Rightarrow> int \<Rightarrow> nat \<Rightarrow> taint \<Rightarrow> taint" where
  "argv_taint load strlen argv c m i =
     taint_range (argv + of_nat (8 * i)) (strlen (load (argv + of_nat (8 * i)))) (nat ((c + 2 + int i) mod m))"

lemma main_wrapper_ok:
  assumes "state_ok st" "taintGen st = Some (TaintGenerator c m)" "-1 \<le> c" "0 < m"
    "m \<le> NUMBER_OF_TAINT_MARKS st" "c + int n < INT_MAX"
  shows "\<exists>st'. main_wrapper_func rnd load strlen argcAddr (int n) argv st = Inr st' \<and> state_ok st' \<and>
    abs_state st' = fold (argv_taint load strlen argv c m) [0..<n]
      (taint_range argcAddr 4 (nat ((c + 1) mod m)) (abs_state st))"
proof -
  let ?f = "\<lambda>i st. let addr = argv + of_nat (8 * i) in
            SetNewTaintForMemory (rnd (Suc i)) addr (strlen (load addr)) (-1) st"
  have "c < INT_MAX" using assms(6) by linarith
  from mark_with_counter [OF assms(1-5) this, of "rnd 0" argcAddr 4] obtain st1 where st1:
    "SetNewTaintForMemory (rnd 0) argcAddr 4 (-1) st = Inr st1" "state_ok st1"
    "taintGen st1 = Some (TaintGenerator (c + 1) m)"
    "NUMBER_OF_TAINT_MARKS st1 = NUMBER_OF_TAINT_MARKS st"
    "abs_state st1 = taint_range argcAddr 4 (nat ((c + 1) mod m)) (abs_state st)" by auto
  have loop: "k \<le> n \<Longrightarrow> \<exists>st'. fold_res ?f [0..<k] st1 = Inr st' \<and> state_ok st' \<and>
      taintGen st' = Some (TaintGenerator (c + 1 + int k) m) \<and>
      NUMBER_OF_TAINT_MARKS st' = NUMBER_OF_TAINT_MARKS st \<and>
      abs_state st' = fold (argv_taint load strlen argv c m) [0..<k] (abs_state st1)" for k
  proof (induction k)
    case 0
    then show ?case using st1 by simp
  next
    case (Suc k)
    then obtain s where s: "fold_res ?f [0..<k] st1 = Inr s" "state_ok s"
      "taintGen s = Some (TaintGenerator (c + 1 + int k) m)"
      "NUMBER_OF_TAINT_MARKS s = NUMBER_OF_TAINT_MARKS st"
      "abs_state s = fold (argv_taint load strlen argv c m) [0..<k] (abs_state st1)" by auto
    have "-1 \<le> c + 1 + int k" "c + 1 + int k < INT_MAX" using assms(3,6) Suc.prems by linarith+
    then obtain s' where "?f k s = Inr s'" "state_ok s'"
      "taintGen s' = Some (TaintGenerator (c + 1 + int k + 1) m)"
      "NUMBER_OF_TAINT_MARKS s' = NUMBER_OF_TAINT_MARKS s"
      "abs_state s' = argv_taint load strlen argv c m k (abs_state s)"
      using mark_with_counter [OF s(2,3), of "rnd (Suc k)" "argv + of_nat (8 * k)"
          "strlen (load (argv + of_nat (8 * k)))"] assms(4,5) s(4)
      by (auto simp: Let_def argv_taint_def add.commute add.left_commute)
    with s show ?case by (intro exI [of _ s']) (simp add: fold_res_append)
  qed
  from loop [of n] st1(1,5) show ?thesis by (auto simp: main_wrapper_func_def)
qed

lemma argv_taint_outside:
  assumes "\<And>i. i < n \<Longrightarrow> \<not> in_range (argv + of_nat (8 * i)) (strlen (load (argv + of_nat (8 * i)))) x"
  shows "mem (fold (argv_taint load strlen argv c m) [0..<n] t) x = mem t x"
  using assms by (induction n) (simp_all add: argv_taint_def taint_range_def)

text \<open>
  C38: The wrapper of \<open>main\<close> succeeds and taints \<open>argc\<close> and, for each argument, as many bytes as
  the argument's string is long, but from the place of its pointer in \<open>argv\<close>: a byte of a
  string that does not happen to lie there keeps its marks. The strings that the user typed
  are not tainted.
\<close>

theorem main_arguments_miss_strings:
  assumes "state_ok st" "taintGen st = Some (TaintGenerator c m)" "-1 \<le> c" "0 < m"
    "m \<le> NUMBER_OF_TAINT_MARKS st" "c + int n < INT_MAX"
    and "\<not> in_range argcAddr 4 x"
    and "\<And>i. i < n \<Longrightarrow> \<not> in_range (argv + of_nat (8 * i)) (strlen (load (argv + of_nat (8 * i)))) x"
  shows "\<exists>st'. main_wrapper_func rnd load strlen argcAddr (int n) argv st = Inr st' \<and> state_ok st' \<and>
    mem (abs_state st') x = mem (abs_state st) x \<and>
    abs_state st' = fold (argv_taint load strlen argv c m) [0..<n]
      (taint_range argcAddr 4 (nat ((c + 1) mod m)) (abs_state st))"
proof -
  obtain st' where "main_wrapper_func rnd load strlen argcAddr (int n) argv st = Inr st'" "state_ok st'"
    "abs_state st' = fold (argv_taint load strlen argv c m) [0..<n]
      (taint_range argcAddr 4 (nat ((c + 1) mod m)) (abs_state st))"
    using main_wrapper_ok [OF assms(1-6), of rnd load strlen argcAddr argv] by auto
  moreover have "mem (taint_range argcAddr 4 k t) x = mem t x" for k t
    using assms(7) by (simp add: taint_range_def)
  ultimately show ?thesis
    using argv_taint_outside [of n argv strlen load x c m] assms(8) by metis
qed

text \<open>One argument of three characters at 8192; its pointer is at 4096.\<close>

theorem main_arguments_miss_strings_witness:
  "\<exists>st'. main_wrapper_func (\<lambda>_. 0) (\<lambda>_. 8192) (\<lambda>_. 3) 2048 1 4096 (init_state 16 (Some (TaintGenerator 1 16))) = Inr st' \<and>
    mem (abs_state st') 8192 = None \<and> mem (abs_state st') 4096 = Some {3} \<and> mem (abs_state st') 2048 = Some {2}"
proof -
  let ?st = "init_state 16 (Some (TaintGenerator 1 16))"
  have st: "state_ok ?st" "taintGen ?st = Some (TaintGenerator 1 16)" "NUMBER_OF_TAINT_MARKS ?st = 16"
    "mem (abs_state ?st) 8192 = None"
    by (simp_all add: state_ok_init) (simp_all add: init_state_def)
  have "\<exists>st'. main_wrapper_func (\<lambda>_. 0) (\<lambda>_. 8192) (\<lambda>_. 3) 2048 (int 1) 4096 ?st = Inr st' \<and> state_ok st' \<and>
    mem (abs_state st') 8192 = mem (abs_state ?st) 8192 \<and>
    abs_state st' = fold (argv_taint (\<lambda>_. 8192) (\<lambda>_. 3) 4096 1 16) [0..<1]
      (taint_range 2048 4 (nat ((1 + 1) mod 16)) (abs_state ?st))"
    by (rule main_arguments_miss_strings [OF st(1,2)]) (simp_all add: st(3) INT_MAX_def in_range_def)
  then obtain st' where "main_wrapper_func (\<lambda>_. 0) (\<lambda>_. 8192) (\<lambda>_. 3) 2048 1 4096 ?st = Inr st'"
    "abs_state st' = argv_taint (\<lambda>_. 8192) (\<lambda>_. 3) 4096 1 16 0 (taint_range 2048 4 2 (abs_state ?st))"
    by auto
  then show ?thesis
    using st(4) by (intro exI [of _ st']) (simp add: argv_taint_def taint_range_def in_range_def del: abs_state_sel)
qed

end
