(* ===== verification/Conditional_Move.thy ===== *)
theory Conditional_Move
  imports Instrument_Move
begin

unbundle bit_operations_syntax

text \<open>
  The conditional moves of \<open>src/instrument_functions.c\<close>: the functions that look at the flags
  (lines 40--137) and the handler \<open>Instrument_CMOVcc\<close> (lines 1648--1798), which \<open>#if 0\<close> takes
  out of Dytan and which the table of \<open>src/penumbra.cpp\<close> names. A mask is the text
  \<open>1 << k\<close> without parentheses, and a shift binds tighter than \<open>&\<close>.
\<close>

section \<open>Masks and checks\<close>

definition CF_MASK :: addrint where
  "CF_MASK = push_bit 1 1"

definition PF_MASK :: addrint where
  "PF_MASK = push_bit 2 1"

definition ZF_MASK :: addrint where
  "ZF_MASK = push_bit 6 1"

definition SF_MASK :: addrint where
  "SF_MASK = push_bit 7 1"

definition OF_MASK :: addrint where
  "OF_MASK = push_bit 11 1"

definition CheckCMOVNB :: "addrint \<Rightarrow> addrint" where
  "CheckCMOVNB eflags = of_bool (eflags AND CF_MASK = 0)"

definition CheckCMOVB :: "addrint \<Rightarrow> addrint" where
  "CheckCMOVB eflags = of_bool (eflags AND CF_MASK = 1)"

definition CheckCMOVBE :: "addrint \<Rightarrow> addrint" where
  "CheckCMOVBE eflags = of_bool (eflags AND CF_MASK = 1 \<or> eflags AND ZF_MASK = 1)"

definition CheckCMOVNLE :: "addrint \<Rightarrow> addrint" where
  "CheckCMOVNLE eflags = of_bool (eflags AND ZF_MASK = 0 \<and> eflags AND SF_MASK = 0)"

definition CheckCMOVNL :: "addrint \<Rightarrow> addrint" where
  "CheckCMOVNL eflags = of_bool (eflags AND SF_MASK = eflags AND OF_MASK)"

definition CheckCMOVL :: "addrint \<Rightarrow> addrint" where
  "CheckCMOVL eflags = of_bool (eflags AND SF_MASK \<noteq> eflags AND OF_MASK)"

definition CheckCMOVLE :: "addrint \<Rightarrow> addrint" where
  "CheckCMOVLE eflags = of_bool (eflags AND ZF_MASK = 1 \<or> eflags AND SF_MASK \<noteq> eflags AND OF_MASK)"

definition CheckCMOVNBE :: "addrint \<Rightarrow> addrint" where
  "CheckCMOVNBE eflags = of_bool (eflags AND CF_MASK = 0 \<and> eflags AND ZF_MASK = 0)"

definition CheckCMOVNZ :: "addrint \<Rightarrow> addrint" where
  "CheckCMOVNZ eflags = of_bool (eflags AND ZF_MASK = 0)"

definition CheckCMOVNO :: "addrint \<Rightarrow> addrint" where
  "CheckCMOVNO eflags = of_bool (eflags AND OF_MASK = 0)"

definition CheckCMOVNP :: "addrint \<Rightarrow> addrint" where
  "CheckCMOVNP eflags = of_bool (eflags AND PF_MASK = 0)"

definition CheckCMOVNS :: "addrint \<Rightarrow> addrint" where
  "CheckCMOVNS eflags = of_bool (eflags AND SF_MASK = 0)"

definition CheckCMOVO :: "addrint \<Rightarrow> addrint" where
  "CheckCMOVO eflags = of_bool (eflags AND OF_MASK = 1)"

definition CheckCMOVP :: "addrint \<Rightarrow> addrint" where
  "CheckCMOVP eflags = of_bool (eflags AND PF_MASK = 1)"

definition CheckCMOVS :: "addrint \<Rightarrow> addrint" where
  "CheckCMOVS eflags = of_bool (eflags AND SF_MASK = 1)"

definition CheckCMOVZ :: "addrint \<Rightarrow> addrint" where
  "CheckCMOVZ eflags = of_bool (eflags AND ZF_MASK = 1)"

section \<open>The handler\<close>

text \<open>The chain of tests on the class, in its order.\<close>

definition cmov_checks :: "(string \<times> (addrint \<Rightarrow> addrint)) list" where
  "cmov_checks =
     [(''CMOVNB'', CheckCMOVNB), (''CMOVB'', CheckCMOVB), (''CMOVBE'', CheckCMOVBE),
      (''CMOVNLE'', CheckCMOVNLE), (''CMOVNL'', CheckCMOVNL), (''CMOVL'', CheckCMOVL),
      (''CMOVLE'', CheckCMOVLE), (''CMOVNBE'', CheckCMOVNBE), (''CMOVNZ'', CheckCMOVNZ),
      (''CMOVNO'', CheckCMOVNO), (''CMOVNP'', CheckCMOVNP), (''CMOVNS'', CheckCMOVNS),
      (''CMOVO'', CheckCMOVO), (''CMOVP'', CheckCMOVP), (''CMOVS'', CheckCMOVS),
      (''CMOVZ'', CheckCMOVZ)]"

definition Instrument_CMOVcc :: "ins \<Rightarrow> call list result" where
  "Instrument_CMOVcc ins = handler
     [load_rm ins 1 Src,
      (case map_of cmov_checks (INS_Opcode ins) of
         None \<Rightarrow> abort_step
       | Some c \<Rightarrow> if_then (CheckFlags c) (Call_SetTaintForRegister (INS_OperandReg ins 0) [Src]))]"

section \<open>What the checks see\<close>

text \<open>A mask selects one bit, so the selection is the mask or zero.\<close>

lemma and_single_bit:
  fixes e :: addrint
  shows "e AND push_bit k 1 = (if bit e k then push_bit k 1 else 0)"
  by (rule bit_eqI) (auto simp: bit_simps)

lemma masks_values: "CF_MASK = 2" "PF_MASK = 4" "ZF_MASK = 64" "SF_MASK = 128" "OF_MASK = 2048"
  by (simp_all add: CF_MASK_def PF_MASK_def ZF_MASK_def SF_MASK_def OF_MASK_def push_bit_eq_mult)

lemma flag_and:
  "e AND CF_MASK = (if bit e 1 then CF_MASK else 0)" "e AND PF_MASK = (if bit e 2 then PF_MASK else 0)"
  "e AND ZF_MASK = (if bit e 6 then ZF_MASK else 0)" "e AND SF_MASK = (if bit e 7 then SF_MASK else 0)"
  "e AND OF_MASK = (if bit e 11 then OF_MASK else 0)"
  by (simp_all only: CF_MASK_def PF_MASK_def ZF_MASK_def SF_MASK_def OF_MASK_def and_single_bit)

lemmas flag_values = masks_values flag_and [unfolded masks_values]

lemmas check_defs =
  CheckCMOVNB_def CheckCMOVB_def CheckCMOVBE_def CheckCMOVNLE_def CheckCMOVNL_def CheckCMOVL_def
  CheckCMOVLE_def CheckCMOVNBE_def CheckCMOVNZ_def CheckCMOVNO_def CheckCMOVNP_def
  CheckCMOVNS_def CheckCMOVO_def CheckCMOVP_def CheckCMOVS_def CheckCMOVZ_def

text \<open>
  The checks for a set flag are never true, the signed comparisons only look whether both of
  their flags are clear, and the carry flag is looked for in bit 1, which the processor keeps
  set. Bit 0 is the carry flag, 2 parity, 6 zero, 7 sign and 11 overflow.
\<close>

theorem conditional_move_checks:
  "CheckCMOVB e = 0 \<and> CheckCMOVBE e = 0 \<and> CheckCMOVO e = 0 \<and> CheckCMOVP e = 0 \<and>
   CheckCMOVS e = 0 \<and> CheckCMOVZ e = 0 \<and>
   CheckCMOVNZ e = of_bool (\<not> bit e 6) \<and> CheckCMOVNO e = of_bool (\<not> bit e 11) \<and>
   CheckCMOVNP e = of_bool (\<not> bit e 2) \<and> CheckCMOVNS e = of_bool (\<not> bit e 7) \<and>
   CheckCMOVNB e = of_bool (\<not> bit e 1) \<and> CheckCMOVNBE e = of_bool (\<not> bit e 1 \<and> \<not> bit e 6) \<and>
   CheckCMOVNL e = of_bool (\<not> bit e 7 \<and> \<not> bit e 11) \<and>
   CheckCMOVL e = of_bool (bit e 7 \<or> bit e 11) \<and> CheckCMOVLE e = CheckCMOVL e \<and>
   CheckCMOVNLE e = of_bool (\<not> bit e 6 \<and> \<not> bit e 7)"
  by (intro conjI; simp add: check_defs flag_values)

section \<open>What the handler would do\<close>

lemma Instrument_CMOVcc_implements:
  assumes "readable ins 1" "map_of cmov_checks (INS_Opcode ins) = Some c"
  shows "implements (Instrument_CMOVcc ins) (\<lambda>x a.
    if c (IARG_REG_VALUE x REG_EFLAGS) \<noteq> 0
    then write_reg (INS_OperandReg ins 0) (operand_marks x ins 1 a) a else a)"
  unfolding Instrument_CMOVcc_def assms(2) option.case
  by (rule implements_handler, (rule carries_intros assms(1))+) (simp add: engine_simps)

text \<open>
  A conditional move on a set flag, the move on zero among them, would never give the marks
  of its source to its destination, whether the processor moves or not, because the check
  compares a selected bit with one.
\<close>

theorem Instrument_CMOVcc_loses:
  assumes "readable ins 1"
    and "INS_Opcode ins \<in> {''CMOVB'', ''CMOVBE'', ''CMOVO'', ''CMOVP'', ''CMOVS'', ''CMOVZ''}"
  shows "implements (Instrument_CMOVcc ins) (\<lambda>x a. a)"
proof -
  obtain c where c: "map_of cmov_checks (INS_Opcode ins) = Some c"
    "c \<in> {CheckCMOVB, CheckCMOVBE, CheckCMOVO, CheckCMOVP, CheckCMOVS, CheckCMOVZ}"
    using assms(2) by (auto simp: cmov_checks_def)
  have "c e = 0" for e using c(2) by (auto simp: check_defs flag_values)
  then show ?thesis using Instrument_CMOVcc_implements [OF assms(1) c(1)] by simp
qed

theorem Instrument_CMOVcc_loses_witness:
  "implements (Instrument_CMOVcc ((register_ins 32 [REG_EAX, REG_EBX])\<lparr>INS_Opcode := ''CMOVZ''\<rparr>)) (\<lambda>x a. a)"
  by (rule Instrument_CMOVcc_loses) (simp_all add: readable_def register_ins_def)

end
