(* ===== verification/Penumbra.thy ===== *)
theory Penumbra
  imports Conditional_Move Dispatch Routine_Graph
begin

text \<open>
  The sibling tool \<open>src/penumbra.cpp\<close>: an engine without histories and with a fixed number of
  marks, where a load also takes the marks of the registers that form its address (\<open>IMPLICIT\<close>
  is defined), and where the arguments of \<open>main\<close> are tainted with a counter. Its routines are
  copies of those of Dytan that have drifted apart; the theorems say where they still agree.
  The variable arguments of a write, which a null pointer ends, are a list.
\<close>

section \<open>State\<close>

record penumbra =
  p_regTaintMap :: "reg \<Rightarrow> bitset option"
  p_memTaintMap :: "addrint \<Rightarrow> bitset option"
  p_controlTaintMap :: "(addrint \<times> bitset) list"
  currentTaintMark :: int

definition p_NUMBER_OF_TAINT_MARKS :: size_t where
  "p_NUMBER_OF_TAINT_MARKS = 4096"

definition p_fresh_set :: bitset where
  "p_fresh_set = bitset_init p_NUMBER_OF_TAINT_MARKS"

definition p_init :: penumbra where
  "p_init = \<lparr>p_regTaintMap = Map.empty, p_memTaintMap = Map.empty, p_controlTaintMap = [],
     currentTaintMark = 0\<rparr>"

section \<open>Routines\<close>

definition p_TaintForRegister :: "reg \<Rightarrow> bitset \<Rightarrow> penumbra \<Rightarrow> bitset result" where
  "p_TaintForRegister r s p =
     (case p_regTaintMap p r of
        Some marks_r \<Rightarrow> bitset_set_bits s marks_r
      | None \<Rightarrow> bitset_reset s)"

text \<open>A base or index register adds its marks, if it is valid and known.\<close>

definition implicit_flow :: "reg \<Rightarrow> penumbra \<Rightarrow> bitset \<Rightarrow> bitset result" where
  "implicit_flow r p s =
     (if r \<noteq> REG_INVALID
      then (case p_regTaintMap p r of Some marks_r \<Rightarrow> bitset_union s marks_r | None \<Rightarrow> Inr s)
      else Inr s)"

definition p_TaintForMemory ::
  "addrint \<Rightarrow> size_t \<Rightarrow> reg \<Rightarrow> reg \<Rightarrow> bitset \<Rightarrow> penumbra \<Rightarrow> bitset result" where
  "p_TaintForMemory start sz baseReg indexReg s p =
     and_then (bitset_reset s) (\<lambda>s.
     and_then (fold_res (\<lambda>addr s. case p_memTaintMap p addr of
            Some marks_a \<Rightarrow> bitset_union s marks_a
          | None \<Rightarrow> Inr s)
        (addr_range start sz) s) (\<lambda>s.
     and_then (implicit_flow baseReg p s) (implicit_flow indexReg p)))"

definition p_union_args :: "bitset list \<Rightarrow> bitset result" where
  "p_union_args args = fold_res (\<lambda>src tmp. bitset_union tmp src) args p_fresh_set"

definition p_control_taint :: "penumbra \<Rightarrow> bitset result" where
  "p_control_taint p =
     fold_res (\<lambda>e controlTaint. bitset_union controlTaint (snd e)) (p_controlTaintMap p) p_fresh_set"

definition p_assign_reg :: "bitset \<Rightarrow> reg \<Rightarrow> penumbra \<Rightarrow> penumbra result" where
  "p_assign_reg tmp r p =
     and_then (case p_regTaintMap p r of
         Some s \<Rightarrow> bitset_set_bits s tmp
       | None \<Rightarrow> bitset_copy tmp)
       (\<lambda>s'. Inr (p\<lparr>p_regTaintMap := (p_regTaintMap p)(r \<mapsto> s')\<rparr>))"

definition p_SetTaintForRegister :: "reg \<Rightarrow> bitset list \<Rightarrow> penumbra \<Rightarrow> penumbra result" where
  "p_SetTaintForRegister dest args p =
     (if REG_ESP = dest \<or> REG_EBP = dest then Inr p
      else and_then (p_union_args args) (\<lambda>tmp.
        and_then (p_control_taint p) (\<lambda>controlTaint.
        and_then (bitset_union tmp controlTaint) (\<lambda>tmp.
        and_then (if REG_EAX = dest
                  then fold_res (p_assign_reg tmp) [REG_AX, REG_AH, REG_AL] p
                  else if REG_EBX = dest
                  then fold_res (p_assign_reg tmp) [REG_BX, REG_BH, REG_BL] p
                  else if REG_ECX = dest
                  then fold_res (p_assign_reg tmp) [REG_CX, REG_CH, REG_CL] p
                  else if REG_EDX = dest
                  then fold_res (p_assign_reg tmp) [REG_DX, REG_DH, REG_DL] p
                  else Inr p) (p_assign_reg tmp dest)))))"

definition p_ClearTaintForRegister :: "reg \<Rightarrow> penumbra \<Rightarrow> penumbra result" where
  "p_ClearTaintForRegister r p =
     and_then (p_control_taint p) (\<lambda>controlTaint.
       case p_regTaintMap p r of
         Some s \<Rightarrow> and_then (bitset_set_bits s controlTaint) (\<lambda>s'.
                     Inr (p\<lparr>p_regTaintMap := (p_regTaintMap p)(r \<mapsto> s')\<rparr>))
       | None \<Rightarrow> Inr p)"

definition p_clear_byte :: "bitset \<Rightarrow> addrint \<Rightarrow> penumbra \<Rightarrow> penumbra result" where
  "p_clear_byte controlTaint addr p =
     (case p_memTaintMap p addr of
        Some s \<Rightarrow> and_then (bitset_set_bits s controlTaint) (\<lambda>s'.
                    Inr (p\<lparr>p_memTaintMap := (p_memTaintMap p)(addr \<mapsto> s')\<rparr>))
      | None \<Rightarrow> Inr p)"

definition p_ClearTaintForMemory :: "addrint \<Rightarrow> size_t \<Rightarrow> penumbra \<Rightarrow> penumbra result" where
  "p_ClearTaintForMemory start sz p =
     and_then (p_control_taint p) (\<lambda>controlTaint.
       fold_res (p_clear_byte controlTaint) (addr_range start sz) p)"

definition p_assign_byte :: "bitset \<Rightarrow> addrint \<Rightarrow> penumbra \<Rightarrow> penumbra result" where
  "p_assign_byte tmp addr p =
     and_then (case p_memTaintMap p addr of
         Some s \<Rightarrow> bitset_set_bits s tmp
       | None \<Rightarrow> bitset_copy tmp)
       (\<lambda>s'. Inr (p\<lparr>p_memTaintMap := (p_memTaintMap p)(addr \<mapsto> s')\<rparr>))"

definition p_SetTaintForMemory :: "addrint \<Rightarrow> size_t \<Rightarrow> bitset list \<Rightarrow> penumbra \<Rightarrow> penumbra result" where
  "p_SetTaintForMemory start sz args p =
     and_then (p_union_args args) (\<lambda>tmp.
     and_then (p_control_taint p) (\<lambda>controlTaint.
     and_then (bitset_union tmp controlTaint) (\<lambda>tmp.
       fold_res (p_assign_byte tmp) (addr_range start sz) p)))"

definition p_PushControl :: "addrint \<Rightarrow> penumbra \<Rightarrow> penumbra result" where
  "p_PushControl addr p =
     (case p_regTaintMap p REG_EFLAGS of
        None \<Rightarrow> Inr p
      | Some ef \<Rightarrow>
          and_then (bitset_is_empty ef) (\<lambda>b.
            if b then Inr p
            else let cm = (case map_of (p_controlTaintMap p) addr of
                             None \<Rightarrow> smap_put addr p_fresh_set (p_controlTaintMap p)
                           | Some _ \<Rightarrow> p_controlTaintMap p) in
              (case map_of cm addr of
                 None \<Rightarrow> Inl Null_Dereference
               | Some s \<Rightarrow> and_then (bitset_union s ef) (\<lambda>s'.
                   Inr (p\<lparr>p_controlTaintMap := smap_put addr s' cm\<rparr>)))))"

fun p_PopControl :: "addrint list \<Rightarrow> penumbra \<Rightarrow> penumbra" where
  "p_PopControl [] p = p"
| "p_PopControl (addr # addrs) p =
     (case map_of (p_controlTaintMap p) addr of
        None \<Rightarrow> p
      | Some s \<Rightarrow> p_PopControl addrs (p\<lparr>p_controlTaintMap := smap_erase addr (p_controlTaintMap p)\<rparr>))"

section \<open>Control-flow instrumentation\<close>

text \<open>A branch without a block or without a post-dominator is reported and then used.\<close>

definition p_meeting_point :: "graph \<Rightarrow> cfg_ins \<Rightarrow> addrint result" where
  "p_meeting_point g ins =
     (case addressMap g (INS_Address ins) of
        None \<Rightarrow> Inl Null_Dereference
      | Some bb \<Rightarrow>
          (case PostDominator (heap g bb) of
             None \<Rightarrow> Inl Null_Dereference
           | Some d \<Rightarrow> Inr (startingAddress (heap g d))))"

definition p_controls :: "graph \<Rightarrow> cfg_ins list \<Rightarrow> (addrint \<Rightarrow> addrint list) result" where
  "p_controls g xs =
     fold_res (\<lambda>ins c.
         if INS_IsCondBranch ins
         then and_then (p_meeting_point g ins) (\<lambda>a. Inr (c(a := insort_insert (INS_Address ins) (c a))))
         else Inr c) xs (\<lambda>_. [])"

definition p_Controlflow ::
  "graph \<Rightarrow> bool \<Rightarrow> cfg_ins list \<Rightarrow> (cfg_ins \<times> control_call list) list result" where
  "p_Controlflow g shared_library xs =
     (if shared_library then Inr []
      else and_then (p_controls g xs) (\<lambda>c.
        Inr (map (\<lambda>i. (i,
          (if INS_IsCondBranch i then [Call_PushControl (INS_Address i)] else []) @
          (case c (INS_Address i) of [] \<Rightarrow> [] | bs \<Rightarrow> [Call_PopControl bs]))) xs)))"

section \<open>Dispatch table\<close>

text \<open>
  The table of Penumbra's \<open>main\<close>, by the names that an older Pin gave the classes. The handlers
  are those of \<open>src/instrument_functions.c\<close>, as it stands.
\<close>

definition p_instrument_table_1 :: "(string \<times> (ins \<Rightarrow> call list result)) list" where
  "p_instrument_table_1 =
     [(''ADD'', Instrument_ADD), (''PUSH'', Instrument_PUSH), (''POP'', Instrument_POP),
      (''OR'', Instrument_OR), (''ADC'', Instrument_ADC), (''SBB'', Instrument_SBB),
      (''AND'', Instrument_AND), (''SUB'', Instrument_SUB), (''XOR'', Instrument_XOR),
      (''CMP'', Instrument_CMP), (''INC'', Instrument_INC), (''DEC'', Instrument_DEC),
      (''IMUL'', Instrument_IMUL), (''JO'', Instrument_Jcc), (''JNO'', Instrument_Jcc),
      (''JB'', Instrument_Jcc), (''JNB'', Instrument_Jcc), (''JZ'', Instrument_Jcc),
      (''JNZ'', Instrument_Jcc), (''JBE'', Instrument_Jcc), (''JNBE'', Instrument_Jcc),
      (''JS'', Instrument_Jcc), (''JNS'', Instrument_Jcc), (''JP'', Instrument_Jcc),
      (''JNP'', Instrument_Jcc), (''JL'', Instrument_Jcc), (''JNL'', Instrument_Jcc),
      (''JLE'', Instrument_Jcc), (''JNLE'', Instrument_Jcc), (''TEST'', Instrument_TEST),
      (''XCHG'', Instrument_XCHG), (''MOV'', Instrument_MOV), (''LEA'', Instrument_LEA),
      (''PAUSE'', Instrument_PAUSE), (''CWDE'', Instrument_CWDE), (''CDQ'', Instrument_CDQ),
      (''PUSHFD'', Instrument_PUSHFD), (''POPFD'', Instrument_POPFD), (''MOVSB'', Instrument_MOVSB),
      (''MOVSW'', Instrument_MOVSW), (''MOVSD'', Instrument_MOVSD), (''CMPSB'', Instrument_CMPSB),
      (''STOSB'', Instrument_STOSB), (''STOSD'', Instrument_STOSD), (''SCASB'', Instrument_SCASB),
      (''RET_NEAR'', Instrument_RET_NEAR), (''LEAVE'', Instrument_LEAVE), (''INT'', Instrument_INT)]"

definition p_instrument_table_2 :: "(string \<times> (ins \<Rightarrow> call list result)) list" where
  "p_instrument_table_2 =
     [(''JrCXZ'', Instrument_Jcc), (''CALL_NEAR'', Instrument_CALL_NEAR), (''JMP'', Instrument_JMP),
      (''HLT'', Instrument_HLT), (''CLD'', Instrument_CLD), (''STD'', Instrument_STD),
      (''RDTSC'', Instrument_RDTSC), (''CMOVB'', Instrument_CMOVcc), (''CMOVNB'', Instrument_CMOVcc),
      (''CMOVZ'', Instrument_CMOVcc), (''CMOVNZ'', Instrument_CMOVcc),
      (''CMOVBE'', Instrument_CMOVcc), (''CMOVNBE'', Instrument_CMOVcc),
      (''SETB'', Instrument_SETcc), (''SETNB'', Instrument_SETcc), (''SETZ'', Instrument_SETcc),
      (''SETNZ'', Instrument_SETcc), (''SETBE'', Instrument_SETcc), (''SETNBE'', Instrument_SETcc),
      (''SHLD'', Instrument_SHLD), (''CMPXCHG'', Instrument_CMPXCHG), (''MOVZX'', Instrument_MOVZX),
      (''XADD'', Instrument_XADD), (''CMOVS'', Instrument_CMOVcc), (''CMOVNS'', Instrument_CMOVcc),
      (''CMOVL'', Instrument_CMOVcc), (''CMOVNL'', Instrument_CMOVcc),
      (''CMOVLE'', Instrument_CMOVcc), (''CMOVNLE'', Instrument_CMOVcc),
      (''SETS'', Instrument_SETcc), (''SETL'', Instrument_SETcc), (''SETNL'', Instrument_SETcc),
      (''SETLE'', Instrument_SETcc), (''SETNLE'', Instrument_SETcc), (''SHRD'', Instrument_SHRD),
      (''MOVSX'', Instrument_MOVSX), (''BSWAP'', Instrument_BSWAP), (''SHL'', Instrument_SHL),
      (''SHR'', Instrument_SHR), (''SAR'', Instrument_SAR), (''NOT'', Instrument_NOT),
      (''NEG'', Instrument_NEG), (''MUL'', Instrument_MUL), (''DIV'', Instrument_DIV),
      (''IDIV'', Instrument_IDIV), (''LDMXCSR'', Instrument_LDMXCSR),
      (''STMXCSR'', Instrument_STMXCSR), (''FLDCW'', Instrument_FLDCW),
      (''FNSTCW'', Instrument_FNSTCW)]"

definition p_instrument_functions :: "string \<Rightarrow> ins \<Rightarrow> call list result" where
  "p_instrument_functions =
     fold (\<lambda>(k, h) f. f(k := h)) (p_instrument_table_1 @ p_instrument_table_2)
       (\<lambda>_. UnimplementedInstruction)"

definition p_Dataflow :: "ins \<Rightarrow> call list result" where
  "p_Dataflow ins = p_instrument_functions (INS_Opcode ins) ins"

section \<open>Arguments of main\<close>

text \<open>
  One mark for \<open>argc\<close> and one for each argument, for the bytes from the pointer to the end of
  the string. \<open>pointer i\<close> and \<open>str_len i\<close> are \<open>argv[i]\<close> and its length, \<open>ptr_size\<close> the size of a pointer.
\<close>

definition mark_bytes :: "addrint list \<Rightarrow> penumbra \<Rightarrow> penumbra result" where
  "mark_bytes addrs p =
     and_then (bitset_set_bit p_fresh_set (word_of_int (currentTaintMark p))) (\<lambda>tmp.
     and_then (fold_res (\<lambda>addr p. and_then (bitset_copy tmp) (\<lambda>s.
          Inr (p\<lparr>p_memTaintMap := (p_memTaintMap p)(addr \<mapsto> s)\<rparr>))) addrs p) (\<lambda>p.
     and_then (int_add (currentTaintMark p) 1) (\<lambda>n. Inr (p\<lparr>currentTaintMark := n\<rparr>))))"

definition TaintMainArgs ::
  "nat \<Rightarrow> addrint \<Rightarrow> int \<Rightarrow> addrint \<Rightarrow> (nat \<Rightarrow> addrint) \<Rightarrow> (nat \<Rightarrow> size_t) \<Rightarrow> penumbra \<Rightarrow> penumbra result" where
  "TaintMainArgs ptr_size argcAddr argc argv pointer str_len p =
     and_then (mark_bytes (addr_loop argcAddr (argcAddr + 4)) p)
       (fold_res (\<lambda>i. mark_bytes (addr_loop (argv + of_nat (ptr_size * i)) (pointer i + str_len i + 1)))
          [0..<nat argc])"

definition WrapMain :: "string \<Rightarrow> bool" where
  "WrapMain rtn_name \<longleftrightarrow> ''main'' = rtn_name"

section \<open>Agreement with Dytan\<close>

text \<open>The same maps, and Dytan configured for the same number of marks.\<close>

definition agrees :: "penumbra \<Rightarrow> dytan \<Rightarrow> bool" where
  "agrees p st \<longleftrightarrow> p_regTaintMap p = regTaintMap st \<and> p_memTaintMap p = memTaintMap st \<and>
     p_controlTaintMap p = controlTaintMap st \<and> NUMBER_OF_TAINT_MARKS st = 4096"

fun same_outcome :: "penumbra result \<Rightarrow> dytan result \<Rightarrow> bool" where
  "same_outcome (Inl e) (Inl e') = (e = e')"
| "same_outcome (Inr p) (Inr st) = agrees p st"
| "same_outcome _ _ = False"

lemma same_outcome_then:
  assumes "same_outcome x y" "\<And>p st. agrees p st \<Longrightarrow> same_outcome (f p) (g st)"
  shows "same_outcome (and_then x f) (and_then y g)"
  using assms by (cases x; cases y) auto

lemma same_outcome_value:
  assumes "\<And>v. same_outcome (f v) (g v)"
  shows "same_outcome (and_then x f) (and_then x g)"
  using assms by (cases x) auto

lemma same_outcome_fold:
  assumes "\<And>x p st. agrees p st \<Longrightarrow> same_outcome (f x p) (g x st)" "agrees p st"
  shows "same_outcome (fold_res f xs p) (fold_res g xs st)"
  using assms(2)
proof (induction xs arbitrary: p st)
  case (Cons x xs)
  show ?case unfolding fold_res.simps
    by (rule same_outcome_then [OF assms(1) [OF Cons.prems] Cons.IH])
qed simp

lemma agrees_sets:
  assumes "agrees p st"
  shows "fresh_set st = p_fresh_set" "union_args args st = p_union_args args"
    "control_taint st = p_control_taint p"
proof -
  show f: "fresh_set st = p_fresh_set"
    using assms by (simp add: agrees_def fresh_set_def p_fresh_set_def n_marks_def p_NUMBER_OF_TAINT_MARKS_def)
  then show "union_args args st = p_union_args args" "control_taint st = p_control_taint p"
    using assms by (simp_all add: agrees_def union_args_def p_union_args_def control_taint_def p_control_taint_def)
qed

lemma assign_agrees:
  assumes "agrees p st"
  shows "same_outcome (p_assign_reg tmp r p) (assign_reg tmp r st)"
    and "same_outcome (p_assign_byte tmp a p) (assign_byte tmp a st)"
    and "same_outcome (p_clear_byte c a p) (clear_byte c a st)"
proof -
  have m: "p_regTaintMap p = regTaintMap st" "p_memTaintMap p = memTaintMap st"
    using assms by (simp_all add: agrees_def)
  show "same_outcome (p_assign_reg tmp r p) (assign_reg tmp r st)"
    unfolding p_assign_reg_def assign_reg_def m
    by (rule same_outcome_value) (use assms in \<open>simp add: agrees_def\<close>)
  show "same_outcome (p_assign_byte tmp a p) (assign_byte tmp a st)"
    unfolding p_assign_byte_def assign_byte_def m
    by (rule same_outcome_value) (use assms in \<open>simp add: agrees_def\<close>)
  show "same_outcome (p_clear_byte c a p) (clear_byte c a st)"
    unfolding p_clear_byte_def clear_byte_def m
    using assms by (auto simp: agrees_def split: option.split intro!: same_outcome_value)
qed

lemma SetTaintForRegister_agrees:
  assumes "agrees p st" "r \<noteq> REG_R15D"
  shows "same_outcome (p_SetTaintForRegister r args p) (SetTaintForRegister r args st)"
proof -
  have loop: "same_outcome (fold_res (p_assign_reg tmp) rs p) (fold_res (assign_reg tmp) rs st)" for tmp rs
    by (rule same_outcome_fold [OF assign_agrees(1) assms(1)])
  have "same_outcome
      (and_then (if REG_EAX = r then fold_res (p_assign_reg tmp) [REG_AX, REG_AH, REG_AL] p
         else if REG_EBX = r then fold_res (p_assign_reg tmp) [REG_BX, REG_BH, REG_BL] p
         else if REG_ECX = r then fold_res (p_assign_reg tmp) [REG_CX, REG_CH, REG_CL] p
         else if REG_EDX = r then fold_res (p_assign_reg tmp) [REG_DX, REG_DH, REG_DL] p
         else Inr p) (p_assign_reg tmp r))
      (and_then (if REG_EAX = r then fold_res (assign_reg tmp) [REG_AX, REG_AH, REG_AL] st
         else if REG_EBX = r then fold_res (assign_reg tmp) [REG_BX, REG_BH, REG_BL] st
         else if REG_ECX = r then fold_res (assign_reg tmp) [REG_CX, REG_CH, REG_CL] st
         else if REG_EDX = r then fold_res (assign_reg tmp) [REG_DX, REG_DH, REG_DL] st
         else Inr st) (assign_reg tmp r))" for tmp
    using loop assms(1) by (intro same_outcome_then assign_agrees(1)) (simp_all del: fold_res.simps)
  then show ?thesis
    using assms unfolding p_SetTaintForRegister_def SetTaintForRegister_def agrees_sets [OF assms(1)]
    by (auto simp del: fold_res.simps intro!: same_outcome_value)
qed

lemma clears_agree:
  assumes "agrees p st"
  shows "same_outcome (p_ClearTaintForRegister r p) (ClearTaintForRegister r st)"
    and "same_outcome (p_ClearTaintForMemory start sz p) (ClearTaintForMemory start sz st)"
proof -
  have m: "p_regTaintMap p = regTaintMap st" using assms by (simp add: agrees_def)
  show "same_outcome (p_ClearTaintForRegister r p) (ClearTaintForRegister r st)"
    unfolding p_ClearTaintForRegister_def ClearTaintForRegister_def agrees_sets [OF assms] m
    using assms by (auto simp: agrees_def split: option.split intro!: same_outcome_value)
  show "same_outcome (p_ClearTaintForMemory start sz p) (ClearTaintForMemory start sz st)"
    unfolding p_ClearTaintForMemory_def ClearTaintForMemory_def agrees_sets [OF assms]
    by (rule same_outcome_value) (rule same_outcome_fold [OF assign_agrees(3) assms])
qed

lemma loads_agree:
  assumes "agrees p st"
  shows "p_TaintForRegister r s p = TaintForRegister r s st"
    and "p_TaintForMemory start sz REG_INVALID REG_INVALID s p = TaintForMemory start sz b i s st"
proof -
  have m: "p_regTaintMap p = regTaintMap st" "p_memTaintMap p = memTaintMap st"
    using assms by (simp_all add: agrees_def)
  have "implicit_flow REG_INVALID p = Inr" by (auto simp: implicit_flow_def)
  then show "p_TaintForRegister r s p = TaintForRegister r s st"
    "p_TaintForMemory start sz REG_INVALID REG_INVALID s p = TaintForMemory start sz b i s st"
    by (simp_all add: p_TaintForRegister_def TaintForRegister_def p_TaintForMemory_def
        TaintForMemory_def m and_then_Inr_right)
qed

lemma SetTaintForMemory_agrees:
  assumes "agrees p st" "SetTaintForMemory start sz args st = Inr st'"
  shows "\<exists>p'. p_SetTaintForMemory start sz args p = Inr p' \<and> agrees p' st'"
proof -
  obtain t c tmp tags where parts: "union_args args st = Inr t" "control_taint st = Inr c"
    "bitset_union t c = Inr tmp"
    "fold_res (assign_byte tmp) (addr_range start sz) ((init_tags st)\<lparr>tagMemoryMap := tags\<rparr>) = Inr st'"
    using assms(2) by (auto simp: SetTaintForMemory_def Let_def and_then_Inr_iff)
  have a: "agrees p ((init_tags st)\<lparr>tagMemoryMap := tags\<rparr>)"
    using assms(1) by (simp add: agrees_def init_tags_def)
  have "same_outcome (fold_res (p_assign_byte tmp) (addr_range start sz) p) (Inr st')"
    unfolding parts(4) [symmetric] by (rule same_outcome_fold [OF assign_agrees(2) a])
  then show ?thesis using parts(1-3)
    by (cases "fold_res (p_assign_byte tmp) (addr_range start sz) p")
      (auto simp: p_SetTaintForMemory_def agrees_sets [OF assms(1), symmetric])
qed

lemma PopControl_agrees: "agrees p st \<Longrightarrow> agrees (p_PopControl addrs p) (PopControl addrs st)"
proof (induction addrs arbitrary: p st)
  case (Cons a addrs)
  then show ?case
    using Cons.IH [of "p\<lparr>p_controlTaintMap := smap_erase a (p_controlTaintMap p)\<rparr>"
        "st\<lparr>controlTaintMap := smap_erase a (controlTaintMap st)\<rparr>"]
    by (auto simp: agrees_def split: option.split)
qed simp

text \<open>Penumbra reads the 32-bit flags at a branch, Dytan the 64-bit ones.\<close>

lemma PushControl_agrees:
  assumes "agrees p st" "regTaintMap st REG_EFLAGS = regTaintMap st REG_RFLAGS"
  shows "same_outcome (p_PushControl a p) (PushControl a st)"
proof -
  have m: "p_regTaintMap p REG_EFLAGS = regTaintMap st REG_RFLAGS" "p_controlTaintMap p = controlTaintMap st"
    using assms by (simp_all add: agrees_def)
  have upd: "agrees (p\<lparr>p_controlTaintMap := cm\<rparr>) (st\<lparr>controlTaintMap := cm\<rparr>)" for cm
    using assms(1) by (simp add: agrees_def)
  show ?thesis
    unfolding p_PushControl_def PushControl_def m agrees_sets(1) [OF assms(1)]
    using assms(1) upd by (auto simp: Let_def split: option.split intro!: same_outcome_value)
qed

text \<open>
  C39: on the same maps the routines of Penumbra and of Dytan do the same, up to the histories
  that Penumbra does not keep, the parts of R15D that it does not know, the registers of an
  address, and the name of the flags register that it reads at a branch.
\<close>

theorem penumbra_engine_agrees:
  assumes "agrees p st"
  shows "p_TaintForRegister r s p = TaintForRegister r s st \<and>
    p_TaintForMemory start sz REG_INVALID REG_INVALID s p = TaintForMemory start sz b i s st \<and>
    (r \<noteq> REG_R15D \<longrightarrow> same_outcome (p_SetTaintForRegister r args p) (SetTaintForRegister r args st)) \<and>
    same_outcome (p_ClearTaintForRegister r p) (ClearTaintForRegister r st) \<and>
    same_outcome (p_ClearTaintForMemory start sz p) (ClearTaintForMemory start sz st) \<and>
    (\<forall>st'. SetTaintForMemory start sz args st = Inr st' \<longrightarrow>
       (\<exists>p'. p_SetTaintForMemory start sz args p = Inr p' \<and> agrees p' st')) \<and>
    (regTaintMap st REG_EFLAGS = regTaintMap st REG_RFLAGS \<longrightarrow>
       same_outcome (p_PushControl a p) (PushControl a st)) \<and>
    agrees (p_PopControl addrs p) (PopControl addrs st)"
  using loads_agree [OF assms] SetTaintForRegister_agrees [OF assms] clears_agree [OF assms]
    SetTaintForMemory_agrees [OF assms] PushControl_agrees [OF assms] PopControl_agrees [OF assms]
  by blast

lemma init_agrees: "agrees p_init (init_state 4096 g)"
  by (simp add: agrees_def p_init_def init_state_def)

theorem penumbra_engine_agrees_witness:
  "same_outcome (p_SetTaintForRegister REG_EAX [] p_init) (SetTaintForRegister REG_EAX [] (init_state 4096 None))"
  using penumbra_engine_agrees [OF init_agrees, of REG_EAX] by simp

section \<open>Address registers\<close>

lemma implicit_flow_ok:
  assumes "agrees p st" "state_ok st" "wf_set (n_marks st) s"
  shows "\<exists>t. implicit_flow r p s = Inr t \<and> wf_set (n_marks st) t \<and>
    marks t = marks s \<union> (if r = REG_INVALID then {} else marks_of (regs (abs_state st) r))"
proof (cases "r = REG_INVALID \<or> regTaintMap st r = None")
  case True
  then show ?thesis using assms by (auto simp: implicit_flow_def agrees_def)
next
  case False
  then obtain b where "regTaintMap st r = Some b" by blast
  then show ?thesis
    using wf_set_union [OF assms(3) state_okD(3) [OF assms(2)]] assms(1) False
    by (auto simp: implicit_flow_def agrees_def)
qed

text \<open>
  A load of Penumbra takes the marks of the bytes read and those of the base and index
  registers of the address, where Dytan takes the marks of the bytes only.
\<close>

theorem penumbra_load_takes_address_marks:
  assumes "agrees p st" "state_ok st" "wf_set (n_marks st) s"
  shows "\<exists>t. p_TaintForMemory start sz b i s p = Inr t \<and> wf_set (n_marks st) t \<and>
    marks t = mem_marks (abs_state st) start sz \<union>
      (if b = REG_INVALID then {} else marks_of (regs (abs_state st) b)) \<union>
      (if i = REG_INVALID then {} else marks_of (regs (abs_state st) i))"
proof -
  obtain t0 where t0: "p_TaintForMemory start sz REG_INVALID REG_INVALID s p = Inr t0" "wf_set (n_marks st) t0"
    "marks t0 = mem_marks (abs_state st) start sz"
    using TaintForMemory_ok [OF assms(2,3)] loads_agree(2) [OF assms(1)] by metis
  obtain t1 where t1: "implicit_flow b p t0 = Inr t1" "wf_set (n_marks st) t1"
    "marks t1 = marks t0 \<union> (if b = REG_INVALID then {} else marks_of (regs (abs_state st) b))"
    using implicit_flow_ok [OF assms(1,2) t0(2)] by blast
  obtain t2 where t2: "implicit_flow i p t1 = Inr t2" "wf_set (n_marks st) t2"
    "marks t2 = marks t1 \<union> (if i = REG_INVALID then {} else marks_of (regs (abs_state st) i))"
    using implicit_flow_ok [OF assms(1,2) t1(2)] by blast
  have "implicit_flow REG_INVALID p = Inr" by (auto simp: implicit_flow_def)
  then have "p_TaintForMemory start sz b i s p = Inr t2"
    using t0(1) t1(1) t2(1) by (auto simp: p_TaintForMemory_def and_then_Inr_iff and_then_Inr_right)
  then show ?thesis using t0(3) t1(3) t2(2,3) by simp
qed

theorem penumbra_load_takes_address_marks_witness:
  "\<exists>t. p_TaintForMemory 4096 4 REG_EAX REG_INVALID p_fresh_set
      (p_init\<lparr>p_regTaintMap := [REG_EAX \<mapsto> p_fresh_set]\<rparr>) = Inr t \<and> marks t = {}"
proof -
  let ?st = "(init_state 4096 None)\<lparr>regTaintMap := [REG_EAX \<mapsto> p_fresh_set]\<rparr>"
  have ok: "state_ok (init_state 4096 None)" by (rule state_ok_init) simp_all
  have f: "fresh_set (init_state 4096 None) = p_fresh_set" by (rule agrees_sets(1) [OF init_agrees])
  have w: "wf_set (n_marks (init_state 4096 None)) p_fresh_set" "marks p_fresh_set = {}"
    using fresh_set_ok [OF ok] by (simp_all add: f)
  have "regTaintMap (init_state 4096 None) = Map.empty" by (simp add: init_state_def)
  then have ok': "state_ok ?st" using state_ok_reg [OF ok w(1), of REG_EAX] by simp
  have a: "agrees (p_init\<lparr>p_regTaintMap := [REG_EAX \<mapsto> p_fresh_set]\<rparr>) ?st"
    by (simp add: agrees_def p_init_def init_state_def)
  have n: "n_marks ?st = n_marks (init_state 4096 None)" by simp
  have m: "mem_marks (abs_state ?st) 4096 4 = {}" by (simp add: mem_marks_def init_state_def)
  from penumbra_load_takes_address_marks [OF a ok' w(1) [folded n], of 4096 4 REG_EAX REG_INVALID] m w(2)
  show ?thesis by auto
qed

section \<open>The two tables\<close>

text \<open>Every class of Penumbra's table but the conditional moves has the same handler in Dytan's.\<close>

definition cmov_classes :: "string list" where
  "cmov_classes = [''CMOVB'', ''CMOVNB'', ''CMOVZ'', ''CMOVNZ'', ''CMOVBE'', ''CMOVNBE'', ''CMOVS'',
     ''CMOVNS'', ''CMOVL'', ''CMOVNL'', ''CMOVLE'', ''CMOVNLE'']"

lemma p_table_1_in_table: "set p_instrument_table_1 \<subseteq> set (instrument_table_1 @ instrument_table_2)"
  by (simp add: instrument_table_1_def instrument_table_2_def p_instrument_table_1_def)

lemma p_table_2_in_table:
  "set (filter (\<lambda>(k, h). k \<notin> set (''JrCXZ'' # cmov_classes)) p_instrument_table_2) \<subseteq>
    set (instrument_table_1 @ instrument_table_2)"
  by (simp add: instrument_table_1_def instrument_table_2_def p_instrument_table_2_def cmov_classes_def)

lemma p_table_keys_distinct: "distinct (map fst (p_instrument_table_1 @ p_instrument_table_2))"
  by (simp add: p_instrument_table_1_def p_instrument_table_2_def)

lemma p_table_cmov: "(\<lambda>k. (k, Instrument_CMOVcc)) ` set cmov_classes \<subseteq> set p_instrument_table_2"
  by (simp add: p_instrument_table_2_def cmov_classes_def)

lemma p_table_extra:
  "(''JrCXZ'', Instrument_Jcc) \<in> set p_instrument_table_2"
  "''JrCXZ'' \<notin> fst ` set (instrument_table_1 @ instrument_table_2)"
  "fst ` set p_instrument_table_1 \<inter> set (''JrCXZ'' # cmov_classes) = {}"
  by (simp_all add: p_instrument_table_1_def p_instrument_table_2_def instrument_table_1_def
      instrument_table_2_def cmov_classes_def)

text \<open>
  Instrumenting with Penumbra's table is instrumenting with Dytan's, except that a
  conditional move is handled, and that the classes which only Dytan lists are skipped.
\<close>

theorem penumbra_dataflow_agrees:
  "p_Dataflow ins =
     (if INS_Opcode ins \<in> set cmov_classes then Instrument_CMOVcc ins
      else if INS_Opcode ins \<in> fst ` set (p_instrument_table_1 @ p_instrument_table_2)
      then Dataflow ins else Inr [])"
proof -
  let ?k = "INS_Opcode ins" and ?p = "p_instrument_table_1 @ p_instrument_table_2"
  have val: "p_instrument_functions ?k = h" if "(?k, h) \<in> set ?p" for h
    unfolding p_instrument_functions_def by (rule assigned_value [OF p_table_keys_distinct that])
  consider (cmov) "?k \<in> set cmov_classes" | (jcc) "?k = ''JrCXZ''" "?k \<notin> set cmov_classes"
    | (listed) h where "(?k, h) \<in> set ?p" "?k \<notin> set (''JrCXZ'' # cmov_classes)"
    | (unlisted) "?k \<notin> fst ` set ?p" "?k \<notin> set cmov_classes"
    by force
  then show ?thesis
  proof cases
    case cmov
    then have "(?k, Instrument_CMOVcc) \<in> set ?p" using p_table_cmov by auto
    then show ?thesis using cmov val by (simp add: p_Dataflow_def)
  next
    case jcc
    then have l: "(?k, Instrument_Jcc) \<in> set ?p" "?k \<notin> fst ` set (instrument_table_1 @ instrument_table_2)"
      using p_table_extra(1,2) by simp_all
    have "instrument_functions ?k = UnimplementedInstruction"
      unfolding instrument_functions_def by (rule unassigned_value [OF l(2)])
    then show ?thesis using jcc(2) val [OF l(1)] l(1)
      by (simp add: p_Dataflow_def Dataflow_def Instrument_Jcc_def UnimplementedInstruction_def)
  next
    case listed
    have "(?k, h) \<in> set (instrument_table_1 @ instrument_table_2)"
      using listed p_table_1_in_table p_table_2_in_table by fastforce
    then have "instrument_functions ?k = h"
      unfolding instrument_functions_def by (rule assigned_value [OF table_keys_distinct])
    then show ?thesis using listed val [OF listed(1)] by (force simp: p_Dataflow_def Dataflow_def)
  next
    case unlisted
    have "p_instrument_functions ?k = UnimplementedInstruction"
      unfolding p_instrument_functions_def by (rule unassigned_value [OF unlisted(1)])
    then show ?thesis using unlisted by (simp add: p_Dataflow_def UnimplementedInstruction_def)
  qed
qed

section \<open>Branches of Penumbra and of Dytan\<close>

text \<open>
  Penumbra inserts the calls that Dytan inserts when every conditional branch of the
  routine has a post-dominator; at the first one without, it uses a null pointer, which
  Dytan skips.
\<close>

theorem penumbra_controlflow_agrees:
  "p_Controlflow g False xs =
     (if \<forall>i \<in> set xs. INS_IsCondBranch i \<longrightarrow> meeting_point g i \<noteq> None
      then Inr (map (\<lambda>i. (i, control_calls g xs i)) xs) else Inl Null_Dereference)"
proof -
  let ?ok = "\<lambda>xs. \<forall>i \<in> set xs. INS_IsCondBranch i \<longrightarrow> meeting_point g i \<noteq> None"
  let ?body = "\<lambda>ins c. if INS_IsCondBranch ins
      then and_then (p_meeting_point g ins) (\<lambda>a. Inr (c(a := insort_insert (INS_Address ins) (c a)))) else Inr c"
  let ?step = "\<lambda>ins c. case meeting_point g ins of None \<Rightarrow> c
      | Some a \<Rightarrow> c(a := insort_insert (INS_Address ins) (c a))"
  have step: "?body i c = (if INS_IsCondBranch i \<longrightarrow> meeting_point g i \<noteq> None then Inr (?step i c)
      else Inl Null_Dereference)" for i c
    by (auto simp: p_meeting_point_def meeting_point_def split: option.splits)
  have loop: "fold_res ?body ys c = (if ?ok ys then Inr (fold ?step ys c) else Inl Null_Dereference)" for ys c
  proof (induction ys arbitrary: c)
    case (Cons y ys)
    have unfolded: "fold_res ?body (y # ys) c = and_then (?body y c) (fold_res ?body ys)" by (rule fold_res.simps)
    show ?case
    proof (cases "INS_IsCondBranch y \<longrightarrow> meeting_point g y \<noteq> None")
      case True
      then have "?body y c = Inr (?step y c)" using step [of y c] by (simp only: if_P)
      then have "fold_res ?body (y # ys) c = fold_res ?body ys (?step y c)"
        unfolding unfolded by (simp only: and_then.simps)
      also have "\<dots> = (if ?ok ys then Inr (fold ?step ys (?step y c)) else Inl Null_Dereference)" by (rule Cons.IH)
      finally show ?thesis using True by simp
    next
      case False
      then have "?body y c = Inl Null_Dereference" using step [of y c] by (simp only: if_False)
      then have "fold_res ?body (y # ys) c = Inl Null_Dereference"
        unfolding unfolded by (simp only: and_then.simps)
      then show ?thesis using False by simp
    qed
  qed simp
  have calls: "(if INS_IsCondBranch i then [Call_PushControl (INS_Address i)] else []) @
      (case controls g xs (INS_Address i) of [] \<Rightarrow> [] | bs \<Rightarrow> [Call_PopControl bs]) = control_calls g xs i"
    if "?ok xs" "i \<in> set xs" for i
    using that by (auto simp: control_calls_def meeting_point_def split: option.splits)
  show ?thesis
  proof (cases "?ok xs")
    case True
    then have "p_controls g xs = Inr (controls g xs)" by (simp add: p_controls_def controls_def loop)
    then show ?thesis using True calls by (simp add: p_Controlflow_def)
  next
    case False
    then have "p_controls g xs = Inl Null_Dereference" unfolding p_controls_def loop by simp
    then show ?thesis using False by (simp add: p_Controlflow_def)
  qed
qed

section \<open>Marks of the arguments\<close>

lemma mark_bytes_outcome:
  assumes "0 \<le> currentTaintMark p" "currentTaintMark p \<le> 4096"
  shows "if currentTaintMark p < 4096
    then \<exists>p'. mark_bytes xs p = Inr p' \<and> currentTaintMark p' = currentTaintMark p + 1
    else mark_bytes xs p = Inl Assertion_Failed"
proof (cases "currentTaintMark p < 4096")
  case True
  have ok: "state_ok (init_state 4096 None)" "NUMBER_OF_TAINT_MARKS (init_state 4096 None) = 4096"
    by (rule state_ok_init) (simp_all add: init_state_def)
  obtain tmp where tmp: "bitset_set_bit p_fresh_set (word_of_int (currentTaintMark p)) = Inr tmp"
    "wf_set (n_marks (init_state 4096 None)) tmp"
    using fresh_mark_ok [OF ok(1), of "currentTaintMark p"] assms(1) True ok(2) agrees_sets(1) [OF init_agrees]
    by auto
  have "\<exists>q. fold_res (\<lambda>addr p. and_then (bitset_copy tmp) (\<lambda>s.
      Inr (p\<lparr>p_memTaintMap := (p_memTaintMap p)(addr \<mapsto> s)\<rparr>))) xs p = Inr q \<and>
      currentTaintMark q = currentTaintMark p"
    by (rule fold_res_invariant) (simp_all add: wf_set_copy [OF tmp(2)])
  then show ?thesis using True tmp(1) assms(1) by (auto simp: mark_bytes_def int_add_def INT_MAX_def)
next
  case False
  then have "currentTaintMark p = 4096" using assms by simp
  moreover have "\<not> (4096 :: size_t) < nbits p_fresh_set"
    by (simp add: p_fresh_set_def p_NUMBER_OF_TAINT_MARKS_def bitset_init_def)
  ultimately show ?thesis using False by (simp add: mark_bytes_def bit_op_out_of_range)
qed

lemma mark_arguments_outcome:
  assumes "0 \<le> currentTaintMark p" "currentTaintMark p \<le> 4096"
  shows "if currentTaintMark p + int (length xs) \<le> 4096
    then \<exists>p'. fold_res (\<lambda>x. mark_bytes (f x)) xs p = Inr p' \<and>
      currentTaintMark p' = currentTaintMark p + int (length xs)
    else fold_res (\<lambda>x. mark_bytes (f x)) xs p = Inl Assertion_Failed"
  using assms
proof (induction xs arbitrary: p)
  case (Cons x xs)
  show ?case
  proof (cases "currentTaintMark p < 4096")
    case True
    then obtain p1 where p1: "mark_bytes (f x) p = Inr p1" "currentTaintMark p1 = currentTaintMark p + 1"
      using mark_bytes_outcome [OF Cons.prems, of "f x"] by auto
    have "0 \<le> currentTaintMark p1" "currentTaintMark p1 \<le> 4096" using p1(2) True Cons.prems by simp_all
    note rest = Cons.IH [OF this]
    have count: "currentTaintMark p1 + int (length xs) = currentTaintMark p + int (length (x # xs))"
      using p1(2) by simp
    show ?thesis using rest unfolding count by (simp only: fold_res.simps p1(1) and_then.simps)
  next
    case False
    then show ?thesis using mark_bytes_outcome [OF Cons.prems, of "f x"] by simp
  qed
qed simp

text \<open>
  The counter of Penumbra does not wrap around, as its comment says it does: with 4096 or
  more values to mark, counted from the marks already given, the tool stops on an assertion;
  with fewer, every value gets a mark of its own.
\<close>

theorem penumbra_marks_do_not_wrap:
  assumes "0 \<le> currentTaintMark p" "currentTaintMark p \<le> 4096" "0 \<le> argc"
  shows "if currentTaintMark p + argc < 4096
    then \<exists>p'. TaintMainArgs ptr_size argcAddr argc argv pointer str_len p = Inr p' \<and>
      currentTaintMark p' = currentTaintMark p + 1 + argc
    else TaintMainArgs ptr_size argcAddr argc argv pointer str_len p = Inl Assertion_Failed"
proof (cases "currentTaintMark p < 4096")
  case True
  then obtain p1 where p1: "mark_bytes (addr_loop argcAddr (argcAddr + 4)) p = Inr p1"
    "currentTaintMark p1 = currentTaintMark p + 1"
    using mark_bytes_outcome [OF assms(1,2)] by force
  have "0 \<le> currentTaintMark p1" "currentTaintMark p1 \<le> 4096" using p1(2) True assms(1) by simp_all
  note args = mark_arguments_outcome [OF this, of "[0..<nat argc]"
      "\<lambda>i. addr_loop (argv + of_nat (ptr_size * i)) (pointer i + str_len i + 1)"]
  show ?thesis
  proof (cases "currentTaintMark p + argc < 4096")
    case True
    then have "currentTaintMark p1 + int (length [0..<nat argc]) \<le> 4096" using p1(2) assms(3) by simp
    then show ?thesis using args p1 assms(3) True by (simp add: TaintMainArgs_def)
  next
    case False
    then have "\<not> currentTaintMark p1 + int (length [0..<nat argc]) \<le> 4096" using p1(2) assms(3) by simp
    then show ?thesis using args p1 False by (simp add: TaintMainArgs_def)
  qed
next
  case False
  then show ?thesis
    using mark_bytes_outcome [OF assms(1,2), of "addr_loop argcAddr (argcAddr + 4)"] assms(3)
    by (simp add: TaintMainArgs_def)
qed

theorem penumbra_marks_do_not_wrap_witness:
  "TaintMainArgs 8 4096 4096 8192 (\<lambda>_. 0) (\<lambda>_. 0) p_init = Inl Assertion_Failed"
  using penumbra_marks_do_not_wrap [of p_init 4096 8 4096 8192 "\<lambda>_. 0" "\<lambda>_. 0"] by (simp add: p_init_def)

end
