(* ===== verification/Penumbra_Start.thy ===== *)
theory Penumbra_Start
  imports Penumbra Syscall_Functions
begin

text \<open>
  The system calls of Penumbra: the end of \<open>main\<close> of \<open>src/penumbra.cpp\<close>, which registers the
  callbacks of \<open>src/syscall_functions.cpp\<close>. The numbers of the calls are those of the system's
  header, a parameter here, because the names are those of 32-bit Linux; the callbacks are modelled
  with the sizes of the 64-bit build.
\<close>

section \<open>Registration\<close>

definition p_observers ::
  "(string \<Rightarrow> int) \<Rightarrow> (addrint \<Rightarrow> string) \<Rightarrow> (int \<times> tool syscall_callback) list" where
  "p_observers SYS cstring =
     [(SYS ''access'', Handle_ACCESS), (SYS ''alarm'', Handle_ALARM), (SYS ''brk'', Handle_BRK),
      (SYS ''chmod'', Handle_CHMOD), (SYS ''close'', Handle_CLOSE), (SYS ''dup'', Handle_DUP),
      (SYS ''fcntl64'', Handle_FSTAT64), (SYS ''flock'', Handle_FLOCK),
      (SYS ''fstat64'', Handle_FSTAT64), (SYS ''fsync'', Handle_FSYNC),
      (SYS ''ftruncate'', Handle_FTRUNCATE), (SYS ''getdents64'', Handle_GETDENTS64),
      (SYS ''getpid'', Handle_GETPID), (SYS ''gettimeofday'', Handle_GETTIMEOFDAY),
      (SYS ''getuid32'', Handle_GETUID32), (SYS ''ioctl'', Handle_IOCTL),
      (SYS ''link'', Handle_LINK), (SYS ''_llseek'', Handle_LLSEEK),
      (SYS ''lseek'', Handle_LSTAT64), (SYS ''lstat64'', Handle_LSTAT64),
      (SYS ''mmap'', Handle_MMAP), (SYS ''mmap2'', Handle_MMAP2), (SYS ''munmap'', Handle_MUNMAP),
      (SYS ''open'', Handle_OPEN cstring), (SYS ''read'', Handle_READ),
      (SYS ''readlink'', Handle_READLINK), (SYS ''rename'', Handle_RENAME),
      (SYS ''rt_sigaction'', Handle_RT_SIGACTION),
      (SYS ''rt_sigprocmask'', Handle_RT_SIGPROCMASK),
      (SYS ''set_thread_area'', Handle_SET_THREAD_AREA), (SYS ''stat64'', Handle_STAT64),
      (SYS ''socketcall'', Handle_SOCKETCALL), (SYS ''time'', Handle_TIME),
      (SYS ''uname'', Handle_UNAME), (SYS ''unlink'', Handle_UNLINK),
      (SYS ''utime'', Handle_UTIME), (SYS ''write'', Handle_WRITE),
      (SYS ''writev'', Handle_WRITEV)]"

definition p_monitor :: "(string \<Rightarrow> int) \<Rightarrow> (addrint \<Rightarrow> string) \<Rightarrow> tool syscall_monitor" where
  "p_monitor SYS cstring =
     fold (\<lambda>(n, cb) m. addObserver n cb m) (p_observers SYS cstring)
       (setDefaultObserver UnimplementedSystemCall new_SyscallMonitor)"

section \<open>What a call runs\<close>

lemma filter_key:
  assumes "distinct (map fst kcs)" "(k, c) \<in> set kcs"
  shows "map snd (filter (\<lambda>p. fst p = k) kcs) = [c]"
  using assms by (induction kcs) (force simp: filter_empty_conv)+

lemma fold_addObserver:
  "observers (fold (\<lambda>(n, cb) m. addObserver n cb m) kcs m) =
     fold (\<lambda>(n, cb). add_callback n cb) kcs (observers m)"
  "defaultObserver (fold (\<lambda>(n, cb) m. addObserver n cb m) kcs m) = defaultObserver m"
  by (induction kcs arbitrary: m) (auto simp: addObserver_def)

lemma p_callbacks:
  "callbacks (observers (p_monitor SYS cstring)) n =
     map snd (filter (\<lambda>p. fst p = n) (p_observers SYS cstring))"
proof -
  have "callbacks (observers new_SyscallMonitor) n = []"
    by (simp add: new_SyscallMonitor_def callbacks_def)
  then show ?thesis
    unfolding p_monitor_def fold_addObserver
    using registry.registered_all [of "p_observers SYS cstring" "observers new_SyscallMonitor" n]
    by (simp add: setDefaultObserver_def)
qed

text \<open>
  A seek runs the callback of \<open>lstat64\<close>, which takes the offset of the seek for the address of a
  buffer: the marks of the bytes at that address are forgotten. Dytan registers the callback that
  does nothing.
\<close>

theorem penumbra_seek_forgets:
  assumes "distinct (map fst (p_observers SYS cstring))"
    and "PIN_GetSyscallNumber c = SYS ''lseek''" "0 \<le> SYS ''lseek''" "SYS ''lseek'' < 2 ^ 31"
  shows "\<exists>m'. SysAfter tid d (SysBefore tid c (p_monitor SYS cstring), s) = Inr (m',
    with_engine (forget (buffer (PIN_GetSyscallArgument c 1) sizeof_stat64)) s)"
proof -
  let ?n = "SYS ''lseek''"
  have "(?n, Handle_LSTAT64) \<in> set (p_observers SYS cstring)" by (simp add: p_observers_def)
  from filter_key [OF assms(1) this] have "callbacks (observers (p_monitor SYS cstring)) ?n = [Handle_LSTAT64]"
    by (simp add: p_callbacks)
  then have "observers (p_monitor SYS cstring) ?n = Some [Handle_LSTAT64]"
    by (simp add: callbacks_def split: option.splits)
  moreover have "c_int (word_of_int ?n :: addrint) = ?n" using assms(3,4) by (intro c_int_of_int) simp_all
  ultimately show ?thesis
    by (simp add: SysAfter_def SysBefore_def endSyscall_def beginSyscall_def pending_def Let_def assms(2)
        Handle_LSTAT64_def remove_taint_forget)
qed

definition ia32_calls :: "(string \<times> int) list" where
  "ia32_calls =
     [(''access'', 33), (''alarm'', 27), (''brk'', 45), (''chmod'', 15), (''close'', 6),
      (''dup'', 41), (''fcntl64'', 221), (''flock'', 143), (''fstat64'', 197), (''fsync'', 118),
      (''ftruncate'', 93), (''getdents64'', 220), (''getpid'', 20), (''gettimeofday'', 78),
      (''getuid32'', 199), (''ioctl'', 54), (''link'', 9), (''_llseek'', 140), (''lseek'', 19),
      (''lstat64'', 196), (''mmap'', 90), (''mmap2'', 192), (''munmap'', 91), (''open'', 5),
      (''read'', 3), (''readlink'', 85), (''rename'', 38), (''rt_sigaction'', 174),
      (''rt_sigprocmask'', 175), (''set_thread_area'', 243), (''stat64'', 195),
      (''socketcall'', 102), (''time'', 13), (''uname'', 122), (''unlink'', 10), (''utime'', 30),
      (''write'', 4), (''writev'', 146)]"

theorem penumbra_seek_forgets_witness:
  "let c = \<lparr>PIN_GetSyscallNumber = 19, PIN_GetSyscallArgument = (\<lambda>_. 4096), PIN_GetSyscallReturn = 4096,
         PIN_GetSyscallErrno = 0\<rparr>;
       s = \<lparr>source_state = counter_source 8, openFiles = Map.empty, path_monitors = [], network_monitors = []\<rparr> in
   \<exists>m'. SysAfter 0 c (SysBefore 0 c (p_monitor (the \<circ> map_of ia32_calls) (\<lambda>_. [])), s) = Inr (m',
    with_engine (forget (buffer (PIN_GetSyscallArgument c 1) sizeof_stat64)) s)"
  unfolding Let_def
  by (rule penumbra_seek_forgets) (simp_all add: ia32_calls_def p_observers_def)

end
