(* ===== verification/Spec2Isabelle.thy ===== *)
theory Spec2Isabelle
  imports Implicit_Flow Class_Flow Dominator_Tree User_Functions Penumbra_Start
begin

text \<open>
  Dytan is a dynamic taint analysis tool: a Pin tool that runs an application, gives taint marks
  to the bytes that come from configured sources, inserts calls before every instruction that
  move the marks along with the data, adds the marks of a branch's flags to what is written while
  the branch is open, and prints at the end which addresses carry which marks. This development
  models it on its 64-bit Linux build, without the log.

  How the parts interact. \<open>main\<close> (\<open>src/dytan.cpp\<close>) reads \<open>config.xml\<close> with \<open>parseConfig\<close>, builds
  the sources with \<open>set_framework_options\<close>, registers the system-call callbacks, the dispatch
  table and the instrumentation of routines, and starts the application. From then on Pin calls
  \<open>Dataflow\<close> for each instruction and \<open>Controlflow\<close> for each routine; these insert calls of the
  run-time routines, which read and write the maps of the engine. The end of a system call runs
  the callbacks of its number: those of the path monitor mark the bytes that were read from a
  source, those of \<open>main\<close> erase the marks of the bytes that the kernel overwrote.

  Theories, in the order of their imports, with the code that they model.

  \<^item> \<open>Dytan_Prelude\<close>: the errors of the model, sequencing of fallible operations (\<open>and_then\<close>,
    \<open>fold_res\<close>, \<open>bind_opt\<close>), the conversions of C integers and the shapes of the loops.
  \<^item> \<open>Bitset\<close>: \<open>src/bitset.cpp\<close>, sets of marks in 64-bit words; \<open>marks\<close> is the set that a
    bitset stands for and \<open>wf_set\<close> its invariant, and every operation is proved to be the
    operation on sets.
  \<^item> \<open>Taint_Gen\<close>: \<open>src/include/taint_generator.h\<close>; \<open>mark_spec\<close> says which mark comes next, the locale \<open>mark_generator\<close> says that marks
    are legal and that the generator stays usable.
  \<^item> \<open>Std_Map\<close>: \<open>std::map\<close> as an ordered association list; the locale \<open>finite_map\<close> has its laws
    and is interpreted on it and on the maps of HOL.
  \<^item> \<open>Taint_State\<close>, \<open>Mem_List\<close>, \<open>Taint_Engine\<close>, \<open>Control_Flow\<close>: the globals of \<open>src/dytan.cpp\<close> as
    the record \<open>dytan\<close>, and its run-time routines, with the names that the code gives them.
    \<open>abs_state\<close> abstracts the state to functions from registers and addresses to sets of marks;
    the theorems ending in \<open>_refines\<close> say that a routine is the operation on these functions that its
    comment promises. \<open>state_ok\<close> is the invariant of the engine.
  \<^item> \<open>Pin_Ins\<close>, \<open>Handler_Steps\<close>, \<open>Instrument_Arith\<close>, \<open>Instrument_Move\<close>, \<open>Conditional_Move\<close>,
    \<open>Dispatch\<close>, \<open>Class_Flow\<close>: \<open>src/instrument_functions.c\<close> and the dispatch table. An instruction is the record of the
    answers of Pin's inspection functions; a handler yields the list of calls that it inserts;
    \<open>run_calls\<close> executes them. \<open>implements h spec\<close> says that the calls of \<open>h\<close> always succeed and
    change the marks of the application as \<open>spec\<close> does. \<open>taint_rules\<close> says for each class of
    instructions what it should do to the marks; table and handlers together implement it.
  \<^item> \<open>Basic_Block\<close>, \<open>Routine_Graph\<close>, \<open>Post_Dominance\<close>, \<open>Build_Tree\<close>, \<open>Block_Builder\<close>,
    \<open>Control_Graph\<close>, \<open>Dominator_Tree\<close>: \<open>src/include/BasicBlock.H\<close>, \<open>src/include/RoutineGraph.H\<close> and \<open>Controlflow\<close>: the blocks
    of a routine, the tree of post-dominators and the calls at branches and meeting points; the last
    is the tree of dominators, which the source marks as deprecated and never calls. Blocks
    live in a heap indexed by numbers; the order in which \<open>set<void *>\<close> visits them, the order of
    addresses in the process, is a parameter.
  \<^item> \<open>Syscall_Monitor\<close>, \<open>Path_Source\<close>, \<open>Network_Source\<close>, \<open>Syscall_Functions\<close>:
    \<open>src/include/syscall_monitor.H\<close>, \<open>src/monitor_path.cpp\<close> and \<open>src/taint_source_path.cpp\<close>,
    \<open>src/monitor_network.cpp\<close> and \<open>src/taint_source_network.cpp\<close>, \<open>src/syscall_functions.cpp\<close>. The monitor
    is polymorphic in the state of its callbacks; the record \<open>tool\<close> is the state they have here.
    The locale \<open>callback_registry\<close> is the contract of registering and running callbacks.
  \<^item> \<open>C_Strings\<close>, \<open>Config_Parser\<close>, \<open>Framework_Options\<close>: the C library functions that the readers
    use, \<open>src/config_parser.cpp\<close>, and \<open>set_framework_options\<close> and \<open>main\<close> of \<open>src/dytan.cpp\<close>.
  \<^item> \<open>Dump_Taints\<close>, \<open>User_Functions\<close>: \<open>dump_taints\<close>; \<open>src/replace_functions.cpp\<close>,
    \<open>src/taint_func_args.cpp\<close> and \<open>src/taint_source_func.cpp\<close>.
  \<^item> \<open>Tool_Run\<close>, \<open>Tool_Start\<close>: the running tool as a step relation \<open>tool_step\<close> between
    configurations, with an event for an instruction, a branch, a meeting point, a marking call and
    the two ends of a system call, and \<open>tool_run\<close> for sequences of events. Each component's lemma
    that it keeps the invariant becomes a step of the invariant of the whole.
  \<^item> \<open>Implicit_Flow\<close>: the events of a run by what they do to the marks, and the calls that
    \<open>Controlflow\<close> inserts at an instruction as events.
  \<^item> \<open>Penumbra\<close>, \<open>Penumbra_Start\<close>: the sibling tool \<open>src/penumbra.cpp\<close>, whose routines and
    dispatch table are compared with Dytan's, and the registration of its system calls.
  \<^item> This theory: the properties of the whole tool, from the configuration file to the maps.

  What the groups of theorems show. Of the whole tool: every valid configuration starts it,
  every run from a start keeps the state well-formed and can take the next step, nothing is
  tainted without a source, the bytes read from a configured file are tainted and no others (but
  none at all when they are read through a duplicated descriptor), and what the arm of a branch on tainted operands writes is tainted although no data flows. Of the
  engine: refinement of the operations on sets of marks. Of the handlers: their calls never
  make an assertion of the library fail, dispatch table and handlers implement the table of
  taint rules, and the handlers that lose marks are shown as they are. Of control flow: the construction of the graph
  terminates with a well-formed graph and tree, every post-dominator of a block is among its
  ancestors in the tree, the calls are inserted exactly where the tree says, and in a run they
  end the pending branches that meet there. Of system calls, sources and configuration:
  callbacks run in order and by thread, descriptors are followed from open to close, and the
  files of the configuration are read back as they were written, the sinks excepted, which the
  parser drops.

  Bounds and loops. Machine integers have their widths: addresses and sizes are 64-bit words, an
  \<open>int\<close> is an integer with a check of overflow where the code adds to it and \<open>c_int\<close> where it
  converts. Loops that count are recursive functions with their termination proofs.
  \<open>getCommonPostDominator\<close>, \<open>passDownPostDominanceInfo\<close>, \<open>deleteDownPostDominanceInfo\<close>,
  \<open>buildPostDominanceTree\<close>, their counterparts for the dominator tree and the loop with an
  unsigned counter may run for ever and are partial functions without fuel;
  \<open>initializeRoutineInfo_returns\<close>, \<open>buildDominanceTree_depth_one\<close> and the lemmas on the loop
  prove that they return. A taint set has at most 4096 marks, the limit that the tool checks.

  Parameters. What is not in the sources is an argument: Pin's answers about instructions,
  routines and contexts, results of system calls, the strings and words in the memory of the
  application (\<open>cstring\<close>, \<open>deref_ADDRINT\<close>), \<open>rand()\<close>, \<open>inet_addr\<close>, the two functions of libxml
  (\<open>libxml_ok\<close> states what they document), the contents of files, and the order of heap
  addresses. Executions write less than \<open>2 ^ 31\<close> bytes at once (\<open>writes_ok\<close>), because the code
  counts the bytes in an \<open>int\<close>.

  Conventions. An assertion that fails, \<open>abort()\<close>, a null pointer that is used, an access out of
  bounds, the end iterator dereferenced and signed overflow are values of \<open>error\<close>. Allocation
  succeeds. Pointers to bitsets are modelled by their contents, because no bitset is shared: maps
  store copies. The \<open>IMPLICIT\<close> and \<open>TRACE\<close> branches of Dytan are off, as in its build. Locks only
  serialise the entry points and are left out.

  Not modelled. Functions that only print (\<open>VerifyCall\<close>, \<open>Print\<close>, \<open>Routine\<close>, \<open>TracePrint\<close>,
  \<open>TaintFunc\<close>) and what the others log; the code for Windows and for 32-bit words; handlers that are
  commented out; \<open>src/old/penumbra.cpp\<close>, which differs from \<open>src/penumbra.cpp\<close> only in its includes; the
  examples of the Pin kit, which come with Intel's license and are not part of the tool
  (\<open>src/statica.cpp\<close>, \<open>src/strace.cpp\<close>, \<open>src/emudiv.cpp\<close>, \<open>src/buffer_linux.cpp\<close> and their
  like), and the sample applications.
\<close>

section \<open>A sample configuration\<close>

text \<open>One file is a per-read source, with 16 marks.\<close>

definition sample_doc :: xml where
  "sample_doc = Element ''dytan-config'' []
     [Element ''sources'' []
        [Element ''source'' [(''type'', ''path'')]
           [leaf ''file'' ''secret'', leaf ''granularity'' ''PerRead''],
         leaf ''taint-marks'' ''16''],
      Element ''propagation'' [] [leaf ''dataflow'' ''true'']]"

lemma sample_text: "t \<noteq> [] \<Longrightarrow> get_text sample_libxml (leaf n t) = Inr t"
  by (rule get_leaf [OF sample_libxml_ok])

lemma sample_parsed:
  "parseConfig sample_libxml None None (Some (Some sample_doc)) start_parsed = Inr (0,
     \<lparr>conf = \<lparr>sources = [\<lparr>src_type = ''path'', granularity = ''PerRead'', details = [''secret'']\<rparr>],
        num_markings = ''16'', conf_prop = Some \<lparr>dataflow = True, controlflow = False, prop_tracing = False\<rparr>,
        sinks = []\<rparr>, datFile = zero_datfile, rule_images = Map.empty\<rparr>)"
proof -
  have p: "xmlGetProp sample_libxml (Element n as cs) k = map_of as k" for n as cs k
    by (simp add: sample_libxml_def)
  show ?thesis
    by (simp add: parseConfig_def parseRulesFile_def sample_doc_def config_child_def parseSources_def
        sources_child_def source_child_def sample_text p parsePropagation_def propagation_child_def
        start_parsed_def new_config_def)
qed

lemma sample_main:
  "\<exists>t. main cstring rnd inet_addr sample_libxml None None (Some (Some sample_doc)) = Inr t"
proof -
  have "convertTo_int ''16'' = Inr 16" using convertTo_show_int [of 16] by (simp add: show_int_samples)
  then show ?thesis
    by (simp add: main_def sample_parsed set_framework_options_def set_taint_marks_def make_source_def
        taint_granularity_def make_path_source_def new_framework_def)
qed

lemma sample_started:
  assumes "main cstring rnd inet_addr sample_libxml None None (Some (Some sample_doc)) = Inr t"
  shows "engine (source_state (snd (running t))) = init_state 16 (Some (TaintGenerator 1 16))"
proof -
  have "convertTo_int ''16'' = Inr 16" using convertTo_show_int [of 16] by (simp add: show_int_samples)
  then show ?thesis
    using assms by (auto simp: main_def sample_parsed set_framework_options_def set_taint_marks_def
        make_source_def taint_granularity_def make_path_source_def new_framework_def start_tool_def)
qed

section \<open>Every valid configuration starts the tool\<close>

text \<open>
  C5: the tool starts from every valid configuration: any number of sources, each a list of
  files, one network address, or \<open>*\<close>, with no number of marks or one from 1 to 4096.
\<close>

theorem configured_tool_starts:
  assumes "parseConfig lx rules_content offsets doc start_parsed = Inr (0, p)"
    and "\<forall>src \<in> set (sources (conf p)). source_valid src"
    and "markings_valid (num_markings (conf p))" "conf_prop (conf p) \<noteq> None"
  shows "\<exists>t. main cstring rnd inet_addr lx rules_content offsets doc = Inr t"
proof -
  let ?m = "num_markings (conf p)"
  have "\<exists>fw. set_framework_options cstring rnd inet_addr (conf p) new_framework = Inr fw \<and>
      marks_agree ?m fw \<and> fw_marks fw \<le> 4096"
    unfolding set_framework_options_def
  proof (rule fold_res_invariant)
    show "marks_agree ?m new_framework \<and> fw_marks new_framework \<le> 4096"
      by (simp add: marks_agree_def new_framework_def)
    fix src fw
    assume "src \<in> set (sources (conf p))" and fw: "marks_agree ?m fw \<and> fw_marks fw \<le> 4096"
    then have valid: "source_valid src" using assms(2) by blast
    obtain fw1 where fw1: "set_taint_marks ?m fw = Inr fw1" "marks_agree ?m fw1" "fw_marks fw1 \<le> 4096"
      using set_taint_marks_succeeds [OF assms(3)] fw by blast
    obtain fw2 where "make_source cstring rnd inet_addr src fw1 = Inr fw2" "fw_marks fw2 = fw_marks fw1"
      using make_source_succeeds [OF valid] by blast
    then show "\<exists>fw'. and_then (set_taint_marks ?m fw) (make_source cstring rnd inet_addr src) = Inr fw' \<and>
        marks_agree ?m fw' \<and> fw_marks fw' \<le> 4096"
      using fw1 by (simp add: marks_agree_def)
  qed
  then show ?thesis using assms(1,4) by (auto simp: main_def)
qed

theorem configured_tool_starts_witness:
  "\<exists>t. main (\<lambda>_. []) (\<lambda>_. 0) (\<lambda>_. 0) sample_libxml None None (Some (Some sample_doc)) = Inr t"
proof -
  have "markings_valid ''16''" unfolding markings_valid_def
    by (intro disjI2 exI [of _ 16]) (simp add: show_int_samples)
  then show ?thesis by (intro configured_tool_starts [OF sample_parsed]) (simp_all add: source_valid_def)
qed

section \<open>Every run keeps the tool well-formed\<close>

text \<open>
  C1: from every start of the tool that succeeds, whatever the configuration files say, every
  sequence of instructions, branches, meeting points, marking calls and system calls of any
  threads leads to a well-formed state, in which the next instruction that the tool can
  instrument, the next branch, meeting point and system-call entry succeed.
\<close>

theorem reachable_states_ok:
  assumes "\<And>a. 0 \<le> rnd a" "main cstring rnd inet_addr lx rules_content offsets doc = Inr t"
    and "tool_run (running t) es c" "writes_ok x" "Dataflow ins = Inr cs"
  shows "state_ok (engine (source_state (snd c))) \<and> config_ok c \<and>
    (\<exists>c'. tool_step c (Instruction ins x) c') \<and> (\<exists>c'. tool_step c (Branch addr) c') \<and>
    (\<exists>c'. tool_step c (Meet addrs) c') \<and> (\<exists>c'. tool_step c (Enter tid ctxt) c')"
proof -
  have ok: "config_ok c" using tool_run_keeps [OF assms(3)] main_ok [OF assms(1,2)] .
  then have "state_ok (engine (source_state (snd c)))"
    by (cases c) (simp add: config_ok.simps tool_ok_def engine_ok_def)
  with ok config_progress [OF ok] assms(4,5) show ?thesis by blast
qed

theorem reachable_states_ok_witness:
  "\<exists>t c'. main (\<lambda>_. []) (\<lambda>_. 0) (\<lambda>_. 0) sample_libxml None None (Some (Some sample_doc)) = Inr t \<and>
     tool_step (running t)
       (Instruction ((register_ins 32 [REG_EAX, REG_EBX])\<lparr>INS_Opcode := ''NOP''\<rparr>) (at_address 0)) c'"
proof -
  let ?i = "(register_ins 32 [REG_EAX, REG_EBX])\<lparr>INS_Opcode := ''NOP''\<rparr>"
  have "instrument_functions ''NOP'' = Instrument_NOP"
    by (simp add: instrument_functions_def instrument_table_1_def instrument_table_2_def)
  then have d: "Dataflow ?i = Inr []" by (simp add: Dataflow_def Instrument_NOP_def)
  obtain t where "main (\<lambda>_. []) (\<lambda>_. 0) (\<lambda>_. 0) sample_libxml None None (Some (Some sample_doc)) = Inr t"
    using sample_main by blast
  with reachable_states_ok [OF _ this run_Nil writes_ok_at_address d] show ?thesis by blast
qed

text \<open>
  C2: without a path source and without marking calls no register, byte, pending branch or
  temporary ever carries a mark, whatever is executed: taint comes from sources only. Network
  sources do not count: on the 64-bit build the calls that make a socket are not observed, so
  no read is taken for one of a configured address.
\<close>

theorem taint_needs_a_source:
  assumes "\<And>a. 0 \<le> rnd a" "parseConfig lx rules_content offsets doc start_parsed = Inr (0, p)"
    and "\<forall>src \<in> set (sources (conf p)). src_type src \<noteq> ''path''"
    and "main cstring rnd inet_addr lx rules_content offsets doc = Inr t"
    and "tool_run (running t) es c" "list_all (\<lambda>e. \<not> is_source e) es"
  shows "tool_marks c = {}"
proof -
  obtain fw where fw: "set_framework_options cstring rnd inet_addr (conf p) new_framework = Inr fw"
    "running t = start_tool cstring fw (datFile p)"
    using assms(2,4) by (auto simp: main_def and_then_Inr_iff split: option.splits)
  have ok: "framework_ok (num_markings (conf p)) fw" "quiet_framework fw"
    using set_framework_options_ok [OF assms(1) fw(1)]
      set_framework_options_quiet [OF assms(1,3) fw(1)] by simp_all
  from run_marks [OF assms(5) _ _ assms(6), of cstring] start_ok [OF ok(1)] start_quiet [OF ok] fw(2)
  show ?thesis by simp
qed

text \<open>A per-byte source for an address, or for all of them.\<close>

definition network_doc :: "string list \<Rightarrow> xml" where
  "network_doc ds = Element ''dytan-config'' []
     [Element ''sources'' []
        [Element ''source'' [(''type'', ''network'')]
           (map (leaf ''host'') ds @ [leaf ''granularity'' ''PerByte'']),
         leaf ''taint-marks'' ''16''],
      Element ''propagation'' [] [leaf ''dataflow'' ''true'']]"

lemma network_parsed:
  "parseConfig sample_libxml None None (Some (Some (network_doc [''127.0.0.1'', ''80'']))) start_parsed = Inr (0,
     \<lparr>conf = \<lparr>sources = [\<lparr>src_type = ''network'', granularity = ''PerByte'', details = [''127.0.0.1'', ''80'']\<rparr>],
        num_markings = ''16'', conf_prop = Some \<lparr>dataflow = True, controlflow = False, prop_tracing = False\<rparr>,
        sinks = []\<rparr>, datFile = zero_datfile, rule_images = Map.empty\<rparr>)"
proof -
  have p: "xmlGetProp sample_libxml (Element n as cs) k = map_of as k" for n as cs k
    by (simp add: sample_libxml_def)
  show ?thesis
    by (simp add: parseConfig_def parseRulesFile_def network_doc_def config_child_def parseSources_def
        sources_child_def source_child_def sample_text p parsePropagation_def propagation_child_def
        start_parsed_def new_config_def)
qed

theorem taint_needs_a_source_witness:
  "\<exists>t. main (\<lambda>_. []) (\<lambda>_. 0) (\<lambda>_. 0) sample_libxml None None
      (Some (Some (network_doc [''127.0.0.1'', ''80'']))) = Inr t \<and> tool_marks (running t) = {}"
proof -
  let ?main = "main (\<lambda>_. []) (\<lambda>_. 0) (\<lambda>_. 0) sample_libxml None None (Some (Some (network_doc [''127.0.0.1'', ''80''])))"
  have "convertTo_int ''16'' = Inr 16" using convertTo_show_int [of 16] by (simp add: show_int_samples)
  then have "\<exists>t. ?main = Inr t"
    by (simp add: main_def network_parsed set_framework_options_def set_taint_marks_def make_source_def
        taint_granularity_def make_network_source_def addNetworkSource_def observeAddress_def net_find_def
        ordered_with_def new_NetworkTaintSource_def registerAddressDefault_def new_NetworkMonitor_def
        new_framework_def)
  then obtain t where t: "?main = Inr t" by blast
  from taint_needs_a_source [OF _ network_parsed _ t run_Nil] t show ?thesis by simp
qed

section \<open>From the configuration to the taint map\<close>

text \<open>One path source of one file: what \<open>set_framework_options\<close> makes of it.\<close>

lemma show_int_not_one: "1 < n \<Longrightarrow> n < 2 ^ 31 \<Longrightarrow> show_int n \<noteq> ''1'' \<and> show_int n \<noteq> []"
proof -
  assume n: "1 < n" "n < 2 ^ 31"
  have "''1'' = show_int 1" by (simp add: show_int_samples)
  then show ?thesis using n atoi_show_int [of n] atoi_show_int [of 1] show_int_token [of n]
    by (auto simp: is_token_def)
qed

lemma one_path_source:
  assumes "sources c = [\<lparr>src_type = ''path'', granularity = ''PerRead'', details = [fname]\<rparr>]"
    and "num_markings c = show_int n" "1 < n" "n \<le> 4096" "fname \<noteq> ''*''"
  shows "set_framework_options cstring rnd inet_addr c new_framework = Inr
    \<lparr>fw_monitor = activate cstring 0 new_SyscallMonitor,
     fw_paths = [addPathSource rnd fname PerRead (new_PathTaintSource False)], fw_networks = [],
     fw_marks = n, fw_gen = Some (TaintGenerator 1 n)\<rparr>"
proof -
  have "convertTo_int (show_int n) = Inr n" using assms(3,4) by (intro convertTo_show_int) simp_all
  moreover have "show_int n \<noteq> ''1''" "show_int n \<noteq> []" using show_int_not_one [of n] assms(3,4) by simp_all
  ultimately show ?thesis
    using assms by (simp add: set_framework_options_def set_taint_marks_def make_source_def
        taint_granularity_def make_path_source_def new_framework_def)
qed

lemma one_source_started:
  assumes "parseConfig lx rules_content offsets doc start_parsed = Inr (0, p)"
    and "sources (conf p) = [\<lparr>src_type = ''path'', granularity = ''PerRead'', details = [fname]\<rparr>]"
    and "num_markings (conf p) = show_int n" "1 < n" "n \<le> 4096" "conf_prop (conf p) \<noteq> None" "fname \<noteq> ''*''"
  obtains t where "main cstring rnd inet_addr lx rules_content offsets doc = Inr t"
    "fst (running t) = register_main_observers cstring (activate cstring 0 new_SyscallMonitor)"
    "path_monitors (snd (running t)) = [addPathSource rnd fname PerRead (new_PathTaintSource False)]"
    "engine (source_state (snd (running t))) = init_state n (Some (TaintGenerator 1 n))"
  using assms(1,6) one_path_source [OF assms(2-5,7), of cstring rnd inet_addr]
  by (auto simp: main_def start_tool_def intro: that)

lemma open_then_read:
  assumes "c_int (ret o_args) \<noteq> -1" "c_int (arg0 r_args) = c_int (ret o_args)"
    and "0 < c_int (ret r_args)" "callbacks (pathObservers pm) (cstring (arg0 o_args)) = [cb]"
    and "path_monitors s = [pm]" "cb (cstring (arg0 o_args)) r_args (source_state s) = Inr src"
  shows "\<exists>s1 s2. fold_res (\<lambda>cb. cb 2 o_args) [path_open cstring 0, Handle_OPEN cstring] s = Inr s1 \<and>
    fold_res (\<lambda>cb. cb 0 r_args) [path_read 0, Handle_READ] s1 = Inr s2 \<and> source_state s2 = src"
proof -
  have "pathObservers pm (cstring (arg0 o_args)) = Some [cb]"
    using assms(4) by (simp add: callbacks_def split: option.splits)
  then show ?thesis
    using assms
    by (simp add: path_open_def Handle_OPEN_def openCallback_def addActiveFileDescriptor_def
        path_read_def readCallback_def notifyForRead_def Handle_READ_def)
qed

lemma one_source_observer:
  "callbacks (pathObservers (addPathSource rnd fname PerRead (new_PathTaintSource False))) fname =
     [pathSourceReadCallbackPerRead rnd]"
  by (simp add: addPathSource_def observePath_def new_PathTaintSource_def registerDefault_def
      new_PathMonitor_def callbacks_def add_callback_def)

text \<open>The first read of a per-read source draws mark 2 of \<open>n\<close>, the counter being at 1.\<close>

lemma first_read_marks:
  assumes "engine src = init_state n (Some (TaintGenerator 1 n))" "1 < n" "n \<le> 4096"
    and "0 < c_int (ret r)"
  shows "\<exists>st'. pathSourceReadCallbackPerRead rnd fname r src = Inr (src\<lparr>engine := st'\<rparr>) \<and>
    abs_state st' = taint_range (arg1 r) (word_of_int (c_int (ret r))) (nat (2 mod n))
      (abs_state (init_state n None))"
proof -
  have gen: "taintGen (engine src) = Some (TaintGenerator 1 n)"
    "NUMBER_OF_TAINT_MARKS (engine src) = n" "state_ok (engine src)"
    using assms(2,3) by (simp_all add: assms(1) state_ok_init) (simp_all add: init_state_def)
  have abs: "abs_state (engine src) = abs_state (init_state n None)"
    by (simp add: assms(1)) (simp add: init_state_def abs_state_def)
  have tag: "next_tag r (engine src) =
      Inr (2 mod n, (engine src)\<lparr>taintGen := Some (TaintGenerator 2 n)\<rparr>)" for r
    using next_counter [of 1 n r] assms(2) gen(1) by (simp add: next_tag_def INT_MAX_def)
  show ?thesis using PerRead_ok [OF gen(3) _ _ tag, of r rnd fname] assms(2,4) gen abs by auto
qed

definition sample_call :: "int \<Rightarrow> addrint \<Rightarrow> addrint \<Rightarrow> addrint \<Rightarrow> syscall_context" where
  "sample_call n a0 a1 r =
     \<lparr>PIN_GetSyscallNumber = n, PIN_GetSyscallArgument = (\<lambda>i. if i = 0 then a0 else a1),
      PIN_GetSyscallReturn = r, PIN_GetSyscallErrno = 0\<rparr>"

text \<open>
  C3: when the configuration names a file as a per-read source and the file is opened and
  later read by any threads, the tool starts and the bytes that the read filled, and no other
  byte or register, carry the generator's next mark: the whole chain from \<open>config.xml\<close> over
  Pin's system-call entries to the taint map.
\<close>

theorem secret_read_is_tainted:
  assumes "parseConfig lx rules_content offsets doc start_parsed = Inr (0, p)"
    and "sources (conf p) = [\<lparr>src_type = ''path'', granularity = ''PerRead'', details = [fname]\<rparr>]"
    and "num_markings (conf p) = show_int n" "1 < n" "n \<le> 4096" "conf_prop (conf p) \<noteq> None"
    and "fname = cstring (PIN_GetSyscallArgument o1 0)" "fname \<noteq> ''*''"
    and "PIN_GetSyscallNumber o1 = 2" "PIN_GetSyscallNumber r1 = 0"
    and "c_int (PIN_GetSyscallReturn o2) \<noteq> -1"
    and "c_int (PIN_GetSyscallArgument r1 0) = c_int (PIN_GetSyscallReturn o2)"
    and "0 < c_int (PIN_GetSyscallReturn r2)"
  shows "\<exists>t c. main cstring rnd inet_addr lx rules_content offsets doc = Inr t \<and>
    tool_run (running t) [Enter t1 o1, Leave t1 o2, Enter t2 r1, Leave t2 r2] c \<and>
    abs_state (engine (source_state (snd c))) =
      taint_range (PIN_GetSyscallArgument r1 1) (word_of_int (c_int (PIN_GetSyscallReturn r2)))
        (nat (2 mod n)) (abs_state (init_state n None))"
proof -
  let ?pm = "addPathSource rnd fname PerRead (new_PathTaintSource False)"
  let ?m = "register_main_observers cstring (activate cstring 0 new_SyscallMonitor)"
  obtain t where t: "main cstring rnd inet_addr lx rules_content offsets doc = Inr t"
    and m: "fst (running t) = ?m" and pms: "path_monitors (snd (running t)) = [?pm]"
    and eng: "engine (source_state (snd (running t))) = init_state n (Some (TaintGenerator 1 n))"
    by (rule one_source_started [OF assms(1-6,8)])
  let ?s = "snd (running t)"
  let ?src = "source_state ?s"
  let ?o = "(begun o1)\<lparr>ret := PIN_GetSyscallReturn o2, err := PIN_GetSyscallErrno o2\<rparr>"
  let ?r = "(begun r1)\<lparr>ret := PIN_GetSyscallReturn r2, err := PIN_GetSyscallErrno r2\<rparr>"
  obtain st' where st': "pathSourceReadCallbackPerRead rnd fname ?r ?src = Inr (?src\<lparr>engine := st'\<rparr>)"
    "abs_state st' = taint_range (arg1 ?r) (word_of_int (c_int (ret ?r))) (nat (2 mod n))
      (abs_state (init_state n None))"
    using first_read_marks [OF eng assms(4,5), of ?r rnd fname] assms(13) by auto
  obtain s1 s2 where s: "fold_res (\<lambda>cb. cb 2 ?o) [path_open cstring 0, Handle_OPEN cstring] ?s = Inr s1"
    "fold_res (\<lambda>cb. cb 0 ?r) [path_read 0, Handle_READ] s1 = Inr s2" "source_state s2 = ?src\<lparr>engine := st'\<rparr>"
    using open_then_read [of ?o ?r ?pm cstring "pathSourceReadCallbackPerRead rnd" ?s
        "?src\<lparr>engine := st'\<rparr>"] assms(7,11-13) one_source_observer [of rnd fname] st'(1) pms by (auto simp: begun_def)
  obtain m1 where m1: "tool_run (?m, ?s) [Enter t1 o1, Leave t1 o2] (m1, s1)" "observers m1 = observers ?m"
    using Leave_after_Enter [of o1 ?m _ _ o2 ?s s1 t1] assms(9) one_source_callbacks(1) [of cstring] s(1)
    by auto
  obtain m2 where m2: "tool_run (m1, s1) [Enter t2 r1, Leave t2 r2] (m2, s2)"
    using Leave_after_Enter [of r1 m1 _ _ r2 s1 s2 t2] assms(10) one_source_callbacks(2) [of cstring] s(2)
      m1(2) by auto
  have "tool_run (running t) [Enter t1 o1, Leave t1 o2, Enter t2 r1, Leave t2 r2] (m2, s2)"
    using tool_run_append [OF m2 m1(1)] m by (metis append_Cons append_Nil prod.collapse)
  then show ?thesis
    using t s(3) st'(2) by (intro exI [of _ t] exI [of _ "(m2, s2)"]) (simp add: begun_def)
qed

theorem secret_read_is_tainted_witness:
  "\<exists>t c. main (\<lambda>_. ''secret'') (\<lambda>_. 0) (\<lambda>_. 0) sample_libxml None None (Some (Some sample_doc)) = Inr t \<and>
    tool_run (running t)
      [Enter 1 (sample_call 2 0 0 0), Leave 1 (sample_call 2 0 0 3),
       Enter 2 (sample_call 0 3 4096 0), Leave 2 (sample_call 0 3 4096 2)] c \<and>
    mem (abs_state (engine (source_state (snd c)))) 4097 = Some {2}"
proof -
  have "''16'' = show_int 16" "''secret'' \<noteq> ''*''" by (simp_all add: show_int_samples)
  then have "\<exists>t c. main (\<lambda>_. ''secret'') (\<lambda>_. 0) (\<lambda>_. 0) sample_libxml None None (Some (Some sample_doc)) = Inr t \<and>
    tool_run (running t)
      [Enter 1 (sample_call 2 0 0 0), Leave 1 (sample_call 2 0 0 3),
       Enter 2 (sample_call 0 3 4096 0), Leave 2 (sample_call 0 3 4096 2)] c \<and>
    abs_state (engine (source_state (snd c))) =
      taint_range (PIN_GetSyscallArgument (sample_call 0 3 4096 0) 1)
        (word_of_int (c_int (PIN_GetSyscallReturn (sample_call 0 3 4096 2))))
        (nat (2 mod 16)) (abs_state (init_state 16 None))"
    by (intro secret_read_is_tainted [OF sample_parsed, where fname = "''secret''"])
      (assumption | simp add: sample_call_def)+
  then show ?thesis
    by (elim ex_forward conj_forward asm_rl)
      (simp add: sample_call_def taint_range_def in_range_def del: abs_state_sel)
qed

text \<open>A descriptor that \<open>dup\<close> returned is known by name to the tool, but not to the path monitor.\<close>

lemma open_dup_read:
  assumes "c_int (ret o_args) \<noteq> -1" "c_int (arg0 d_args) = c_int (ret o_args)"
    and "c_int (ret d_args) \<noteq> c_int (ret o_args)" "c_int (arg0 r_args) = c_int (ret d_args)"
    and "path_monitors s = [pm]" "activeFileDescriptors pm = Map.empty"
  shows "\<exists>s1 s2. fold_res (\<lambda>cb. cb 2 o_args) [path_open cstring 0, Handle_OPEN cstring] s = Inr s1 \<and>
    fold_res (\<lambda>cb. cb 32 d_args) [Handle_DUP] s1 = Inr s2 \<and>
    fold_res (\<lambda>cb. cb 0 r_args) [path_read 0, Handle_READ] s2 = Inr s2 \<and> source_state s2 = source_state s \<and>
    openFiles s2 (c_int (ret d_args)) = Some (cstring (arg0 o_args))"
  using assms
  by (simp add: path_open_def Handle_OPEN_def openCallback_def addActiveFileDescriptor_def Handle_DUP_def
      path_read_def readCallback_def notifyForRead_def Handle_READ_def Let_def)

lemma nothing_marked: "all_marks (abs_state (init_state n g)) = {}" if "0 \<le> n" "n < 2 ^ 31"
proof -
  have "marks (bitset_init (word_of_int n)) = {}"
    using fresh_set_ok [OF state_ok_init [OF that, of g]] by (simp add: fresh_set_def n_marks_def init_state_def)
  then show ?thesis by (simp add: all_marks_def control_marks_def) (simp add: init_state_def)
qed

text \<open>
  C31: the same chain ends without a mark when the application reads through a duplicate of the
  descriptor. \<open>Handle_DUP\<close> enters the name of the file for the new descriptor into \<open>openFiles\<close>, but
  no source reads that table, and the path monitor follows only \<open>open\<close>, \<open>close\<close> and \<open>read\<close>: the
  bytes that the read filled stay unmarked, and so does everything else.
\<close>

theorem duplicated_descriptor_escapes:
  assumes "parseConfig lx rules_content offsets doc start_parsed = Inr (0, p)"
    and "sources (conf p) = [\<lparr>src_type = ''path'', granularity = ''PerRead'', details = [fname]\<rparr>]"
    and "num_markings (conf p) = show_int n" "1 < n" "n \<le> 4096" "conf_prop (conf p) \<noteq> None"
    and "fname = cstring (PIN_GetSyscallArgument o1 0)" "fname \<noteq> ''*''"
    and "PIN_GetSyscallNumber o1 = 2" "PIN_GetSyscallNumber d1 = 32" "PIN_GetSyscallNumber r1 = 0"
    and "c_int (PIN_GetSyscallReturn o2) \<noteq> -1"
    and "c_int (PIN_GetSyscallArgument d1 0) = c_int (PIN_GetSyscallReturn o2)"
    and "c_int (PIN_GetSyscallReturn d2) \<noteq> c_int (PIN_GetSyscallReturn o2)"
    and "c_int (PIN_GetSyscallArgument r1 0) = c_int (PIN_GetSyscallReturn d2)"
  shows "\<exists>t c. main cstring rnd inet_addr lx rules_content offsets doc = Inr t \<and>
    tool_run (running t) [Enter t1 o1, Leave t1 o2, Enter t2 d1, Leave t2 d2, Enter t3 r1, Leave t3 r2] c \<and>
    openFiles (snd c) (c_int (PIN_GetSyscallReturn d2)) = Some fname \<and> tool_marks c = {}"
proof -
  let ?pm = "addPathSource rnd fname PerRead (new_PathTaintSource False)"
  let ?m = "register_main_observers cstring (activate cstring 0 new_SyscallMonitor)"
  obtain t where t: "main cstring rnd inet_addr lx rules_content offsets doc = Inr t"
    and m: "fst (running t) = ?m" and pms: "path_monitors (snd (running t)) = [?pm]"
    and eng: "engine (source_state (snd (running t))) = init_state n (Some (TaintGenerator 1 n))"
    by (rule one_source_started [OF assms(1-6,8)])
  let ?s = "snd (running t)"
  let ?after = "\<lambda>a b. (begun a)\<lparr>ret := PIN_GetSyscallReturn b, err := PIN_GetSyscallErrno b\<rparr>"
  have "activeFileDescriptors ?pm = Map.empty"
    by (simp add: addPathSource_def observePath_def new_PathTaintSource_def registerDefault_def new_PathMonitor_def)
  then obtain s1 s2 where s: "fold_res (\<lambda>cb. cb 2 (?after o1 o2)) [path_open cstring 0, Handle_OPEN cstring] ?s = Inr s1"
    "fold_res (\<lambda>cb. cb 32 (?after d1 d2)) [Handle_DUP] s1 = Inr s2"
    "fold_res (\<lambda>cb. cb 0 (?after r1 r2)) [path_read 0, Handle_READ] s2 = Inr s2"
    "source_state s2 = source_state ?s" "openFiles s2 (c_int (PIN_GetSyscallReturn d2)) = Some fname"
    using open_dup_read [of "?after o1 o2" "?after d1 d2" "?after r1 r2" ?s ?pm cstring] assms(7,12-15) pms
    by (auto simp: begun_def)
  obtain m1 where m1: "tool_run (?m, ?s) [Enter t1 o1, Leave t1 o2] (m1, s1)" "observers m1 = observers ?m"
    using Leave_after_Enter [of o1 ?m _ _ o2 ?s s1 t1] assms(9) one_source_callbacks(1) [of cstring] s(1) by auto
  obtain m2 where m2: "tool_run (m1, s1) [Enter t2 d1, Leave t2 d2] (m2, s2)" "observers m2 = observers ?m"
    using Leave_after_Enter [of d1 m1 _ _ d2 s1 s2 t2] assms(10) one_source_callbacks(3) [of cstring] s(2) m1(2)
    by auto
  obtain m3 where m3: "tool_run (m2, s2) [Enter t3 r1, Leave t3 r2] (m3, s2)"
    using Leave_after_Enter [of r1 m2 _ _ r2 s2 s2 t3] assms(11) one_source_callbacks(2) [of cstring] s(3) m2(2)
    by auto
  have "tool_run (running t) [Enter t1 o1, Leave t1 o2, Enter t2 d1, Leave t2 d2, Enter t3 r1, Leave t3 r2] (m3, s2)"
    using tool_run_append [OF m3 tool_run_append [OF m2(1) m1(1)]] m by (metis append_Cons append_Nil prod.collapse)
  moreover have "tool_marks (m3, s2) = {}"
    using nothing_marked [of n] assms(4,5) by (simp add: tool_marks_def s(4) eng)
  ultimately show ?thesis using t s(5) by (intro exI [of _ t] exI [of _ "(m3, s2)"]) simp
qed

theorem duplicated_descriptor_escapes_witness:
  "\<exists>t c. main (\<lambda>_. ''secret'') (\<lambda>_. 0) (\<lambda>_. 0) sample_libxml None None (Some (Some sample_doc)) = Inr t \<and>
    tool_run (running t)
      [Enter 1 (sample_call 2 0 0 0), Leave 1 (sample_call 2 0 0 3),
       Enter 1 (sample_call 32 3 0 0), Leave 1 (sample_call 32 3 0 4),
       Enter 1 (sample_call 0 4 4096 0), Leave 1 (sample_call 0 4 4096 2)] c \<and>
    openFiles (snd c) (c_int (PIN_GetSyscallReturn (sample_call 32 3 0 4))) = Some ''secret'' \<and> tool_marks c = {}"
proof -
  have "''16'' = show_int 16" "''secret'' \<noteq> ''*''" by (simp_all add: show_int_samples)
  then show ?thesis
    by (intro duplicated_descriptor_escapes [OF sample_parsed, where fname = "''secret''" and n = 16])
      (assumption | simp add: sample_call_def)+
qed

section \<open>Taint through a branch\<close>

text \<open>
  C4: when a comparison of tainted operands decides a branch, a register that the arm of the
  branch sets to a constant carries the marks of both operands, although no data flows into
  it; at the meeting point the branch ends, and no byte of memory has changed its marks.
\<close>

theorem comparison_taints_its_arm:
  assumes "config_ok c" "ctl (marks_now c) = (\<lambda>_. None)" "writes_ok x" "writes_ok y"
    and "INS_Opcode cmp = ''CMP''" "readable cmp 0" "readable_imm cmp 1"
    and "INS_Opcode mov = ''MOV''" "INS_OperandIsReg mov 0" "INS_OperandReg mov 0 = r"
    and "\<not> INS_OperandIsReg mov 1" "\<not> INS_OperandIsMemory mov 1" "INS_OperandIsImmediate mov 1"
    and "r \<noteq> REG_ESP" "r \<noteq> REG_EBP"
    and "F = operand_marks x cmp 0 (marks_now c) \<union> operand_marks x cmp 1 (marks_now c)" "F \<noteq> {}"
  shows "\<exists>c'. tool_run c [Instruction cmp x, Branch a, Instruction mov y, Meet [a]] c' \<and> config_ok c' \<and>
    regs (marks_now c') r = Some F \<and> ctl (marks_now c') = (\<lambda>_. None) \<and>
    mem (marks_now c') = mem (marks_now c)"
proof -
  obtain c2 where c2: "tool_run c [Instruction cmp x, Branch a] c2" "config_ok c2"
    "ctl (marks_now c2) = [a \<mapsto> F]" "mem (marks_now c2) = mem (marks_now c)"
    using comparison_pends [OF assms(1-3,5-7,16,17)] by blast
  have "implements (Dataflow mov) (\<lambda>x a. write_operand x mov 0 (operand_marks x mov 1 a) a)"
    unfolding Dataflow_MOV [OF assms(8)]
    by (rule Instrument_MOV_implements) (use assms(9-13) in \<open>simp_all add: readable_imm_def writable_def\<close>)
  then obtain c3 where c3: "tool_step c2 (Instruction mov y) c3" "config_ok c3"
    "regs (marks_now c3) = regs (write_reg r {} (marks_now c2))"
    "mem (marks_now c3) = mem (marks_now c2)" "ctl (marks_now c3) = ctl (marks_now c2)"
    using instruction_event [OF c2(2) _ assms(4)] assms(9-15)
    by (fastforce simp: write_operand_def operand_marks_def write_reg_def)
  have "control_marks (marks_now c2) = F" unfolding control_marks_def c2(3) by (auto split: if_splits)
  then have arm: "regs (marks_now c3) r = Some F"
    unfolding c3(3) using assms(14,15) by (simp add: write_reg_def del: abs_state_sel)
  obtain c4 where c4: "tool_step c3 (Meet [a]) c4" "config_ok c4"
    "marks_now c4 = pop_control [a] (marks_now c3)" using meet_event [OF c3(2)] by blast
  have "tool_run c [Instruction cmp x, Branch a, Instruction mov y, Meet [a]] c4"
    using run_snoc [OF run_snoc [OF c2(1) c3(1)] c4(1)] by simp
  then show ?thesis
    using c4(2,3) arm c3(4,5) c2(3,4) by (intro exI [of _ c4]) (simp del: abs_state_sel)
qed

text \<open>A comparison of marked memory, and a constant moved to EBX.\<close>

definition sample_cmp :: ins where
  "sample_cmp = (store_ins REG_RAX)\<lparr>INS_Opcode := ''CMP''\<rparr>"

definition sample_mov :: ins where
  "sample_mov = (register_ins 32 [REG_EBX])\<lparr>INS_Opcode := ''MOV'', INS_OperandIsImmediate := (\<lambda>k. k = 1)\<rparr>"

lemmas sample_ins_defs = sample_cmp_def sample_mov_def store_ins_def readable_def readable_imm_def
  operand_marks_def at_address_def

text \<open>The tool after its start, with the bytes from 4096 on marked with 5.\<close>

lemma sample_marked:
  obtains t c where "main (\<lambda>_. []) (\<lambda>_. 0) (\<lambda>_. 0) sample_libxml None None (Some (Some sample_doc)) = Inr t"
    "tool_run (running t) [Mark 0 4096 8 5] c" "config_ok c" "ctl (marks_now c) = (\<lambda>_. None)"
    "regs (marks_now c) = (\<lambda>_. None)" "mem_marks (marks_now c) 4096 8 = {5}"
proof -
  obtain t where t: "main (\<lambda>_. []) (\<lambda>_. 0) (\<lambda>_. 0) sample_libxml None None (Some (Some sample_doc)) = Inr t"
    using sample_main by blast
  have eng: "engine (source_state (snd (running t))) = init_state 16 (Some (TaintGenerator 1 16))"
    using t sample_started by blast
  have n: "NUMBER_OF_TAINT_MARKS (init_state 16 g) = 16" for g by (simp add: init_state_def)
  obtain c where c: "tool_step (running t) (Mark 0 4096 8 5) c" "config_ok c"
    "marks_now c = taint_range 4096 8 5 (abs_state (init_state 16 (Some (TaintGenerator 1 16))))"
    using mark_event [OF main_ok [OF _ t], of 0 5 4096 8] eng n by auto
  have maps: "ctl (marks_now c) = (\<lambda>_. None)" "regs (marks_now c) = (\<lambda>_. None)"
    unfolding c(3) by (simp_all add: taint_range_def) (simp_all add: init_state_def abs_state_def)
  have "mem (marks_now c) x = Some {5}" if "in_range 4096 8 x" for x
    unfolding c(3) using that by (simp add: taint_range_def)
  moreover have "in_range 4096 8 4096" by (simp add: in_range_def)
  ultimately have "mem_marks (marks_now c) 4096 8 = {5}"
    by (auto simp: mem_marks_def simp del: abs_state_sel)
  then show thesis using t run_snoc [OF run_Nil c(1)] c(2) maps by (intro that [of t c]) simp_all
qed

theorem comparison_taints_its_arm_witness:
  "\<exists>t c'. main (\<lambda>_. []) (\<lambda>_. 0) (\<lambda>_. 0) sample_libxml None None (Some (Some sample_doc)) = Inr t \<and>
    tool_run (running t) [Mark 0 4096 8 5, Instruction sample_cmp (at_address 4096), Branch 64,
      Instruction sample_mov (at_address 0), Meet [64]] c' \<and>
    regs (marks_now c') REG_EBX = Some {5} \<and> ctl (marks_now c') = (\<lambda>_. None)"
proof -
  obtain t c where c: "main (\<lambda>_. []) (\<lambda>_. 0) (\<lambda>_. 0) sample_libxml None None (Some (Some sample_doc)) = Inr t"
    "tool_run (running t) [Mark 0 4096 8 5] c" "config_ok c" "ctl (marks_now c) = (\<lambda>_. None)"
    "regs (marks_now c) = (\<lambda>_. None)" "mem_marks (marks_now c) 4096 8 = {5}" by (rule sample_marked)
  then have "\<exists>c'. tool_run c [Instruction sample_cmp (at_address 4096), Branch 64,
      Instruction sample_mov (at_address 0), Meet [64]] c' \<and> config_ok c' \<and>
      regs (marks_now c') REG_EBX = Some {5} \<and> ctl (marks_now c') = (\<lambda>_. None) \<and>
      mem (marks_now c') = mem (marks_now c)"
    by (intro comparison_taints_its_arm [OF c(3) _ writes_ok_at_address writes_ok_at_address])
      (simp_all add: sample_ins_defs del: abs_state_sel)
  then show ?thesis using c(1) tool_run_append [OF _ c(2)] by fastforce
qed

section \<open>From the graph of a routine to the pending branches\<close>

text \<open>
  C19: the calls that \<open>Controlflow\<close> inserts at an instruction end the branches that meet there, in
  the order of their addresses up to the first that is not pending, and no other branch; no
  register and no byte changes its marks. So when all of them are pending, all of them end.
\<close>

theorem meeting_point_ends_branches:
  assumes "config_ok c" "meeting_point g j = None"
    and "B = {INS_Address i | i. i \<in> set xs \<and> meeting_point g i = Some (INS_Address j)}"
  shows "\<exists>c'. tool_run c (map control_event (control_calls g xs j)) c' \<and> config_ok c' \<and>
    (\<forall>x. ctl (marks_now c') x =
      (if x \<in> B \<and> (\<forall>b \<in> B. b \<le> x \<longrightarrow> ctl (marks_now c) b \<noteq> None) then None else ctl (marks_now c) x)) \<and>
    regs (marks_now c') = regs (marks_now c) \<and> mem (marks_now c') = mem (marks_now c)"
proof -
  obtain c' where c': "tool_run c (map control_event (control_calls g xs j)) c'" "config_ok c'"
    "marks_now c' = pop_control (controls g xs (INS_Address j)) (marks_now c)"
    using control_calls_run [OF assms(1,2)] by blast
  have "set (controls g xs (INS_Address j)) = B" unfolding assms(3) by (rule controls_set(1))
  then have "ctl (marks_now c') x =
      (if x \<in> B \<and> (\<forall>b \<in> B. b \<le> x \<longrightarrow> ctl (marks_now c) b \<noteq> None) then None else ctl (marks_now c) x)" for x
    unfolding c'(3) using pop_control_ascending [OF controls_set(2,3)] by metis
  then show ?thesis using c' by (intro exI [of _ c']) (simp del: abs_state_sel)
qed

text \<open>The branch at 101 of a routine whose arms meet at 103.\<close>

theorem meeting_point_ends_branches_witness:
  "\<exists>t c'. main (\<lambda>_. []) (\<lambda>_. 0) (\<lambda>_. 0) sample_libxml None None (Some (Some sample_doc)) = Inr t \<and>
    tool_run (running t) ([Mark 0 4096 8 5, Instruction sample_cmp (at_address 4096), Branch 101] @
      map control_event (control_calls (graph_of ascending meeting_arms) meeting_arms (return_ins 103))) c' \<and>
    ctl (marks_now c') 101 = None"
proof -
  let ?g = "graph_of ascending meeting_arms"
  obtain t c where c: "main (\<lambda>_. []) (\<lambda>_. 0) (\<lambda>_. 0) sample_libxml None None (Some (Some sample_doc)) = Inr t"
    "tool_run (running t) [Mark 0 4096 8 5] c" "config_ok c" "ctl (marks_now c) = (\<lambda>_. None)"
    "regs (marks_now c) = (\<lambda>_. None)" "mem_marks (marks_now c) 4096 8 = {5}" by (rule sample_marked)
  have "\<exists>c1. tool_run c [Instruction sample_cmp (at_address 4096), Branch 101] c1 \<and> config_ok c1 \<and>
      ctl (marks_now c1) = [101 \<mapsto> {5}] \<and> mem (marks_now c1) = mem (marks_now c)"
    by (rule comparison_pends [OF c(3,4) writes_ok_at_address])
      (use c(5,6) in \<open>simp_all add: sample_ins_defs del: abs_state_sel\<close>)
  then obtain c1 where c1: "tool_run c [Instruction sample_cmp (at_address 4096), Branch 101] c1"
    "config_ok c1" "ctl (marks_now c1) = [101 \<mapsto> {5}]" by blast
  have run: "tool_run (running t) [Mark 0 4096 8 5, Instruction sample_cmp (at_address 4096), Branch 101] c1"
    using tool_run_append [OF c1(1) c(2)] by simp
  have B: "{101} = {INS_Address i | i. i \<in> set meeting_arms \<and> meeting_point ?g i = Some (INS_Address (return_ins 103))}"
    using meeting_arms_branch by (simp add: set_eq_iff)
  have "meeting_point ?g (return_ins 103) = None"
    by (simp add: meeting_point_def return_ins_def plain_ins_def)
  from meeting_point_ends_branches [OF c1(2) this B] obtain c' where
    "tool_run c1 (map control_event (control_calls ?g meeting_arms (return_ins 103))) c'"
    "ctl (marks_now c') 101 = None" using c1(3) by (auto simp del: abs_state_sel)
  then show ?thesis using c(1) tool_run_append [OF _ run] by blast
qed

end
